(* ===== verification/Prelude.thy ===== *)
theory Prelude
  imports Main "HOL-Library.Word"
begin

text \<open>
  Shared vocabulary of the development.

  \<^item> \<open>exn\<close>: every way a C++ call of the program can fail to return normally: the two
    exception classes of \<^verbatim>\<open>src/src/exceptions/Exceptions.h\<close>, the standard exceptions the code
    can raise, and three outcomes that are no exceptions and that no handler catches:
    \<open>Undefined\<close> (undefined behaviour or a hardware trap: an access outside the mapping, a null
    pointer, a division by zero, an array index out of range), \<open>Hang\<close> (a loop whose exit
    condition no thread will ever establish) and \<open>OutsideTree\<close> (a path that the model of the file
    system does not follow).
  \<^item> \<open>('s, 'a) act\<close>: a C++ operation on a state \<open>'s\<close>. The state is returned on the
    exceptional path too, because a C++ exception does not undo the writes made before it.
  \<^item> Little-endian object representations of numbers, \<^verbatim>\<open>memcpy\<close> into a byte list, and
    \<^verbatim>\<open>size_t\<close> arithmetic (a natural number below \<open>2 ^ 64\<close>, wrap-around written out).
\<close>

section \<open>Collections of facts\<close>

named_theorems act_simps \<open>rewriting of the exception-and-state operations\<close>
named_theorems bytes_simps \<open>rewriting of byte-level reads and writes\<close>
named_theorems stream_simps \<open>what the extraction operators read from a stream\<close>

section \<open>Outcomes\<close>

datatype exn =
    IncorrectInputException string
  | ExecutionException string
  | RuntimeError string
  | InvalidArgument string
  | StdOutOfRange string
  | BadVariantAccess
  | FilesystemError string
  | Undefined string
  | Hang
  | OutsideTree string

text \<open>
  \<open>what\<close> is the message of an exception; the two classes of the program put a prefix
  (with the spelling of the source) before the text they are given.
\<close>

fun what :: "exn \<Rightarrow> string" where
  "what (IncorrectInputException msg) = ''Incorret input: '' @ msg"
| "what (ExecutionException msg) = ''Incorret input: '' @ msg"
| "what (RuntimeError msg) = msg"
| "what (InvalidArgument msg) = msg"
| "what (StdOutOfRange msg) = msg"
| "what BadVariantAccess = ''std::get: wrong index for variant''"
| "what (FilesystemError msg) = msg"
| "what (Undefined msg) = msg"
| "what Hang = ''''"
| "what (OutsideTree msg) = msg"

text \<open>A \<^verbatim>\<open>catch (...)\<close> or \<^verbatim>\<open>catch (std::exception&)\<close> handler runs for exceptions only.\<close>

fun catchable :: "exn \<Rightarrow> bool" where
  "catchable (Undefined msg) = False"
| "catchable Hang = False"
| "catchable (OutsideTree msg) = False"
| "catchable e = True"

section \<open>Operations with exceptions and state\<close>

type_synonym ('s, 'a) act = "'s \<Rightarrow> (exn + 'a) \<times> 's"

definition ret :: "'a \<Rightarrow> ('s, 'a) act" where
  "ret x = (\<lambda>s. (Inr x, s))"

definition throw :: "exn \<Rightarrow> ('s, 'a) act" where
  "throw e = (\<lambda>s. (Inl e, s))"

definition bnd :: "('s, 'a) act \<Rightarrow> ('a \<Rightarrow> ('s, 'b) act) \<Rightarrow> ('s, 'b) act" where
  "bnd m f = (\<lambda>s. case m s of (Inl e, s') \<Rightarrow> (Inl e, s') | (Inr x, s') \<Rightarrow> f x s')"

definition catch_std :: "('s, 'a) act \<Rightarrow> (exn \<Rightarrow> ('s, 'a) act) \<Rightarrow> ('s, 'a) act" where
  "catch_std m h = (\<lambda>s. case m s of
       (Inl e, s') \<Rightarrow> if catchable e then h e s' else (Inl e, s')
     | (Inr x, s') \<Rightarrow> (Inr x, s'))"

text \<open>An operation that only reads the state.\<close>

definition reads :: "('s \<Rightarrow> exn + 'a) \<Rightarrow> ('s, 'a) act" where
  "reads f = (\<lambda>s. (f s, s))"

definition modify :: "('s \<Rightarrow> 's) \<Rightarrow> ('s, unit) act" where
  "modify f = (\<lambda>s. (Inr (), f s))"

text \<open>An operation on a member of an object, run on the object.\<close>

definition zoom :: "('s \<Rightarrow> 'm) \<Rightarrow> ('m \<Rightarrow> 's \<Rightarrow> 's) \<Rightarrow> ('m, 'a) act \<Rightarrow> ('s, 'a) act" where
  "zoom get put m = (\<lambda>s. case m (get s) of (r, x) \<Rightarrow> (r, put x s))"

text \<open>Operations run one after the other, up to the first that fails.\<close>

fun seq_all :: "('s, unit) act list \<Rightarrow> ('s, unit) act" where
  "seq_all [] = ret ()"
| "seq_all (m # ms) = bnd m (\<lambda>_. seq_all ms)"

text \<open>Sequencing of computations without state.\<close>

definition bindE :: "exn + 'a \<Rightarrow> ('a \<Rightarrow> exn + 'b) \<Rightarrow> exn + 'b" where
  "bindE r f = (case r of Inl e \<Rightarrow> Inl e | Inr x \<Rightarrow> f x)"

text \<open>\<^verbatim>\<open>try { r } catch (...) { throw e; }\<close> without state.\<close>

definition rethrow_as :: "exn \<Rightarrow> exn + 'a \<Rightarrow> exn + 'a" where
  "rethrow_as e r = (case r of Inl e' \<Rightarrow> if catchable e' then Inl e else Inl e' | Inr x \<Rightarrow> Inr x)"

lemma ret_apply [simp, act_simps]: "ret x s = (Inr x, s)"
  by (simp add: ret_def)

lemma throw_apply [simp, act_simps]: "throw e s = (Inl e, s)"
  by (simp add: throw_def)

lemma reads_apply [simp, act_simps]: "reads f s = (f s, s)"
  by (simp add: reads_def)

lemma modify_apply [simp, act_simps]: "modify f s = (Inr (), f s)"
  by (simp add: modify_def)

lemma zoom_apply [act_simps]: "m (get s) = (r, x) \<Longrightarrow> zoom get put m s = (r, put x s)"
  by (simp add: zoom_def)

lemma bnd_Inr [act_simps]: "m s = (Inr x, s') \<Longrightarrow> bnd m f s = f x s'"
  by (simp add: bnd_def)

lemma bnd_Inl [act_simps]: "m s = (Inl e, s') \<Longrightarrow> bnd m f s = (Inl e, s')"
  by (simp add: bnd_def)

lemma bnd_fst_Inl: "fst (m s) = Inl e \<Longrightarrow> fst (bnd m f s) = Inl e"
  by (cases "m s") (simp add: bnd_def)

lemma bnd_InrE:
  assumes "bnd m f s = (Inr y, s'')"
  obtains x s' where "m s = (Inr x, s')" and "f x s' = (Inr y, s'')"
  using assms by (auto simp: bnd_def split: prod.splits sum.splits)

lemma bindE_simps [simp]: "bindE (Inr x) f = f x" "bindE (Inl e) f = Inl e"
  by (simp_all add: bindE_def)

lemma bindE_eq_Inr: "bindE r f = Inr y \<longleftrightarrow> (\<exists>x. r = Inr x \<and> f x = Inr y)"
  by (cases r) simp_all

lemma rethrow_as_Inr [simp]: "rethrow_as e (Inr x) = Inr x"
  by (simp add: rethrow_as_def)

lemma rethrow_as_eq_Inr: "rethrow_as e r = Inr x \<longleftrightarrow> r = Inr x"
  by (cases r) (simp_all add: rethrow_as_def)

lemma rethrow_as_Inl: "rethrow_as e (Inl e') = (if catchable e' then Inl e else Inl e')"
  by (simp add: rethrow_as_def)

section \<open>size_t\<close>

abbreviation SIZE_MOD :: nat where "SIZE_MOD \<equiv> 2 ^ 64"

definition SIZE_MAX :: nat where
  "SIZE_MAX = 2 ^ 64 - 1"

definition size_add :: "nat \<Rightarrow> nat \<Rightarrow> nat" where
  "size_add a b = (a + b) mod SIZE_MOD"

definition size_sub :: "nat \<Rightarrow> nat \<Rightarrow> nat" where
  "size_sub a b = (a + (SIZE_MOD - b)) mod SIZE_MOD"

definition size_mul :: "nat \<Rightarrow> nat \<Rightarrow> nat" where
  "size_mul a b = (a * b) mod SIZE_MOD"

lemma size_add_small: "a + b < SIZE_MOD \<Longrightarrow> size_add a b = a + b"
  by (simp add: size_add_def)

lemma size_mul_small: "a * b < SIZE_MOD \<Longrightarrow> size_mul a b = a * b"
  by (simp add: size_mul_def)

lemma size_sub_small:
  assumes "b \<le> a" and "a < SIZE_MOD"
  shows "size_sub a b = a - b"
proof -
  have "a + (SIZE_MOD - b) = (a - b) + SIZE_MOD"
    using assms by linarith
  then show ?thesis
    unfolding size_sub_def using assms by (simp only: mod_add_self2) simp
qed

section \<open>Bytes\<close>

abbreviation NUL :: char where "NUL \<equiv> CHR 0x00"

text \<open>Little-endian object representation of an unsigned value of \<open>k\<close> bytes, and its reading.\<close>

fun le_bytes :: "nat \<Rightarrow> nat \<Rightarrow> char list" where
  "le_bytes 0 n = []"
| "le_bytes (Suc k) n = char_of (n mod 256) # le_bytes k (n div 256)"

fun le_nat :: "char list \<Rightarrow> nat" where
  "le_nat [] = 0"
| "le_nat (c # cs) = of_char c + 256 * le_nat cs"

text \<open>\<^verbatim>\<open>memcpy (base + p, bs, |bs|)\<close> on a byte list, and reading \<open>n\<close> bytes at \<open>p\<close>.\<close>

definition put_bytes :: "nat \<Rightarrow> char list \<Rightarrow> char list \<Rightarrow> char list" where
  "put_bytes p bs xs = take p xs @ bs @ drop (p + length bs) xs"

definition get_bytes :: "nat \<Rightarrow> nat \<Rightarrow> char list \<Rightarrow> char list" where
  "get_bytes p n xs = take n (drop p xs)"

text \<open>\<^verbatim>\<open>std::string::resize\<close>.\<close>

definition str_resize :: "nat \<Rightarrow> string \<Rightarrow> string" where
  "str_resize n s = take n s @ replicate (n - length s) NUL"

text \<open>The part of a buffer before its first NUL byte.\<close>

definition c_str :: "string \<Rightarrow> string" where
  "c_str s = takeWhile (\<lambda>c. c \<noteq> NUL) s"

lemma length_le_bytes [simp]: "length (le_bytes k n) = k"
  by (induction k arbitrary: n) simp_all

lemma le_nat_le_bytes: "le_nat (le_bytes k n) = n mod 256 ^ k"
proof (induction k arbitrary: n)
  case 0
  then show ?case by simp
next
  case (Suc k)
  have "le_nat (le_bytes (Suc k) n) = n mod 256 + 256 * (n div 256 mod 256 ^ k)"
    by (simp add: Suc.IH)
  also have "\<dots> = n mod (256 * 256 ^ k)"
    by (simp add: mod_mult2_eq)
  finally show ?case by simp
qed

lemma le_nat_bound: "le_nat bs < 256 ^ length bs"
proof (induction bs)
  case Nil
  then show ?case by simp
next
  case (Cons c cs)
  have "of_char c < (256 :: nat)" by (simp add: of_char_def)
  with Cons.IH have "of_char c + 256 * le_nat cs < 256 * 256 ^ length cs"
    by linarith
  then show ?case by simp
qed

lemma length_put_bytes [simp]: "p + length bs \<le> length xs \<Longrightarrow> length (put_bytes p bs xs) = length xs"
  by (simp add: put_bytes_def)

lemma length_get_bytes [simp]: "p + n \<le> length xs \<Longrightarrow> length (get_bytes p n xs) = n"
  by (simp add: get_bytes_def)

lemma nth_put_bytes:
  "p + length bs \<le> length xs \<Longrightarrow> i < length xs \<Longrightarrow>
   put_bytes p bs xs ! i = (if p \<le> i \<and> i < p + length bs then bs ! (i - p) else xs ! i)"
  by (auto simp: put_bytes_def nth_append min_def)

lemma nth_get_bytes: "p + n \<le> length xs \<Longrightarrow> i < n \<Longrightarrow> get_bytes p n xs ! i = xs ! (p + i)"
  by (simp add: get_bytes_def)

lemma get_put_bytes_same [bytes_simps]:
  "p + length bs \<le> length xs \<Longrightarrow> n = length bs \<Longrightarrow> get_bytes p n (put_bytes p bs xs) = bs"
  by (simp add: get_bytes_def put_bytes_def)

lemma get_put_bytes_disjoint [bytes_simps]:
  assumes "p + length bs \<le> length xs" and "q + n \<le> length xs"
    and "q + n \<le> p \<or> p + length bs \<le> q"
  shows "get_bytes q n (put_bytes p bs xs) = get_bytes q n xs"
  by (rule nth_equalityI) (use assms in \<open>auto simp: nth_get_bytes nth_put_bytes\<close>)

lemma get_bytes_append [bytes_simps]:
  "p + n \<le> length xs \<Longrightarrow> get_bytes p n (xs @ ys) = get_bytes p n xs"
  by (simp add: get_bytes_def)

lemma get_bytes_replicate:
  "length xs \<le> p \<Longrightarrow> p + n \<le> length xs + k \<Longrightarrow>
   get_bytes p n (xs @ replicate k c) = replicate n c"
  by (simp add: get_bytes_def min_def)

lemma length_str_resize [simp]: "length (str_resize n s) = n"
  by (simp add: str_resize_def)

lemma c_str_append_NUL: "c_str (s @ NUL # t) = c_str s"
  by (induction s) (simp_all add: c_str_def)

lemma c_str_no_NUL: "NUL \<notin> set s \<Longrightarrow> c_str s = s"
  unfolding c_str_def by (rule takeWhile_eq_all_conv [THEN iffD2]) auto

lemma c_str_idem [simp]: "c_str (c_str s) = c_str s"
  by (simp add: c_str_def)

lemma c_str_str_resize: "c_str (str_resize n s) = c_str (take n s)"
proof (cases "n - length s")
  case 0
  then show ?thesis by (simp add: str_resize_def)
next
  case (Suc k)
  then show ?thesis by (simp add: str_resize_def c_str_append_NUL)
qed

lemma length_c_str_le: "length (c_str s) \<le> length s"
  by (simp add: c_str_def length_takeWhile_le)

section \<open>Lists of results\<close>

text \<open>Left-to-right evaluation of a list of computations, stopping at the first exception.\<close>

fun mapE :: "('a \<Rightarrow> exn + 'b) \<Rightarrow> 'a list \<Rightarrow> exn + 'b list" where
  "mapE f [] = Inr []"
| "mapE f (x # xs) = bindE (f x) (\<lambda>y. bindE (mapE f xs) (\<lambda>ys. Inr (y # ys)))"

lemma mapE_Inr: "(\<And>x. x \<in> set xs \<Longrightarrow> f x = Inr (g x)) \<Longrightarrow> mapE f xs = Inr (map g xs)"
  by (induction xs) simp_all

lemma mapE_length: "mapE f xs = Inr ys \<Longrightarrow> length ys = length xs"
  by (induction xs arbitrary: ys) (auto simp: bindE_eq_Inr)

lemma mapE_nth: "mapE f xs = Inr ys \<Longrightarrow> i < length xs \<Longrightarrow> f (xs ! i) = Inr (ys ! i)"
  by (induction xs arbitrary: ys i) (auto simp: bindE_eq_Inr nth_Cons split: nat.splits)

lemma mapE_append:
  "mapE f (xs @ ys) = bindE (mapE f xs) (\<lambda>us. bindE (mapE f ys) (\<lambda>vs. Inr (us @ vs)))"
  by (induction xs) (auto simp: bindE_def split: sum.splits)

end
