(* ===== verification/Files.thy ===== *)
theory Files
  imports Prelude
begin

text \<open>
  The directory tree under the data directory, with what \<^verbatim>\<open>std::filesystem\<close>,
  \<^verbatim>\<open>std::ofstream\<close> and \<^verbatim>\<open>open\<close> do to it, as far as \<^verbatim>\<open>src/src/data_base/DataBase.h\<close>
  and \<^verbatim>\<open>src/src/system/system.h\<close> use them. A path is the list of names below the data directory.
  The entries of a directory are in the order in which an iterator delivers them. The operations
  succeed unless the tree itself forbids them (a missing parent, a file where a directory is needed).
\<close>

datatype node = FileN "char list" | DirN "(string \<times> node) list"

type_synonym path = "string list"

record volume =
  vol_base :: string
  root :: node
  vol_max_file :: nat
  vol_max_map :: nat

fun entries :: "node \<Rightarrow> (string \<times> node) list" where
  "entries (DirN es) = es"
| "entries (FileN bs) = []"

fun find_node :: "node \<Rightarrow> path \<Rightarrow> node option" where
  "find_node n [] = Some n"
| "find_node n (x # xs) = (case map_of (entries n) x of None \<Rightarrow> None | Some m \<Rightarrow> find_node m xs)"

text \<open>Replace or add the entry of a name; a new one comes last.\<close>

fun put_entry :: "string \<Rightarrow> node \<Rightarrow> (string \<times> node) list \<Rightarrow> (string \<times> node) list" where
  "put_entry x n [] = [(x, n)]"
| "put_entry x n ((y, m) # es) = (if y = x then (x, n) # es else (y, m) # put_entry x n es)"

fun put_node :: "node \<Rightarrow> path \<Rightarrow> node \<Rightarrow> node" where
  "put_node old [] new = new"
| "put_node (FileN bs) (x # xs) new = FileN bs"
| "put_node (DirN es) (x # xs) new =
     (case map_of es x of
        Some m \<Rightarrow> DirN (put_entry x (put_node m xs new) es)
      | None \<Rightarrow> if xs = [] then DirN (put_entry x new es) else DirN es)"

fun is_dir :: "node option \<Rightarrow> bool" where
  "is_dir (Some (DirN es)) = True"
| "is_dir _ = False"

definition parent_ok :: "volume \<Rightarrow> path \<Rightarrow> bool" where
  "parent_ok v p \<longleftrightarrow> p \<noteq> [] \<and> is_dir (find_node (root v) (butlast p))"

definition path_str :: "volume \<Rightarrow> path \<Rightarrow> string" where
  "path_str v p = vol_base v @ concat (map (\<lambda>x. CHR ''/'' # x) p)"

text \<open>\<^verbatim>\<open>fs::create_directory\<close>: false when the directory exists already.\<close>

definition create_directory :: "path \<Rightarrow> (volume, bool) act" where
  "create_directory p v =
     (if is_dir (find_node (root v) p) then (Inr False, v)
      else if find_node (root v) p \<noteq> None \<or> \<not> parent_ok v p
      then (Inl (FilesystemError (''cannot create directory: '' @ path_str v p)), v)
      else (Inr True, v\<lparr>root := put_node (root v) p (DirN [])\<rparr>))"

text \<open>An output stream opened on a path, written and closed; a stream that cannot be opened swallows the text.\<close>

definition write_file :: "path \<Rightarrow> char list \<Rightarrow> (volume, unit) act" where
  "write_file p bs v =
     (if parent_ok v p \<and> \<not> is_dir (find_node (root v) p)
      then (Inr (), v\<lparr>root := put_node (root v) p (FileN bs)\<rparr>) else (Inr (), v))"

definition read_file :: "volume \<Rightarrow> path \<Rightarrow> char list option" where
  "read_file v p = (case find_node (root v) p of Some (FileN bs) \<Rightarrow> Some bs | _ \<Rightarrow> None)"

text \<open>\<^verbatim>\<open>open(path, O_RDWR | O_CREAT)\<close>: the bytes of the file, made empty if it is not there.\<close>

definition open_file :: "path \<Rightarrow> (volume, char list option) act" where
  "open_file p v =
     (case find_node (root v) p of
        Some (FileN bs) \<Rightarrow> (Inr (Some bs), v)
      | Some (DirN es) \<Rightarrow> (Inr None, v)
      | None \<Rightarrow> if parent_ok v p then (Inr (Some []), v\<lparr>root := put_node (root v) p (FileN [])\<rparr>)
                else (Inr None, v))"

section \<open>Facts about trees\<close>

lemma map_of_put_entry: "map_of (put_entry x n es) = (map_of es)(x \<mapsto> n)"
  by (induction x n es rule: put_entry.induct) auto

lemma find_put_same:
  "p \<noteq> [] \<Longrightarrow> is_dir (find_node n (butlast p)) \<Longrightarrow> find_node (put_node n p m) p = Some m"
proof (induction n p m rule: put_node.induct)
  case (3 es x xs new)
  show ?case
  proof (cases xs)
    case Nil
    then show ?thesis by (auto simp: map_of_put_entry split: option.splits)
  next
    case (Cons y ys)
    then obtain m where "map_of es x = Some m" "is_dir (find_node m (butlast xs))"
      using "3.prems" by (auto split: option.splits)
    then show ?thesis using "3.IH" Cons by (simp add: map_of_put_entry)
  qed
qed (simp_all split: if_splits)

text \<open>\<open>q\<close> and \<open>p\<close> are neither on the same branch nor below one another.\<close>

definition apart_paths :: "path \<Rightarrow> path \<Rightarrow> bool" where
  "apart_paths p q \<longleftrightarrow> (\<exists>i < min (length p) (length q). p ! i \<noteq> q ! i)"

lemma find_put_apart: "apart_paths p q \<Longrightarrow> find_node (put_node n p m) q = find_node n q"
proof (induction n p m arbitrary: q rule: put_node.induct)
  case (3 es x xs new)
  then obtain y ys where q: "q = y # ys" by (cases q) (auto simp: apart_paths_def)
  show ?case
  proof (cases "y = x")
    case True
    then have "apart_paths xs ys"
      using "3.prems" unfolding q apart_paths_def by (auto simp: nth_Cons less_Suc_eq_0_disj split: nat.splits)
    moreover have "xs \<noteq> []" using \<open>apart_paths xs ys\<close> by (auto simp: apart_paths_def)
    ultimately show ?thesis using "3.IH" True by (auto simp: q map_of_put_entry split: option.splits)
  next
    case False
    then show ?thesis by (auto simp: q map_of_put_entry split: option.splits)
  qed
qed (auto simp: apart_paths_def)

end
