(* ===== verification/Numbers.thy ===== *)
theory Numbers
  imports Prelude
begin

text \<open>
  The conversions of the C++ standard library that the program calls on text
  (\<^verbatim>\<open>std::stoi\<close>, \<^verbatim>\<open>std::stoll\<close>, \<^verbatim>\<open>std::stoul\<close>, \<^verbatim>\<open>std::stod\<close>,
  \<^verbatim>\<open>std::stof\<close>, used by \<^verbatim>\<open>parse_value\<close>, the optimizer and \<^verbatim>\<open>createTable\<close>) and the
  comparison of binary64 and binary32 numbers, kept as their bit patterns.

  The conversions are those of libstdc++ on an LP64 system in the C locale: they skip leading white
  space, accept a sign, take the longest numeral and ignore what follows it; no numeral is
  \<^verbatim>\<open>std::invalid_argument\<close>, a value outside the type's range is \<^verbatim>\<open>std::out_of_range\<close>.
  Decimal and hexadecimal floating-point numerals are rounded to nearest, ties to even. The payload
  of a \<^verbatim>\<open>nan(...)\<close> numeral is not kept.
\<close>

section \<open>Integers\<close>

definition is_space :: "char \<Rightarrow> bool" where
  "is_space c \<longleftrightarrow> c \<in> {CHR '' '', CHR 0x09, CHR 0x0A, CHR 0x0B, CHR 0x0C, CHR 0x0D}"

definition digit_value :: "char \<Rightarrow> nat" where
  "digit_value c = (let n = of_char c in
     if 48 \<le> n \<and> n \<le> 57 then n - 48
     else if 65 \<le> n \<and> n \<le> 70 then n - 55
     else if 97 \<le> n \<and> n \<le> 102 then n - 87
     else 99)"

definition is_digit :: "nat \<Rightarrow> char \<Rightarrow> bool" where
  "is_digit base c \<longleftrightarrow> digit_value c < base"

fun digits_value :: "nat \<Rightarrow> nat \<Rightarrow> string \<Rightarrow> nat" where
  "digits_value base acc [] = acc"
| "digits_value base acc (c # cs) = digits_value base (base * acc + digit_value c) cs"

fun read_sign :: "string \<Rightarrow> bool \<times> string" where
  "read_sign [] = (False, [])"
| "read_sign (c # cs) =
     (if c = CHR ''-'' then (True, cs) else if c = CHR ''+'' then (False, cs) else (False, c # cs))"

text \<open>Sign and magnitude of the numeral at the front of a string, if there is one.\<close>

definition strto :: "string \<Rightarrow> (bool \<times> nat) option" where
  "strto s = (let (neg, r) = read_sign (dropWhile is_space (c_str s));
                  ds = takeWhile (is_digit 10) r
              in if ds = [] then None else Some (neg, digits_value 10 0 ds))"

definition signed_value :: "bool \<times> nat \<Rightarrow> int" where
  "signed_value nv = (if fst nv then - int (snd nv) else int (snd nv))"

definition stoi :: "string \<Rightarrow> exn + 32 word" where
  "stoi s = (case strto s of
       None \<Rightarrow> Inl (InvalidArgument ''stoi'')
     | Some nv \<Rightarrow> if signed_value nv < - (2 ^ 31) \<or> 2 ^ 31 \<le> signed_value nv
                  then Inl (StdOutOfRange ''stoi'') else Inr (word_of_int (signed_value nv)))"

definition stoll :: "string \<Rightarrow> exn + 64 word" where
  "stoll s = (case strto s of
       None \<Rightarrow> Inl (InvalidArgument ''stoll'')
     | Some nv \<Rightarrow> if signed_value nv < - (2 ^ 63) \<or> 2 ^ 63 \<le> signed_value nv
                  then Inl (StdOutOfRange ''stoll'') else Inr (word_of_int (signed_value nv)))"

text \<open>\<^verbatim>\<open>strtoul\<close> accepts a minus sign and negates modulo \<open>2 ^ 64\<close>.\<close>

definition stoul :: "string \<Rightarrow> exn + nat" where
  "stoul s = (case strto s of
       None \<Rightarrow> Inl (InvalidArgument ''stoul'')
     | Some (neg, n) \<Rightarrow> if SIZE_MOD \<le> n then Inl (StdOutOfRange ''stoul'')
                         else Inr (if neg then size_sub 0 n else n))"

section \<open>Floating-point numerals\<close>

definition round_half_even :: "nat \<Rightarrow> nat \<Rightarrow> nat" where
  "round_half_even n d = (let q = n div d; r = n mod d in
     if 2 * r < d then q else if d < 2 * r then Suc q else if even q then q else Suc q)"

fun bit_length :: "nat \<Rightarrow> nat" where
  "bit_length n = (if n = 0 then 0 else Suc (bit_length (n div 2)))"

declare bit_length.simps [simp del]

text \<open>\<open>scale n d e\<close> is the fraction \<open>(n / d) / 2 ^ e\<close> as numerator and denominator.\<close>

definition scale :: "nat \<Rightarrow> nat \<Rightarrow> int \<Rightarrow> nat \<times> nat" where
  "scale n d e = (if 0 \<le> e then (n, d * 2 ^ nat e) else (n * 2 ^ nat (- e), d))"

definition floor_log2 :: "nat \<Rightarrow> nat \<Rightarrow> int" where
  "floor_log2 n d = (let k = int (bit_length n) - int (bit_length d); (a, b) = scale n d k in
     if b \<le> a then k else k - 1)"

text \<open>
  A format with \<open>p\<close> significant bits, least exponent \<open>emin\<close> (of the last bit) and the pattern
  \<open>infty\<close> of infinity. The result is the bit pattern of \<open>n / d > 0\<close>, or \<open>None\<close> for
  \<^verbatim>\<open>ERANGE\<close>: a value that rounds to infinity, or an inexact one that rounds below the least
  normal number.
\<close>

definition fp_round :: "nat \<Rightarrow> int \<Rightarrow> nat \<Rightarrow> nat \<Rightarrow> nat \<Rightarrow> nat option" where
  "fp_round p emin infty n d =
     (let e = max emin (floor_log2 n d - (int p - 1));
          (a, b) = scale n d e;
          q = round_half_even a b;
          bits = nat (e - emin) * 2 ^ (p - 1) + q
      in if infty \<le> bits then None
         else if bits < 2 ^ (p - 1) \<and> a mod b \<noteq> 0 then None else Some bits)"

definition lower :: "string \<Rightarrow> string" where
  "lower s = map (\<lambda>c. let n = of_char c :: nat in if 65 \<le> n \<and> n \<le> 90 then char_of (n + 32) else c) s"

definition starts_with :: "string \<Rightarrow> string \<Rightarrow> bool" where
  "starts_with p s \<longleftrightarrow> take (length p) s = p"

definition read_exponent :: "char \<Rightarrow> string \<Rightarrow> int" where
  "read_exponent marker s = (case lower s of
       c # r \<Rightarrow> (if c = marker then
                  (let (neg, r') = read_sign r; ds = takeWhile (is_digit 10) r'
                   in if ds = [] then 0 else signed_value (neg, digits_value 10 0 ds))
                else 0)
     | [] \<Rightarrow> 0)"

text \<open>
  A numeral in base 10 or 16: the digits before and after the point as one number, the count of
  digits after the point, and the exponent; \<open>None\<close> where there is no digit.
\<close>

definition read_mantissa :: "nat \<Rightarrow> char \<Rightarrow> string \<Rightarrow> (nat \<times> nat \<times> int) option" where
  "read_mantissa base marker s =
     (let ip = takeWhile (is_digit base) s; r = dropWhile (is_digit base) s;
          (fp, r') = (case r of c # r1 \<Rightarrow> if c = CHR ''.'' then (takeWhile (is_digit base) r1, dropWhile (is_digit base) r1)
                                         else ([], r)
                                | [] \<Rightarrow> ([], r))
      in if ip @ fp = [] then None
         else Some (digits_value base 0 (ip @ fp), length fp, read_exponent marker r'))"

definition fraction :: "nat \<Rightarrow> nat \<Rightarrow> nat \<times> nat \<times> int \<Rightarrow> nat \<times> nat" where
  "fraction base ebase m = (case m of (n, k, x) \<Rightarrow>
     if 0 \<le> x then (n * ebase ^ nat x, base ^ k) else (n, base ^ k * ebase ^ nat (- x)))"

text \<open>Numerator and denominator of the numeral at the front of a string without sign.\<close>

definition read_fraction :: "string \<Rightarrow> (nat \<times> nat) option" where
  "read_fraction s =
     (case (if starts_with ''0x'' (lower s) then read_mantissa 16 (CHR ''p'') (drop 2 s) else None) of
        Some m \<Rightarrow> Some (fraction 16 2 m)
      | None \<Rightarrow> map_option (fraction 10 10) (read_mantissa 10 (CHR ''e'') s))"

definition strtofp :: "string \<Rightarrow> nat \<Rightarrow> int \<Rightarrow> nat \<Rightarrow> nat \<Rightarrow> string \<Rightarrow> exn + nat" where
  "strtofp fn p emin infty sign s =
     (let (neg, r) = read_sign (dropWhile is_space (c_str s));
          signed = (\<lambda>bits. if neg then sign + bits else bits)
      in if starts_with ''inf'' (lower r) then Inr (signed infty)
         else if starts_with ''nan'' (lower r) then Inr (signed (infty + 2 ^ (p - 2)))
         else case read_fraction r of
             None \<Rightarrow> Inl (InvalidArgument fn)
           | Some (n, d) \<Rightarrow> if n = 0 then Inr (signed 0) else
               (case fp_round p emin infty n d of
                  None \<Rightarrow> Inl (StdOutOfRange fn) | Some bits \<Rightarrow> Inr (signed bits)))"

abbreviation DBL_INF :: nat where "DBL_INF \<equiv> 2047 * 2 ^ 52"
abbreviation FLT_INF :: nat where "FLT_INF \<equiv> 255 * 2 ^ 23"

definition stod :: "string \<Rightarrow> exn + 64 word" where
  "stod s = bindE (strtofp ''stod'' 53 (- 1074) DBL_INF (2 ^ 63) s) (\<lambda>b. Inr (of_nat b))"

definition stof :: "string \<Rightarrow> exn + 32 word" where
  "stof s = bindE (strtofp ''stof'' 24 (- 149) FLT_INF (2 ^ 31) s) (\<lambda>b. Inr (of_nat b))"

section \<open>Comparison of floating-point numbers\<close>

text \<open>
  A bit pattern without its sign bit is ordered like the magnitude it stands for; beyond the pattern
  of infinity it is not a number. Both zeros have key 0.
\<close>

definition dbl_nan :: "64 word \<Rightarrow> bool" where
  "dbl_nan b \<longleftrightarrow> DBL_INF < unat b mod 2 ^ 63"

definition dbl_key :: "64 word \<Rightarrow> int" where
  "dbl_key b = (if unat b < 2 ^ 63 then int (unat b) else - int (unat b mod 2 ^ 63))"

definition flt_nan :: "32 word \<Rightarrow> bool" where
  "flt_nan b \<longleftrightarrow> FLT_INF < unat b mod 2 ^ 31"

definition flt_key :: "32 word \<Rightarrow> int" where
  "flt_key b = (if unat b < 2 ^ 31 then int (unat b) else - int (unat b mod 2 ^ 31))"

section \<open>Printing of unsigned numbers\<close>

text \<open>\<^verbatim>\<open>std::to_string\<close> and \<^verbatim>\<open>operator<<\<close> on a \<^verbatim>\<open>size_t\<close>.\<close>

fun to_string :: "nat \<Rightarrow> string" where
  "to_string n = (if n < 10 then [char_of (48 + n)] else to_string (n div 10) @ [char_of (48 + n mod 10)])"

declare to_string.simps [simp del]

lemma digit_value_char_of: "n < 10 \<Longrightarrow> digit_value (char_of (48 + n)) = n"
  by (simp add: digit_value_def Let_def)

lemma is_digit_char_of [simp]: "n < (10 :: nat) \<Longrightarrow> is_digit 10 (char_of (48 + n))"
  by (simp add: is_digit_def digit_value_char_of)

lemma digits_value_snoc:
  "digits_value base acc (xs @ [c]) = base * digits_value base acc xs + digit_value c"
  by (induction xs arbitrary: acc) simp_all

lemma digits_value_to_string [simp]: "digits_value 10 0 (to_string n) = n"
proof (induction n rule: to_string.induct)
  case (1 n)
  show ?case
    by (cases "n < 10") (simp_all add: to_string.simps [of n] 1 digits_value_snoc digit_value_char_of)
qed

lemma to_string_digits: "c \<in> set (to_string n) \<Longrightarrow> is_digit 10 c"
proof (induction n rule: to_string.induct)
  case (1 n)
  then show ?case by (cases "n < 10") (auto simp: to_string.simps [of n])
qed

lemma to_string_nonempty [simp]: "to_string n \<noteq> []"
  by (subst to_string.simps) simp

lemma space_not_digit: "is_space c \<Longrightarrow> \<not> is_digit 10 c"
  by (auto simp: is_space_def is_digit_def digit_value_def)

lemma stoul_bound: "stoul s = Inr n \<Longrightarrow> n < SIZE_MOD"
  by (auto simp: stoul_def size_sub_def split: option.splits if_splits)

lemma digits_value_append:
  "digits_value base acc (xs @ ys) = digits_value base (digits_value base acc xs) ys"
  by (induction xs arbitrary: acc) simp_all

lemma digit_plain: "is_digit 10 c \<Longrightarrow> c \<noteq> NUL \<and> c \<noteq> CHR ''-'' \<and> c \<noteq> CHR ''+'' \<and> \<not> is_space c"
  using space_not_digit by (auto simp: is_digit_def digit_value_def)

text \<open>A printed number is read back.\<close>

lemma strto_to_string: "strto (to_string n) = Some (False, n)"
proof -
  obtain c cs where s: "to_string n = c # cs" by (cases "to_string n") simp_all
  have d: "is_digit 10 x" if "x \<in> set (c # cs)" for x using that to_string_digits [of x n] s by simp
  have "NUL \<notin> set (c # cs)" using d digit_plain by blast
  then have "c_str (c # cs) = c # cs" by (rule c_str_no_NUL)
  moreover have "dropWhile is_space (c # cs) = c # cs" using digit_plain [OF d] by simp
  moreover have "read_sign (c # cs) = (False, c # cs)" using digit_plain [OF d] by simp
  moreover have "takeWhile (is_digit 10) (c # cs) = c # cs" using d by (simp add: takeWhile_eq_all_conv)
  ultimately show ?thesis using s digits_value_to_string [of n] by (simp add: strto_def)
qed

lemma stoul_to_string: "n < SIZE_MOD \<Longrightarrow> stoul (to_string n) = Inr n"
  by (simp add: stoul_def strto_to_string)

end
