(* ===== verification/Streams.thy ===== *)
theory Streams
  imports Numbers
begin

text \<open>
  The formatted input streams the parsers read from (\<^verbatim>\<open>std::istringstream\<close>,
  \<^verbatim>\<open>std::stringstream\<close>, \<^verbatim>\<open>std::ifstream\<close>): the characters not yet extracted and whether
  the stream is still good. An extraction on a stream that is not good, or that holds white space
  only, fails and leaves its target as it was: the parsers depend on that, because they go on to
  compare a buffer that a failed extraction did not change.

  A \<^verbatim>\<open>std::string\<close> that has been moved from is empty, as in the implementations of the
  standard library the program builds with.
\<close>

section \<open>Extraction\<close>

record istr =
  remaining :: string
  stream_good :: bool

definition istr_of :: "string \<Rightarrow> istr" where
  "istr_of s = \<lparr>remaining = s, stream_good = True\<rparr>"

text \<open>\<^verbatim>\<open>str >> buf\<close> for a string: success, the new value of the target, the stream.\<close>

definition read_str :: "istr \<Rightarrow> string \<Rightarrow> bool \<times> string \<times> istr" where
  "read_str s buf =
     (if \<not> stream_good s then (False, buf, s)
      else let r = dropWhile is_space (remaining s) in
        if r = [] then (False, buf, \<lparr>remaining = [], stream_good = False\<rparr>)
        else (True, takeWhile (\<lambda>c. \<not> is_space c) r,
              istr_of (dropWhile (\<lambda>c. \<not> is_space c) r)))"

text \<open>
  \<^verbatim>\<open>str >> n\<close> for a \<^verbatim>\<open>size_t\<close>: digits after an optional sign. Without a digit the target
  becomes 0, beyond the range it becomes the greatest value; the stream fails in both cases.
\<close>

definition read_size :: "istr \<Rightarrow> nat \<Rightarrow> nat \<times> istr" where
  "read_size s n =
     (if \<not> stream_good s then (n, s)
      else let r = dropWhile is_space (remaining s) in
        if r = [] then (n, \<lparr>remaining = [], stream_good = False\<rparr>)
        else let (neg, r') = read_sign r;
                 ds = takeWhile (is_digit 10) r';
                 r'' = dropWhile (is_digit 10) r';
                 v = digits_value 10 0 ds
             in if ds = [] then (0, \<lparr>remaining = r'', stream_good = False\<rparr>)
                else if SIZE_MOD \<le> v then (SIZE_MAX, \<lparr>remaining = r'', stream_good = False\<rparr>)
                else (if neg then size_sub 0 v else v, istr_of r''))"

section \<open>Words\<close>

text \<open>A word: what one extraction of a string can deliver.\<close>

definition word_tok :: "string \<Rightarrow> bool" where
  "word_tok t \<longleftrightarrow> t \<noteq> [] \<and> (\<forall>c\<in>set t. \<not> is_space c)"

text \<open>Words with one blank before each of them.\<close>

definition blanks :: "string list \<Rightarrow> string" where
  "blanks ts = concat (map (\<lambda>t. CHR '' '' # t) ts)"

lemma blanks_simps [simp]: "blanks [] = []" "blanks (t # ts) = CHR '' '' # t @ blanks ts"
  by (simp_all add: blanks_def)

lemma blanks_append: "blanks (xs @ ys) = blanks xs @ blanks ys"
  by (simp add: blanks_def)

lemma is_space_blank [simp]: "is_space (CHR '' '')"
  by (simp add: is_space_def)

text \<open>What a word is followed by: nothing, or white space.\<close>

definition ends_word :: "string \<Rightarrow> bool" where
  "ends_word r \<longleftrightarrow> r = [] \<or> is_space (hd r)"

lemma ends_word_blanks [simp]: "ends_word (blanks ts)"
  by (cases ts) (simp_all add: ends_word_def)

lemma While_ends_word:
  assumes "ends_word r"
  shows "takeWhile (\<lambda>c. \<not> is_space c) r = []" "dropWhile (\<lambda>c. \<not> is_space c) r = r"
    "takeWhile (is_digit 10) r = []" "dropWhile (is_digit 10) r = r"
  using assms space_not_digit by (cases r; simp add: ends_word_def)+

lemma takeWhile_word: "word_tok t \<Longrightarrow> ends_word r \<Longrightarrow> takeWhile (\<lambda>c. \<not> is_space c) (t @ r) = t"
  using While_ends_word [of r] by (simp add: word_tok_def)

lemma dropWhile_word: "word_tok t \<Longrightarrow> ends_word r \<Longrightarrow> dropWhile (\<lambda>c. \<not> is_space c) (t @ r) = r"
  using While_ends_word [of r] by (simp add: word_tok_def)

lemma dropWhile_space_word: "word_tok t \<Longrightarrow> dropWhile is_space (t @ r) = t @ r"
  by (cases t) (simp_all add: word_tok_def)

lemma read_str_first [stream_simps]:
  "word_tok t \<Longrightarrow> ends_word r \<Longrightarrow> read_str (istr_of (t @ r)) buf = (True, t, istr_of r)"
  by (simp add: read_str_def istr_of_def Let_def dropWhile_space_word takeWhile_word dropWhile_word)
    (simp add: word_tok_def)

lemma read_str_next [stream_simps]:
  "is_space c \<Longrightarrow> word_tok t \<Longrightarrow> ends_word r \<Longrightarrow>
   read_str (istr_of (c # t @ r)) buf = (True, t, istr_of r)"
  using read_str_first [of t r buf] by (simp add: read_str_def istr_of_def Let_def)

lemma read_str_word [stream_simps]:
  "word_tok t \<Longrightarrow> read_str (istr_of (t @ blanks ts)) buf = (True, t, istr_of (blanks ts))"
  by (simp add: read_str_first)

lemma read_str_blanks [stream_simps]:
  "word_tok t \<Longrightarrow> read_str (istr_of (blanks (t # ts))) buf = (True, t, istr_of (blanks ts))"
  by (simp add: read_str_next)

lemma read_str_end [stream_simps]:
  "read_str (istr_of []) buf = (False, buf, \<lparr>remaining = [], stream_good = False\<rparr>)"
  by (simp add: read_str_def istr_of_def)

lemma read_str_bad [stream_simps]: "\<not> stream_good s \<Longrightarrow> read_str s buf = (False, buf, s)"
  by (simp add: read_str_def)

lemma read_size_bad [stream_simps]: "\<not> stream_good s \<Longrightarrow> read_size s n = (n, s)"
  by (simp add: read_size_def)

lemma word_tok_to_string [simp]: "word_tok (to_string n)"
  using space_not_digit to_string_digits by (auto simp: word_tok_def)

lemma read_sign_digits: "ds \<noteq> [] \<Longrightarrow> \<forall>c\<in>set ds. is_digit 10 c \<Longrightarrow> read_sign (ds @ r) = (False, ds @ r)"
  by (cases ds) (auto simp: is_digit_def digit_value_def)

text \<open>A printed number is read back, and the stream is left right after it.\<close>

lemma read_size_first [stream_simps]:
  assumes "n < SIZE_MOD" and "ends_word r"
  shows "read_size (istr_of (to_string n @ r)) m = (n, istr_of r)"
proof -
  have d: "\<forall>c\<in>set (to_string n). is_digit 10 c"
    using to_string_digits by blast
  have "takeWhile (is_digit 10) (to_string n @ r) = to_string n" "dropWhile (is_digit 10) (to_string n @ r) = r"
    using d While_ends_word [OF assms(2)] by simp_all
  then show ?thesis
    using assms(1) unfolding read_size_def
    by (simp add: istr_of_def Let_def dropWhile_space_word read_sign_digits d not_le)
qed

lemma read_size_next [stream_simps]:
  "is_space c \<Longrightarrow> n < SIZE_MOD \<Longrightarrow> ends_word r \<Longrightarrow>
   read_size (istr_of (c # to_string n @ r)) m = (n, istr_of r)"
  using read_size_first [of n r m] by (simp add: read_size_def istr_of_def Let_def)

lemma read_size_blanks [stream_simps]:
  "n < SIZE_MOD \<Longrightarrow> read_size (istr_of (blanks (to_string n # ts))) m = (n, istr_of (blanks ts))"
  by (simp add: read_size_next)

text \<open>An extraction that succeeds shortens the stream: the loops of the parsers end.\<close>

lemma read_str_shorter:
  assumes "read_str s buf = (True, t, s')"
  shows "length (remaining s') < length (remaining s)"
proof -
  define r where "r = dropWhile is_space (remaining s)"
  from assms have g: "r \<noteq> []" and s': "remaining s' = dropWhile (\<lambda>c. \<not> is_space c) r"
    by (auto simp: read_str_def r_def Let_def istr_of_def split: if_splits)
  have "\<not> is_space (hd r)"
    using g unfolding r_def by (rule hd_dropWhile)
  with g have "length (dropWhile (\<lambda>c. \<not> is_space c) r) < length r"
    by (cases r) (simp_all add: le_imp_less_Suc length_dropWhile_le)
  moreover have "length r \<le> length (remaining s)"
    unfolding r_def by (rule length_dropWhile_le)
  ultimately show ?thesis using s' by simp
qed

lemma read_str_not_longer:
  assumes "read_str s buf = (ok, t, s')"
  shows "length (remaining s') \<le> length (remaining s)"
  using assms read_str_shorter [of s buf t s']
  by (cases ok) (auto simp: read_str_def Let_def split: if_splits)

text \<open>The same for a loop body with two or three extractions, in the form termination goals have.\<close>

lemma read_str_decreases:
  assumes "(True, t1, s1) = read_str s b1"
  shows "length (remaining s1) < length (remaining s)"
    and "(ok2, t2, s2) = read_str s1 b2 \<Longrightarrow> length (remaining s2) < length (remaining s)"
    and "(ok2, t2, s2) = read_str s1 b2 \<Longrightarrow> (ok3, t3, s3) = read_str s2 b3 \<Longrightarrow>
         length (remaining s3) < length (remaining s)"
  using read_str_shorter [OF assms [symmetric]]
    read_str_not_longer [of s1 b2 ok2 t2 s2] read_str_not_longer [of s2 b3 ok3 t3 s3]
  by force+

lemma read_str_fails:
  assumes "read_str s buf = (False, t, s')"
  shows "t = buf \<and> \<not> stream_good s'"
  using assms by (auto simp: read_str_def Let_def split: if_splits)

lemma read_str_word_tok:
  assumes "read_str s buf = (True, t, s')"
  shows "word_tok t"
proof -
  define r where "r = dropWhile is_space (remaining s)"
  from assms have g: "r \<noteq> []" and t: "t = takeWhile (\<lambda>c. \<not> is_space c) r"
    by (auto simp: read_str_def r_def Let_def split: if_splits)
  have "\<not> is_space (hd r)"
    using g unfolding r_def by (rule hd_dropWhile)
  with g t have "t \<noteq> []" by (cases r) simp_all
  then show ?thesis using t by (auto simp: word_tok_def dest: set_takeWhileD)
qed

end
