(* ===== verification/Variants.thy ===== *)
theory Variants
  imports Numbers
begin

text \<open>
  \<^verbatim>\<open>src/src/supported_variants.h\<close> and \<^verbatim>\<open>src/src/parser/Conditions.h\<close>: the column types,
  the value variant, its parsing from text, its comparison operators and the conditions of a
  \<^verbatim>\<open>WHERE\<close> clause. 32- and 64-bit integers are words read as two's complement
  (\<^const>\<open>sint\<close>), floating-point numbers are their bit patterns.

  The object representations of the numeric alternatives are instances of the locale
  \<open>codec\<close>, the contract the storage relies on.
\<close>

section \<open>Types and values\<close>

datatype Type = VOIDA | INT32 | INT64 | DOUBLE | FLOAT | BOOL | TEXT | STRING

datatype variant_types =
    VInt32 "32 word"
  | VInt64 "64 word"
  | VDouble "64 word"
  | VFloat "32 word"
  | VBool bool
  | VString string

text \<open>The index of the alternative, in the order of the \<^verbatim>\<open>std::variant\<close> declaration.\<close>

fun variant_index :: "variant_types \<Rightarrow> nat" where
  "variant_index (VInt32 _) = 0"
| "variant_index (VInt64 _) = 1"
| "variant_index (VDouble _) = 2"
| "variant_index (VFloat _) = 3"
| "variant_index (VBool _) = 4"
| "variant_index (VString _) = 5"

fun type_sizes :: "Type \<Rightarrow> nat" where
  "type_sizes VOIDA = 0"
| "type_sizes INT32 = 4"
| "type_sizes INT64 = 8"
| "type_sizes DOUBLE = 8"
| "type_sizes FLOAT = 4"
| "type_sizes BOOL = 1"
| "type_sizes TEXT = 128"
| "type_sizes STRING = 0"

fun parse_value :: "string \<Rightarrow> Type \<Rightarrow> exn + variant_types" where
  "parse_value str INT32 = bindE (stoi str) (\<lambda>v. Inr (VInt32 v))"
| "parse_value str INT64 = bindE (stoll str) (\<lambda>v. Inr (VInt64 v))"
| "parse_value str DOUBLE = bindE (stod str) (\<lambda>v. Inr (VDouble v))"
| "parse_value str FLOAT = bindE (stof str) (\<lambda>v. Inr (VFloat v))"
| "parse_value str BOOL =
     (if str = ''true'' \<or> str = ''1'' then Inr (VBool True)
      else if str = ''false'' \<or> str = ''0'' then Inr (VBool False)
      else Inl (IncorrectInputException (''Invalid boolean value: '' @ str)))"
| "parse_value str STRING = Inr (VString str)"
| "parse_value str TEXT = Inr (VString str)"
| "parse_value str VOIDA = Inl (IncorrectInputException ''Unsupported type'')"

definition stringToType :: "string \<rightharpoonup> Type" where
  "stringToType = map_of
     [(''VOID'', VOIDA), (''INT32'', INT32), (''INT64'', INT64), (''DOUBLE'', DOUBLE),
      (''FLOAT'', FLOAT), (''BOOL'', BOOL), (''TEXT'', TEXT), (''STRING'', STRING)]"

fun typeToString :: "Type \<Rightarrow> string" where
  "typeToString VOIDA = ''VOID''"
| "typeToString INT32 = ''INT32''"
| "typeToString INT64 = ''INT64''"
| "typeToString DOUBLE = ''DOUBLE''"
| "typeToString FLOAT = ''FLOAT''"
| "typeToString BOOL = ''BOOL''"
| "typeToString TEXT = ''TEXT''"
| "typeToString STRING = ''STRING''"

section \<open>Comparison\<close>

text \<open>
  \<^verbatim>\<open>std::string\<close> compares lexicographically by unsigned bytes.
\<close>

fun str_less :: "string \<Rightarrow> string \<Rightarrow> bool" where
  "str_less xs [] = False"
| "str_less [] (y # ys) = True"
| "str_less (x # xs) (y # ys) =
     ((of_char x :: nat) < of_char y \<or> x = y \<and> str_less xs ys)"

text \<open>
  The operators of \<^verbatim>\<open>std::variant\<close>: equality needs the same alternative; the order compares
  the alternative's index first. NaN is unequal to everything and neither less nor greater.
\<close>

fun variant_eq :: "variant_types \<Rightarrow> variant_types \<Rightarrow> bool" where
  "variant_eq (VInt32 a) (VInt32 b) = (a = b)"
| "variant_eq (VInt64 a) (VInt64 b) = (a = b)"
| "variant_eq (VDouble a) (VDouble b) = (\<not> dbl_nan a \<and> \<not> dbl_nan b \<and> dbl_key a = dbl_key b)"
| "variant_eq (VFloat a) (VFloat b) = (\<not> flt_nan a \<and> \<not> flt_nan b \<and> flt_key a = flt_key b)"
| "variant_eq (VBool a) (VBool b) = (a = b)"
| "variant_eq (VString a) (VString b) = (a = b)"
| "variant_eq _ _ = False"

fun variant_less :: "variant_types \<Rightarrow> variant_types \<Rightarrow> bool" where
  "variant_less (VInt32 a) (VInt32 b) = (sint a < sint b)"
| "variant_less (VInt64 a) (VInt64 b) = (sint a < sint b)"
| "variant_less (VDouble a) (VDouble b) = (\<not> dbl_nan a \<and> \<not> dbl_nan b \<and> dbl_key a < dbl_key b)"
| "variant_less (VFloat a) (VFloat b) = (\<not> flt_nan a \<and> \<not> flt_nan b \<and> flt_key a < flt_key b)"
| "variant_less (VBool a) (VBool b) = (\<not> a \<and> b)"
| "variant_less (VString a) (VString b) = str_less a b"
| "variant_less a b = (variant_index a < variant_index b)"

section \<open>Conditions\<close>

datatype ConditionType =
    EQUAL | NOT_EQUAL | GREATER | LESS | COND_AND | COND_OR | LOGICAL_AND | LOGICAL_OR
  | DIRECT_INDEX | TO_INDEX | FROM_INDEX

definition compareStringsUntilNull :: "string \<Rightarrow> string \<Rightarrow> bool" where
  "compareStringsUntilNull a b \<longleftrightarrow> c_str a = c_str b"

definition condition_map :: "string \<rightharpoonup> ConditionType" where
  "condition_map = map_of
     [(''=='', EQUAL), (''!='', NOT_EQUAL), (''>'', GREATER), (''<'', LESS),
      (''AND'', COND_AND), (''OR'', COND_OR)]"

fun get_bool :: "variant_types \<Rightarrow> exn + bool" where
  "get_bool (VBool b) = Inr b"
| "get_bool _ = Inl BadVariantAccess"

fun get_int64 :: "variant_types \<Rightarrow> exn + 64 word" where
  "get_int64 (VInt64 b) = Inr b"
| "get_int64 _ = Inl BadVariantAccess"

text \<open>
  The array \<^verbatim>\<open>functions\<close> has six entries; a condition type beyond \<^verbatim>\<open>OR\<close> indexes past its
  end. \<^verbatim>\<open>and\<close> and \<^verbatim>\<open>or\<close> evaluate their second operand only when they need it.
\<close>

fun cond_functions :: "ConditionType \<Rightarrow> variant_types \<Rightarrow> variant_types \<Rightarrow> exn + bool" where
  "cond_functions EQUAL a b = Inr (variant_eq a b)"
| "cond_functions NOT_EQUAL a b = Inr (\<not> variant_eq a b)"
| "cond_functions GREATER a b = Inr (variant_less b a)"
| "cond_functions LESS a b = Inr (variant_less a b)"
| "cond_functions COND_AND a b = bindE (get_bool a) (\<lambda>x. if x then get_bool b else Inr False)"
| "cond_functions COND_OR a b = bindE (get_bool a) (\<lambda>x. if x then Inr True else get_bool b)"
| "cond_functions _ a b = Inl (Undefined ''functions: index out of range'')"

record Condition =
  cond_type :: ConditionType
  collumn_id :: nat
  desired :: variant_types

definition condition_result :: "Condition \<Rightarrow> variant_types \<Rightarrow> exn + bool" where
  "condition_result c value = cond_functions (cond_type c) value (desired c)"

section \<open>Object representations\<close>

definition enc_int32 :: "32 word \<Rightarrow> char list" where
  "enc_int32 w = le_bytes 4 (unat w)"

definition dec_int32 :: "char list \<Rightarrow> exn + 32 word" where
  "dec_int32 bs = Inr (of_nat (le_nat bs))"

definition enc_int64 :: "64 word \<Rightarrow> char list" where
  "enc_int64 w = le_bytes 8 (unat w)"

definition dec_int64 :: "char list \<Rightarrow> exn + 64 word" where
  "dec_int64 bs = Inr (of_nat (le_nat bs))"

text \<open>A byte other than 0 and 1 is no value of type \<^verbatim>\<open>bool\<close>.\<close>

definition enc_bool :: "bool \<Rightarrow> char list" where
  "enc_bool b = le_bytes 1 (if b then 1 else 0)"

definition dec_bool :: "char list \<Rightarrow> exn + bool" where
  "dec_bool bs = (if le_nat bs = 0 then Inr False else if le_nat bs = 1 then Inr True
                  else Inl (Undefined ''bool object representation''))"

text \<open>The contract of an object representation of fixed width.\<close>

locale codec =
  fixes enc :: "'v \<Rightarrow> char list" and dec :: "char list \<Rightarrow> exn + 'v" and width :: nat
  assumes width: "length (enc v) = width"
    and dec_enc: "dec (enc v) = Inr v"
begin

lemma enc_inj: "enc u = enc v \<Longrightarrow> u = v"
  by (metis dec_enc sum.inject(2))

text \<open>A value stored in a buffer is read back whatever is stored beside it.\<close>

lemma dec_get_put:
  "p + width \<le> length xs \<Longrightarrow> dec (get_bytes p width (put_bytes p (enc v) xs)) = Inr v"
  by (simp add: get_put_bytes_same width dec_enc)

lemma dec_get_put_other:
  "p + width \<le> length xs \<Longrightarrow> q + n \<le> length xs \<Longrightarrow> q + n \<le> p \<or> p + width \<le> q \<Longrightarrow>
   get_bytes q n (put_bytes p (enc v) xs) = get_bytes q n xs"
  by (simp add: get_put_bytes_disjoint width)

end

lemma of_nat_le_bytes_unat:
  fixes w :: "'a::len word"
  assumes "2 ^ LENGTH('a) = (256 :: nat) ^ k"
  shows "of_nat (le_nat (le_bytes k (unat w))) = w"
proof -
  have "unat w < 2 ^ LENGTH('a)" by (rule unsigned_less)
  then have "unat w < 256 ^ k"
    using assms by simp
  then show ?thesis by (simp add: le_nat_le_bytes)
qed

interpretation int32: codec enc_int32 dec_int32 4
  by unfold_locales (simp_all add: enc_int32_def dec_int32_def of_nat_le_bytes_unat)

interpretation int64: codec enc_int64 dec_int64 8
  by unfold_locales (simp_all add: enc_int64_def dec_int64_def of_nat_le_bytes_unat)

interpretation bool1: codec enc_bool dec_bool 1
  by unfold_locales (simp_all add: enc_bool_def dec_bool_def le_nat_le_bytes)

lemma enc_bool_bytes: "enc_bool False = [NUL]" "enc_bool True = [CHR 0x01]"
  by (simp_all add: enc_bool_def char_of_def bit_Suc_0_iff)

section \<open>Facts about types and values\<close>

text \<open>The value has the alternative that a column of the type holds.\<close>

fun has_type :: "variant_types \<Rightarrow> Type \<Rightarrow> bool" where
  "has_type (VInt32 _) INT32 = True"
| "has_type (VInt64 _) INT64 = True"
| "has_type (VDouble _) DOUBLE = True"
| "has_type (VFloat _) FLOAT = True"
| "has_type (VBool _) BOOL = True"
| "has_type (VString _) TEXT = True"
| "has_type (VString _) STRING = True"
| "has_type _ _ = False"

lemma parse_value_has_type: "parse_value s t = Inr v \<Longrightarrow> has_type v t"
  by (cases t) (auto simp: bindE_eq_Inr split: if_splits)

lemma stringToType_typeToString [simp]: "stringToType (typeToString t) = Some t"
  by (cases t) (simp_all add: stringToType_def)

lemma str_less_irrefl [simp]: "\<not> str_less s s"
  by (induction s) simp_all

lemma str_less_trans: "str_less a b \<Longrightarrow> str_less b c \<Longrightarrow> str_less a c"
proof (induction a b arbitrary: c rule: str_less.induct)
  case (2 y ys)
  then show ?case by (cases c) simp_all
next
  case (3 x xs y ys)
  then show ?case by (cases c) auto
qed simp

lemma str_less_linear: "str_less a b \<or> a = b \<or> str_less b a"
proof (induction a b rule: str_less.induct)
  case (1 xs)
  then show ?case by (cases xs) simp_all
next
  case (3 x xs y ys)
  then show ?case by (metis linorder_neqE_nat of_char_eq_iff str_less.simps(3))
qed simp

text \<open>Not a NaN: the values on which the variant's operators form a linear preorder.\<close>

fun comparable :: "variant_types \<Rightarrow> bool" where
  "comparable (VDouble a) = (\<not> dbl_nan a)"
| "comparable (VFloat a) = (\<not> flt_nan a)"
| "comparable _ = True"

lemma variant_eq_refl: "comparable a \<Longrightarrow> variant_eq a a"
  by (cases a) simp_all

lemma variant_less_irrefl: "\<not> variant_less a a"
  by (cases a) simp_all

lemma variant_eq_sym: "variant_eq a b \<Longrightarrow> variant_eq b a"
  by (cases a; cases b) simp_all

lemma variant_eq_trans: "variant_eq a b \<Longrightarrow> variant_eq b c \<Longrightarrow> variant_eq a c"
  by (cases a; cases b; cases c) simp_all

lemma variant_less_trans: "variant_less a b \<Longrightarrow> variant_less b c \<Longrightarrow> variant_less a c"
  by (cases a; cases b; cases c) (auto intro: str_less_trans)

lemma variant_less_eq_trans:
  "variant_less a b \<Longrightarrow> variant_eq b c \<Longrightarrow> variant_less a c"
  "variant_eq a b \<Longrightarrow> variant_less b c \<Longrightarrow> variant_less a c"
  by (cases a; cases b; cases c; auto)+

lemma variant_trichotomy:
  "comparable a \<Longrightarrow> comparable b \<Longrightarrow> variant_less a b \<or> variant_eq a b \<or> variant_less b a"
  using str_less_linear by (cases a; cases b) (auto simp: linorder_neq_iff signed_word_eqI)

lemma variant_less_not_eq: "variant_less a b \<Longrightarrow> \<not> variant_eq a b"
  by (cases a; cases b) auto

end
