(* ===== verification/Request_Parser.thy ===== *)
theory Request_Parser
  imports Streams Variants
begin

text \<open>
  \<^verbatim>\<open>src/src/parser/Query.h\<close> and \<^verbatim>\<open>src/src/parser/RequestParser.h\<close>: the query objects
  and the parser that fills them from the text of a request. The template base class
  \<^verbatim>\<open>QueryBase\<close> is a record that the query records extend. The member
  \<^verbatim>\<open>SelectQuery::needToSort\<close>, which the program neither sets nor reads, is left out.
\<close>

section \<open>Queries\<close>

record oderTypeRaw =
  rawColumn :: string
  raw_isGreaterSort :: bool

record oderTypeOpt =
  rawId :: nat
  isGreaterSort :: bool

record QueryBase =
  tabble_name :: string
  table_ptr :: "nat option"
  conditions :: "Condition list"
  raw_conditions :: "string list"
  limit :: nat

record SelectQuery = QueryBase +
  s_columns_raw :: "string list"
  s_columns_optimized :: "nat list"
  oder_columns_raw :: "oderTypeRaw list"
  order_columns_optimized :: "oderTypeOpt list"

record InsertQuery = QueryBase +
  i_raw_values :: "string list"
  i_values :: "variant_types list"

type_synonym DeleteQuery = QueryBase

record UpdateQuery = QueryBase +
  u_columns_raw :: "string list"
  u_columns_optimized :: "nat list"
  u_raw_values :: "string list"
  u_values :: "variant_types list"

datatype QueryVariant =
    QSelect SelectQuery
  | QUpdate UpdateQuery
  | QInsert InsertQuery
  | QDelete DeleteQuery

text \<open>The objects as their default constructors leave them.\<close>

definition new_QueryBase :: QueryBase where
  "new_QueryBase = \<lparr>tabble_name = [], table_ptr = None, conditions = [], raw_conditions = [], limit = SIZE_MAX\<rparr>"

definition new_SelectQuery :: SelectQuery where
  "new_SelectQuery = QueryBase.extend new_QueryBase (SelectQuery.fields [] [] [] [])"

definition new_InsertQuery :: InsertQuery where
  "new_InsertQuery = QueryBase.extend new_QueryBase (InsertQuery.fields [] [])"

definition new_UpdateQuery :: UpdateQuery where
  "new_UpdateQuery = QueryBase.extend new_QueryBase (UpdateQuery.fields [] [] [] [])"

section \<open>The parser\<close>

definition quoted :: "string \<Rightarrow> string" where
  "quoted s = CHR 0x22 # s @ [CHR 0x22]"

definition missed_keyworld :: "string \<Rightarrow> exn" where
  "missed_keyworld k = IncorrectInputException (''Missed keyworld '' @ quoted k)"

text \<open>
  The loop \<^verbatim>\<open>while (str >> buf) { if (stop) break; acc.push_back(std::move(buf)); }\<close>: the
  buffer afterwards, the extended vector and the stream. A buffer that was moved into the vector
  is empty when the next extraction fails.
\<close>

function read_words :: "(string \<Rightarrow> bool) \<Rightarrow> istr \<Rightarrow> string \<Rightarrow> string list \<Rightarrow> string \<times> string list \<times> istr" where
  "read_words stop s buf acc =
     (case read_str s buf of (ok, t, s') \<Rightarrow>
        if \<not> ok then (t, acc, s')
        else if stop t then (t, acc, s')
        else read_words stop s' [] (acc @ [t]))"
  by pat_completeness auto
termination
  by (relation "measure (\<lambda>(stop, s, buf, acc). length (remaining s))") (auto dest: read_str_decreases(1))

declare read_words.simps [simp del]

definition parseConditionAndLimit :: "'a QueryBase_scheme \<Rightarrow> istr \<Rightarrow> 'a QueryBase_scheme" where
  "parseConditionAndLimit q s0 =
     (let (_, buf, s) = read_str s0 [];
          (buf, raws, s) = (if buf = ''WHERE'' then read_words (\<lambda>t. t = ''LIMIT'') s buf (raw_conditions q)
                            else (buf, raw_conditions q, s));
          q = q\<lparr>raw_conditions := raws\<rparr>
      in if buf = ''LIMIT'' then q\<lparr>limit := fst (read_size s (limit q))\<rparr> else q)"

text \<open>
  The loop over the \<^verbatim>\<open>ORDER BY\<close> list. \<^verbatim>\<open>type\<close> keeps its value when the stream ends
  after a column name.
\<close>

function read_order :: "istr \<Rightarrow> string \<Rightarrow> string \<Rightarrow> oderTypeRaw list \<Rightarrow> exn + oderTypeRaw list" where
  "read_order s buf ty acc =
     (case read_str s buf of (ok, b, s1) \<Rightarrow>
        if \<not> ok then Inr acc
        else case read_str s1 ty of (_, ty', s2) \<Rightarrow>
          if ty' = ''ASC'' then read_order s2 b ty' (acc @ [\<lparr>rawColumn = b, raw_isGreaterSort = True\<rparr>])
          else if ty' = ''DESC'' then read_order s2 b ty' (acc @ [\<lparr>rawColumn = b, raw_isGreaterSort = False\<rparr>])
          else Inl (IncorrectInputException (''Unknown sort type: '' @ ty')))"
  by pat_completeness auto
termination
  by (relation "measure (\<lambda>(s, buf, ty, acc). length (remaining s))")
     (auto dest: read_str_decreases(2))

declare read_order.simps [simp del]

definition parseSelect :: "istr \<Rightarrow> exn + SelectQuery" where
  "parseSelect s0 =
     (let (buf, cols, s) = read_words (\<lambda>t. t = ''FROM'') s0 [] [];
          q = new_SelectQuery\<lparr>s_columns_raw := cols\<rparr>
      in if buf \<noteq> ''FROM'' then Inl (missed_keyworld ''FROM'')
      else
        let (_, buf, s) = read_str s buf;
            q = q\<lparr>tabble_name := buf\<rparr>;
            (_, buf, s) = read_str s [];
            (buf, raws, s) = (if buf = ''WHERE''
                              then read_words (\<lambda>t. t = ''LIMIT'' \<or> t = ''ORDER'') s buf (raw_conditions q)
                              else (buf, raw_conditions q, s));
            q = q\<lparr>raw_conditions := raws\<rparr>;
            (lim, buf, s) = (if buf = ''LIMIT''
                             then (let (n, s) = read_size s (limit q); (_, buf, s) = read_str s buf in (n, buf, s))
                             else (limit q, buf, s));
            q = q\<lparr>limit := lim\<rparr>
        in if buf = ''ORDER'' then
             (let (_, buf, s) = read_str s buf in
              if buf = ''BY''
              then bindE (read_order s buf [] (oder_columns_raw q)) (\<lambda>ord. Inr (q\<lparr>oder_columns_raw := ord\<rparr>))
              else Inr q)
           else Inr q)"

definition parseInsert :: "istr \<Rightarrow> exn + InsertQuery" where
  "parseInsert s0 =
     (let (_, buf, s) = read_str s0 [] in
      if buf \<noteq> ''INTO'' then Inl (missed_keyworld ''INTO'')
      else let (_, name, s) = read_str s (tabble_name new_InsertQuery);
               (_, vals, s) = read_words (\<lambda>_. False) s buf []
           in Inr (new_InsertQuery\<lparr>tabble_name := name, i_raw_values := vals\<rparr>))"

definition parseDelete :: "istr \<Rightarrow> exn + DeleteQuery" where
  "parseDelete s0 =
     (let (_, buf, s) = read_str s0 [] in
      if buf \<noteq> ''FROM'' then Inl (missed_keyworld ''FROM'')
      else let (_, name, s) = read_str s (tabble_name new_QueryBase)
           in Inr (parseConditionAndLimit (new_QueryBase\<lparr>tabble_name := name\<rparr>) s))"

text \<open>The loop over the assignments of \<^verbatim>\<open>SET\<close>: the buffer, both vectors and the stream.\<close>

function read_assignments ::
  "istr \<Rightarrow> string \<Rightarrow> string list \<Rightarrow> string list \<Rightarrow> exn + (string \<times> string list \<times> string list \<times> istr)" where
  "read_assignments s buf cols vals =
     (case read_str s buf of (ok, b, s1) \<Rightarrow>
        if \<not> ok then Inr (b, cols, vals, s1)
        else if b = ''WHERE'' \<or> b = ''LIMIT'' then Inr (b, cols, vals, s1)
        else case read_str s1 [] of (_, b', s2) \<Rightarrow>
          if b' \<noteq> ''='' then Inl (IncorrectInputException (''Missed symbol '' @ [CHR 0x27, CHR ''='', CHR 0x27]))
          else case read_str s2 b' of (_, v, s3) \<Rightarrow>
            read_assignments s3 [] (cols @ [b]) (vals @ [v]))"
  by pat_completeness auto
termination
  by (relation "measure (\<lambda>(s, buf, cols, vals). length (remaining s))")
     (auto dest: read_str_decreases(3))

declare read_assignments.simps [simp del]

definition parseUpdate :: "istr \<Rightarrow> exn + UpdateQuery" where
  "parseUpdate s0 =
     (let (_, name, s) = read_str s0 (tabble_name new_UpdateQuery);
          (_, buf, s) = read_str s []
      in if buf \<noteq> ''SET'' then Inl (missed_keyworld ''SET'')
      else bindE (read_assignments s buf [] []) (\<lambda>(buf, cols, vals, s).
        let (buf, raws, s) = (if buf \<noteq> ''LIMIT'' then read_words (\<lambda>t. t = ''LIMIT'') s buf []
                              else (buf, [], s));
            q = new_UpdateQuery\<lparr>tabble_name := name, u_columns_raw := cols, u_raw_values := vals,
                                raw_conditions := raws\<rparr>
        in Inr (if buf = ''LIMIT'' then q\<lparr>limit := fst (read_size s (limit q))\<rparr> else q)))"

definition parse :: "string \<Rightarrow> exn + QueryVariant" where
  "parse command =
     (let (_, queryType, s) = read_str (istr_of command) [] in
      if queryType = ''SELECT'' then bindE (parseSelect s) (\<lambda>q. Inr (QSelect q))
      else if queryType = ''INSERT'' then bindE (parseInsert s) (\<lambda>q. Inr (QInsert q))
      else if queryType = ''DELETE'' then bindE (parseDelete s) (\<lambda>q. Inr (QDelete q))
      else if queryType = ''UPDATE'' then bindE (parseUpdate s) (\<lambda>q. Inr (QUpdate q))
      else Inl (IncorrectInputException ''Unsupported command''))"

section \<open>Printing\<close>

text \<open>
  The text of a request in the syntax of \<^verbatim>\<open>documentary.md\<close>, as a list of words: the reference
  the parser is compared with. An empty condition list stands for no \<^verbatim>\<open>WHERE\<close>, no limit for no
  \<^verbatim>\<open>LIMIT\<close>, an empty order list for no \<^verbatim>\<open>ORDER BY\<close>.
\<close>

definition show_where :: "string list \<Rightarrow> string list" where
  "show_where conds = (if conds = [] then [] else ''WHERE'' # conds)"

definition show_limit :: "nat option \<Rightarrow> string list" where
  "show_limit lim = (case lim of None \<Rightarrow> [] | Some n \<Rightarrow> [''LIMIT'', to_string n])"

fun show_order_items :: "oderTypeRaw list \<Rightarrow> string list" where
  "show_order_items [] = []"
| "show_order_items (c # cs) =
     rawColumn c # (if raw_isGreaterSort c then ''ASC'' else ''DESC'') # show_order_items cs"

definition show_order :: "oderTypeRaw list \<Rightarrow> string list" where
  "show_order ord = (if ord = [] then [] else ''ORDER'' # ''BY'' # show_order_items ord)"

definition show_select :: "string list \<Rightarrow> string \<Rightarrow> string list \<Rightarrow> nat option \<Rightarrow> oderTypeRaw list \<Rightarrow> string" where
  "show_select cols name conds lim ord =
     ''SELECT'' @ blanks (cols @ ''FROM'' # name # show_where conds @ show_limit lim @ show_order ord)"

definition show_insert :: "string \<Rightarrow> string list \<Rightarrow> string" where
  "show_insert name vals = ''INSERT'' @ blanks (''INTO'' # name # vals)"

definition show_delete :: "string \<Rightarrow> string list \<Rightarrow> nat option \<Rightarrow> string" where
  "show_delete name conds lim = ''DELETE'' @ blanks (''FROM'' # name # show_where conds @ show_limit lim)"

fun show_assignments :: "(string \<times> string) list \<Rightarrow> string list" where
  "show_assignments [] = []"
| "show_assignments ((c, v) # as) = c # ''='' # v # show_assignments as"

definition show_update :: "string \<Rightarrow> (string \<times> string) list \<Rightarrow> string list \<Rightarrow> nat option \<Rightarrow> string" where
  "show_update name as conds lim =
     ''UPDATE'' @ blanks (name # ''SET'' # show_assignments as @ show_where conds @ show_limit lim)"

abbreviation limit_or_max :: "nat option \<Rightarrow> nat" where
  "limit_or_max lim \<equiv> (case lim of None \<Rightarrow> SIZE_MAX | Some n \<Rightarrow> n)"

section \<open>What the loops read\<close>

abbreviation ended :: istr where
  "ended \<equiv> \<lparr>remaining = [], stream_good = False\<rparr>"

lemma keywords_word_tok [simp]:
  "word_tok ''SELECT''" "word_tok ''INSERT''" "word_tok ''DELETE''" "word_tok ''UPDATE''"
  "word_tok ''FROM''" "word_tok ''INTO''" "word_tok ''SET''" "word_tok ''WHERE''"
  "word_tok ''LIMIT''" "word_tok ''ORDER''" "word_tok ''BY''" "word_tok ''ASC''" "word_tok ''DESC''"
  "word_tok ''=''"
  by (simp_all add: word_tok_def is_space_def)

lemma read_words_stop [stream_simps]:
  assumes "\<forall>t\<in>set ts. word_tok t \<and> \<not> stop t" and "word_tok u" and "stop u"
  shows "read_words stop (istr_of (blanks (ts @ u # us))) buf acc = (u, acc @ ts, istr_of (blanks us))"
  using assms(1)
proof (induction ts arbitrary: buf acc)
  case Nil
  then show ?case
    using assms(2,3) by (simp add: read_words.simps read_str_blanks del: blanks_simps)
next
  case (Cons t ts)
  then show ?case
    by (simp add: read_words.simps [of _ _ buf] read_str_blanks del: blanks_simps)
qed

lemma read_words_end [stream_simps]:
  assumes "\<forall>t\<in>set ts. word_tok t \<and> \<not> stop t"
  shows "read_words stop (istr_of (blanks ts)) buf acc = (if ts = [] then buf else [], acc @ ts, ended)"
  using assms
proof (induction ts arbitrary: buf acc)
  case Nil
  then show ?case by (simp add: read_words.simps read_str_end)
next
  case (Cons t ts)
  then show ?case
    by (simp add: read_words.simps [of _ _ buf] read_str_blanks del: blanks_simps)
qed

lemma read_words_bad [stream_simps]: "\<not> stream_good s \<Longrightarrow> read_words stop s buf acc = (buf, acc, s)"
  by (simp add: read_words.simps read_str_bad)

lemma read_order_items [stream_simps]:
  assumes "\<forall>c\<in>set ord. word_tok (rawColumn c)"
  shows "read_order (istr_of (blanks (show_order_items ord))) buf ty acc = Inr (acc @ ord)"
  using assms
proof (induction ord arbitrary: buf ty acc)
  case Nil
  then show ?case by (simp add: read_order.simps read_str_end)
next
  case (Cons c cs)
  have "\<lparr>rawColumn = rawColumn c, raw_isGreaterSort = raw_isGreaterSort c\<rparr> = c" by simp
  with Cons show ?case
    by (cases "raw_isGreaterSort c")
      (simp_all add: read_order.simps [of _ buf] read_str_blanks del: blanks_simps)
qed

lemma read_assignments_stop [stream_simps]:
  assumes "\<forall>(c, v)\<in>set as. word_tok c \<and> word_tok v \<and> c \<noteq> ''WHERE'' \<and> c \<noteq> ''LIMIT''"
    and "u = ''WHERE'' \<or> u = ''LIMIT''"
  shows "read_assignments (istr_of (blanks (show_assignments as @ u # us))) buf cols vals =
         Inr (u, cols @ map fst as, vals @ map snd as, istr_of (blanks us))"
  using assms(1)
proof (induction as arbitrary: buf cols vals)
  case Nil
  have "word_tok u" using assms(2) by auto
  with assms(2) show ?case
    by (simp add: read_assignments.simps [of _ buf] read_str_blanks del: blanks_simps)
next
  case (Cons a as)
  then show ?case
    by (cases a) (simp add: read_assignments.simps [of _ buf] read_str_blanks del: blanks_simps)
qed

lemma read_assignments_end [stream_simps]:
  assumes "\<forall>(c, v)\<in>set as. word_tok c \<and> word_tok v \<and> c \<noteq> ''WHERE'' \<and> c \<noteq> ''LIMIT''"
  shows "read_assignments (istr_of (blanks (show_assignments as))) buf cols vals =
         Inr (if as = [] then buf else [], cols @ map fst as, vals @ map snd as, ended)"
  using assms
proof (induction as arbitrary: buf cols vals)
  case Nil
  then show ?case by (simp add: read_assignments.simps read_str_end)
next
  case (Cons a as)
  then show ?case
    by (cases a) (simp add: read_assignments.simps [of _ buf] read_str_blanks del: blanks_simps)
qed

section \<open>Round trips\<close>

text \<open>The tail of a request after its table name, as \<^verbatim>\<open>parseConditionAndLimit\<close> reads it.\<close>

lemma parseConditionAndLimit_show:
  assumes "\<forall>t\<in>set conds. word_tok t \<and> t \<noteq> ''LIMIT''" and "\<forall>n\<in>set_option lim. n < SIZE_MOD"
    and "raw_conditions q = []" and "limit q = SIZE_MAX"
  shows "parseConditionAndLimit q (istr_of (blanks (show_where conds @ show_limit lim))) =
         q\<lparr>raw_conditions := conds, limit := limit_or_max lim\<rparr>"
proof (cases lim)
  case None
  then show ?thesis
    using assms
    by (cases "conds = []") (simp_all add: parseConditionAndLimit_def show_where_def show_limit_def
        read_str_end read_str_blanks read_words_end del: blanks_simps(2))
next
  case (Some n)
  then show ?thesis
    using assms
    by (cases "conds = []") (simp_all add: parseConditionAndLimit_def show_where_def show_limit_def
        read_str_blanks read_words_stop read_size_blanks del: blanks_simps(2))
qed

lemma parse_dispatch:
  "parse (''SELECT'' @ blanks ts) = bindE (parseSelect (istr_of (blanks ts))) (\<lambda>q. Inr (QSelect q))"
  "parse (''INSERT'' @ blanks ts) = bindE (parseInsert (istr_of (blanks ts))) (\<lambda>q. Inr (QInsert q))"
  "parse (''DELETE'' @ blanks ts) = bindE (parseDelete (istr_of (blanks ts))) (\<lambda>q. Inr (QDelete q))"
  "parse (''UPDATE'' @ blanks ts) = bindE (parseUpdate (istr_of (blanks ts))) (\<lambda>q. Inr (QUpdate q))"
  unfolding parse_def read_str_word [OF keywords_word_tok(1)] read_str_word [OF keywords_word_tok(2)]
    read_str_word [OF keywords_word_tok(3)] read_str_word [OF keywords_word_tok(4)]
  by simp_all

lemmas new_query_defs = new_QueryBase_def new_SelectQuery_def new_InsertQuery_def new_UpdateQuery_def
  QueryBase.defs SelectQuery.defs InsertQuery.defs UpdateQuery.defs

lemmas reading = read_str_end read_str_blanks read_str_word read_words_end read_words_stop
  read_size_blanks read_order_items read_str_bad read_words_bad read_assignments_end read_assignments_stop

lemmas show_tail_defs = show_where_def show_limit_def show_order_def

lemma select_text:
  assumes "\<forall>c\<in>set cols. word_tok c \<and> c \<noteq> ''FROM''" and "word_tok name"
    and "\<forall>t\<in>set conds. word_tok t \<and> t \<noteq> ''LIMIT'' \<and> t \<noteq> ''ORDER''"
    and "\<forall>n\<in>set_option lim. n < SIZE_MOD" and "\<forall>c\<in>set ord. word_tok (rawColumn c)"
  shows "parse (show_select cols name conds lim ord) =
         Inr (QSelect (new_SelectQuery\<lparr>tabble_name := name, s_columns_raw := cols,
           raw_conditions := conds, limit := limit_or_max lim, oder_columns_raw := ord\<rparr>))"
proof -
  have "parseSelect (istr_of (blanks (cols @ ''FROM'' # name # show_where conds @ show_limit lim @ show_order ord))) =
        Inr (new_SelectQuery\<lparr>tabble_name := name, s_columns_raw := cols,
           raw_conditions := conds, limit := limit_or_max lim, oder_columns_raw := ord\<rparr>)"
    using assms
    by (cases "conds = []"; cases lim; cases "ord = []")
      (simp_all add: parseSelect_def show_tail_defs new_query_defs reading del: blanks_simps(2))
  then show ?thesis by (simp only: show_select_def parse_dispatch bindE_simps)
qed

text \<open>
  (C29) A printed \<^verbatim>\<open>SELECT\<close> is parsed back: columns, table, conditions, limit and order. The
  hypotheses are the lexical ones: every part is a word, and no word in a list is the keyword that
  ends the list.
\<close>

theorem parse_show_select:
  assumes "\<forall>c\<in>set cols. word_tok c \<and> c \<noteq> ''FROM''" and "word_tok name"
    and "\<forall>t\<in>set conds. word_tok t \<and> t \<noteq> ''LIMIT'' \<and> t \<noteq> ''ORDER''"
    and "\<forall>n\<in>set_option lim. n < SIZE_MOD" and "\<forall>c\<in>set ord. word_tok (rawColumn c)"
  shows "parse (show_select cols name conds lim ord) =
         Inr (QSelect (new_SelectQuery\<lparr>tabble_name := name, s_columns_raw := cols,
           raw_conditions := conds, limit := limit_or_max lim, oder_columns_raw := ord\<rparr>))"
  using assms by (rule select_text)

theorem parse_show_select_witness:
  "parse (show_select [''*''] ''users'' [''age'', ''>'', ''20''] (Some 10) [\<lparr>rawColumn = ''name'', raw_isGreaterSort = False\<rparr>]) =
   Inr (QSelect (new_SelectQuery\<lparr>tabble_name := ''users'', s_columns_raw := [''*''],
     raw_conditions := [''age'', ''>'', ''20''], limit := limit_or_max (Some 10),
     oder_columns_raw := [\<lparr>rawColumn = ''name'', raw_isGreaterSort = False\<rparr>]\<rparr>))"
  by (rule parse_show_select) (simp_all add: word_tok_def is_space_def)

lemma insert_text:
  assumes "word_tok name" and "\<forall>v\<in>set vals. word_tok v"
  shows "parse (show_insert name vals) =
         Inr (QInsert (new_InsertQuery\<lparr>tabble_name := name, i_raw_values := vals\<rparr>))"
proof -
  have "parseInsert (istr_of (blanks (''INTO'' # name # vals))) =
        Inr (new_InsertQuery\<lparr>tabble_name := name, i_raw_values := vals\<rparr>)"
    using assms by (simp add: parseInsert_def reading del: blanks_simps(2))
  then show ?thesis by (simp only: show_insert_def parse_dispatch bindE_simps)
qed

text \<open>A printed \<^verbatim>\<open>INSERT\<close> is parsed back: table name and values.\<close>

theorem parse_show_insert:
  assumes "word_tok name" and "\<forall>v\<in>set vals. word_tok v"
  shows "parse (show_insert name vals) =
         Inr (QInsert (new_InsertQuery\<lparr>tabble_name := name, i_raw_values := vals\<rparr>))"
  using assms by (rule insert_text)

theorem parse_show_insert_witness:
  "parse (show_insert ''users'' [''John'', ''25'']) =
   Inr (QInsert (new_InsertQuery\<lparr>tabble_name := ''users'', i_raw_values := [''John'', ''25'']\<rparr>))"
  by (rule parse_show_insert) (simp_all add: word_tok_def is_space_def)

lemma delete_text:
  assumes "word_tok name" and "\<forall>t\<in>set conds. word_tok t \<and> t \<noteq> ''LIMIT''"
    and "\<forall>n\<in>set_option lim. n < SIZE_MOD"
  shows "parse (show_delete name conds lim) =
         Inr (QDelete (new_QueryBase\<lparr>tabble_name := name, raw_conditions := conds,
                                     limit := limit_or_max lim\<rparr>))"
proof -
  let ?q = "new_QueryBase\<lparr>tabble_name := name\<rparr>"
  have "raw_conditions ?q = []" "limit ?q = SIZE_MAX" by (simp_all add: new_QueryBase_def)
  with assms(2,3) have "parseDelete (istr_of (blanks (''FROM'' # name # show_where conds @ show_limit lim))) =
        Inr (?q\<lparr>raw_conditions := conds, limit := limit_or_max lim\<rparr>)"
    using assms(1)
    by (simp add: parseDelete_def reading parseConditionAndLimit_show del: blanks_simps(2))
  then show ?thesis by (simp only: show_delete_def parse_dispatch bindE_simps)
qed

text \<open>A printed \<^verbatim>\<open>DELETE\<close> is parsed back, with or without \<^verbatim>\<open>WHERE\<close>.\<close>

theorem parse_show_delete:
  assumes "word_tok name" and "\<forall>t\<in>set conds. word_tok t \<and> t \<noteq> ''LIMIT''"
    and "\<forall>n\<in>set_option lim. n < SIZE_MOD"
  shows "parse (show_delete name conds lim) =
         Inr (QDelete (new_QueryBase\<lparr>tabble_name := name, raw_conditions := conds,
                                     limit := limit_or_max lim\<rparr>))"
  using assms by (rule delete_text)

theorem parse_show_delete_witness:
  "parse (show_delete ''users'' [''name'', ''=='', ''John''] None) =
   Inr (QDelete (new_QueryBase\<lparr>tabble_name := ''users'', raw_conditions := [''name'', ''=='', ''John''],
                               limit := limit_or_max None\<rparr>))"
  by (rule parse_show_delete) (simp_all add: word_tok_def is_space_def)

lemma update_text:
  assumes "word_tok name"
    and "\<forall>(c, v)\<in>set as. word_tok c \<and> word_tok v \<and> c \<noteq> ''WHERE'' \<and> c \<noteq> ''LIMIT''"
    and "\<forall>t\<in>set conds. word_tok t \<and> t \<noteq> ''LIMIT''" and "\<forall>n\<in>set_option lim. n < SIZE_MOD"
  shows "parse (show_update name as conds lim) =
         Inr (QUpdate (new_UpdateQuery\<lparr>tabble_name := name, u_columns_raw := map fst as,
           u_raw_values := map snd as, raw_conditions := conds, limit := limit_or_max lim\<rparr>))"
proof -
  have "parseUpdate (istr_of (blanks (name # ''SET'' # show_assignments as @ show_where conds @ show_limit lim))) =
        Inr (new_UpdateQuery\<lparr>tabble_name := name, u_columns_raw := map fst as,
           u_raw_values := map snd as, raw_conditions := conds, limit := limit_or_max lim\<rparr>)"
    using assms
    by (cases "conds = []"; cases lim)
      (auto simp: parseUpdate_def show_tail_defs new_query_defs reading simp del: blanks_simps(2))
  then show ?thesis by (simp only: show_update_def parse_dispatch bindE_simps)
qed

text \<open>A printed \<^verbatim>\<open>UPDATE\<close> is parsed back: assignments in order, conditions and limit.\<close>

theorem parse_show_update:
  assumes "word_tok name"
    and "\<forall>(c, v)\<in>set as. word_tok c \<and> word_tok v \<and> c \<noteq> ''WHERE'' \<and> c \<noteq> ''LIMIT''"
    and "\<forall>t\<in>set conds. word_tok t \<and> t \<noteq> ''LIMIT''" and "\<forall>n\<in>set_option lim. n < SIZE_MOD"
  shows "parse (show_update name as conds lim) =
         Inr (QUpdate (new_UpdateQuery\<lparr>tabble_name := name, u_columns_raw := map fst as,
           u_raw_values := map snd as, raw_conditions := conds, limit := limit_or_max lim\<rparr>))"
  using assms by (rule update_text)

theorem parse_show_update_witness:
  "parse (show_update ''users'' [(''age'', ''26'')] [''id'', ''=='', ''1''] (Some 1)) =
   Inr (QUpdate (new_UpdateQuery\<lparr>tabble_name := ''users'', u_columns_raw := map fst [(''age'', ''26'')],
     u_raw_values := map snd [(''age'', ''26'')], raw_conditions := [''id'', ''=='', ''1''],
     limit := limit_or_max (Some 1)\<rparr>))"
  by (rule parse_show_update) (simp_all add: word_tok_def is_space_def)

end
