(* ===== verification/Memory_Map.thy ===== *)
theory Memory_Map
  imports Variants
begin

text \<open>
  \<^verbatim>\<open>src/src/files/MemoryMapLinux.h\<close> and \<^verbatim>\<open>src/src/files/MemoryMap.h\<close>: the
  memory-mapped storage file of a table, addressed by line and offset. The mapping is shared, so the
  bytes of the mapping are the bytes of the file. What the operating system may refuse is given by
  two limits: the greatest size \<^verbatim>\<open>ftruncate\<close> accepts and the greatest size \<^verbatim>\<open>mmap\<close>
  accepts. An access through a null pointer, outside the mapping or after \<^verbatim>\<open>munmap\<close> is
  \<^const>\<open>Undefined\<close>. The operations here are sequential; the stripe locks and the
  \<^verbatim>\<open>expanding\<close> flag are the subject of the concurrency theory, and a single thread that finds
  the flag set waits for ever (\<^const>\<open>Hang\<close>).

  The locale \<open>line_store\<close> states what the table relies on; it is interpreted on
  \<open>writeInfo\<close> of this theory.
\<close>

section \<open>MemoryMapLinux\<close>

datatype mapping_state = NullMap | Mapped | Unmapped | MapFailed

record memory_map =
  mappedData :: mapping_state
  file_bytes :: "char list"
  fileSize :: nat
  lineLength :: nat
  expanding :: bool
  max_file :: nat
  max_map :: nat

definition getMaxLine :: "memory_map \<Rightarrow> exn + nat" where
  "getMaxLine m = (if lineLength m = 0 then Inl (Undefined ''division by zero'')
                   else Inr (fileSize m div lineLength m))"

definition expandFile :: "(memory_map, bool) act" where
  "expandFile m0 =
     (let m = (if mappedData m0 \<noteq> NullMap then m0\<lparr>mappedData := Unmapped\<rparr> else m0);
          newFileSize = size_mul (fileSize m) 2
      in if max_file m < newFileSize then (Inl (RuntimeError ''ftruncate failed''), m)
         else let m = m\<lparr>file_bytes := str_resize newFileSize (file_bytes m)\<rparr>
              in if newFileSize = 0 \<or> max_map m < newFileSize
                 then (Inl (RuntimeError ''mmap failed''), m\<lparr>mappedData := MapFailed\<rparr>)
                 else (Inr True, m\<lparr>mappedData := Mapped, fileSize := newFileSize\<rparr>))"

definition close_map :: "memory_map \<Rightarrow> memory_map" where
  "close_map m = (if mappedData m \<noteq> NullMap \<and> mappedData m \<noteq> MapFailed then m\<lparr>mappedData := NullMap\<rparr> else m)
                   \<lparr>fileSize := 0\<rparr>"

text \<open>
  \<^verbatim>\<open>openFile\<close>, given what \<^verbatim>\<open>open\<close> delivers: no descriptor, or the bytes of the file
  (none for a file just created).
\<close>

definition openFile :: "string \<Rightarrow> char list option \<Rightarrow> (memory_map, bool) act" where
  "openFile filename contents m0 =
     (let m = close_map m0 in
      case contents of
        None \<Rightarrow> (Inl (RuntimeError (''Cannot open file: '' @ filename)), m)
      | Some bs \<Rightarrow>
          let m = m\<lparr>file_bytes := bs, fileSize := length bs\<rparr>;
              small = (fileSize m \<le> lineLength m);
              m = (if small then m\<lparr>fileSize := size_mul (lineLength m) 100\<rparr> else m)
          in if small \<and> max_file m < fileSize m
             then (Inl (RuntimeError ''ftruncate failed''), close_map m)
             else let m = (if small then m\<lparr>file_bytes := str_resize (fileSize m) (file_bytes m)\<rparr> else m)
                  in if fileSize m = 0 \<or> max_map m < fileSize m
                     then (Inl (RuntimeError ''mmap failed''), close_map (m\<lparr>mappedData := MapFailed\<rparr>))
                     else (Inr True, m\<lparr>mappedData := Mapped\<rparr>))"

text \<open>The position of a line in the mapping; \<open>None\<close> is the null pointer.\<close>

definition findLine :: "memory_map \<Rightarrow> nat \<Rightarrow> nat option" where
  "findLine m lineNumber =
     (if mappedData m = NullMap then None
      else let current = size_mul lineNumber (lineLength m)
           in if current < fileSize m then Some current else None)"

definition accessible :: "memory_map \<Rightarrow> nat \<Rightarrow> nat \<Rightarrow> bool" where
  "accessible m p n \<longleftrightarrow> mappedData m = Mapped \<and> p + n \<le> fileSize m"

text \<open>\<^verbatim>\<open>memcpy\<close> to and from the address \<^verbatim>\<open>findLine(lineNumber) + offset\<close>.\<close>

definition memcpy_to :: "nat \<Rightarrow> nat \<Rightarrow> char list \<Rightarrow> (memory_map, unit) act" where
  "memcpy_to lineNumber offset bs m =
     (case findLine m lineNumber of
        None \<Rightarrow> (Inl (Undefined ''memcpy: null pointer''), m)
      | Some p \<Rightarrow> if accessible m (p + offset) (length bs)
                 then (Inr (), m\<lparr>file_bytes := put_bytes (p + offset) bs (file_bytes m)\<rparr>)
                 else (Inl (Undefined ''memcpy: outside the mapping''), m))"

definition memcpy_from :: "memory_map \<Rightarrow> nat \<Rightarrow> nat \<Rightarrow> nat \<Rightarrow> exn + char list" where
  "memcpy_from m lineNumber offset n =
     (case findLine m lineNumber of
        None \<Rightarrow> Inl (Undefined ''memcpy: null pointer'')
      | Some p \<Rightarrow> if accessible m (p + offset) n then Inr (get_bytes (p + offset) n (file_bytes m))
                 else Inl (Undefined ''memcpy: outside the mapping''))"

definition core_writeText :: "nat \<Rightarrow> nat \<Rightarrow> string \<Rightarrow> (memory_map, unit) act" where
  "core_writeText lineNumber offset value m =
     (if size_sub (lineLength m) offset < length value
      then (Inl (RuntimeError ''Text is too long for the field''), m)
      else memcpy_to lineNumber offset value m)"

text \<open>
  Reading stops at a NUL byte or after \<^verbatim>\<open>size\<close> bytes. The null test is on the sum
  \<^verbatim>\<open>findLine(lineNumber) + offset\<close>, so it fires for offset 0 only.
\<close>

definition core_readText :: "memory_map \<Rightarrow> nat \<Rightarrow> nat \<Rightarrow> nat \<Rightarrow> exn + string" where
  "core_readText m lineNumber offset sz =
     (case findLine m lineNumber of
        None \<Rightarrow> if offset = 0 \<or> sz = 0 then Inr [] else Inl (Undefined ''readText: null pointer'')
      | Some p \<Rightarrow>
          let avail = (if mappedData m = Mapped then drop (p + offset) (file_bytes m) else [])
          in if sz \<le> length avail \<or> NUL \<in> set avail then Inr (c_str (take sz avail))
             else Inl (Undefined ''readText: outside the mapping''))"

text \<open>\<^verbatim>\<open>writeNumber<T>\<close> and \<^verbatim>\<open>readNumber<T>\<close> on the object representation of the number.\<close>

definition core_writeNumber :: "nat \<Rightarrow> nat \<Rightarrow> char list \<Rightarrow> (memory_map, unit) act" where
  "core_writeNumber lineNumber offset bs m =
     (if size_sub (lineLength m) offset < length bs
      then (Inl (RuntimeError ''Number is too long for the field''), m)
      else memcpy_to lineNumber offset bs m)"

definition core_readNumber :: "memory_map \<Rightarrow> nat \<Rightarrow> nat \<Rightarrow> nat \<Rightarrow> exn + char list" where
  "core_readNumber m lineNumber offset n = memcpy_from m lineNumber offset n"

definition getLineCount :: "memory_map \<Rightarrow> nat" where
  "getLineCount m = (if mappedData m = NullMap then 0
                     else length (filter (\<lambda>c. c = CHR 0x0A) (take (fileSize m) (file_bytes m))))"

section \<open>MemoryMap\<close>

definition STRIPE_COUNT :: nat where
  "STRIPE_COUNT = 128"

definition get_stripe :: "nat \<Rightarrow> nat" where
  "get_stripe i = i mod STRIPE_COUNT"

text \<open>An exception of \<^verbatim>\<open>expandFile\<close> leaves the flag set.\<close>

definition expand :: "(memory_map, bool) act" where
  "expand m =
     (if expanding m then (Inl Hang, m)
      else case expandFile (m\<lparr>expanding := True\<rparr>) of
          (Inl e, m') \<Rightarrow> (Inl e, m')
        | (Inr result, m') \<Rightarrow> (Inr result, m'\<lparr>expanding := False\<rparr>))"

text \<open>\<^verbatim>\<open>MemoryMap(filename, lineLength)\<close>: the members' initialisers, then \<^verbatim>\<open>openFile\<close>.\<close>

definition new_MemoryMap :: "nat \<Rightarrow> nat \<Rightarrow> nat \<Rightarrow> memory_map" where
  "new_MemoryMap len maxf maxm =
     \<lparr>mappedData = NullMap, file_bytes = [], fileSize = 0, lineLength = len, expanding = False,
      max_file = maxf, max_map = maxm\<rparr>"

definition grow_for :: "nat \<Rightarrow> (memory_map, unit) act" where
  "grow_for lineNumber =
     bnd (reads getMaxLine) (\<lambda>n. if n \<le> lineNumber then bnd expand (\<lambda>_. ret ()) else ret ())"

definition writeNumber :: "nat \<Rightarrow> nat \<Rightarrow> char list \<Rightarrow> (memory_map, unit) act" where
  "writeNumber lineNumber offset bs = bnd (grow_for lineNumber) (\<lambda>_. core_writeNumber lineNumber offset bs)"

definition readNumber_bytes :: "memory_map \<Rightarrow> nat \<Rightarrow> nat \<Rightarrow> nat \<Rightarrow> exn + char list" where
  "readNumber_bytes m lineNumber offset n = core_readNumber m lineNumber offset n"

definition writeText :: "nat \<Rightarrow> nat \<Rightarrow> string \<Rightarrow> (memory_map, unit) act" where
  "writeText lineNumber offset value = bnd (grow_for lineNumber) (\<lambda>_. core_writeText lineNumber offset value)"

definition readText :: "memory_map \<Rightarrow> nat \<Rightarrow> nat \<Rightarrow> nat \<Rightarrow> exn + string" where
  "readText m lineNumber offset sz = core_readText m lineNumber offset sz"

definition activate :: "nat \<Rightarrow> (memory_map, unit) act" where
  "activate lineNumber = core_writeNumber lineNumber 0 (enc_bool True)"

definition deactivate :: "nat \<Rightarrow> (memory_map, unit) act" where
  "deactivate lineNumber = core_writeNumber lineNumber 0 (enc_bool False)"

definition isActive :: "memory_map \<Rightarrow> nat \<Rightarrow> exn + bool" where
  "isActive m lineNumber = bindE (core_readNumber m lineNumber 0 1) dec_bool"

text \<open>The bytes a value puts into the storage.\<close>

fun value_bytes :: "variant_types \<Rightarrow> char list" where
  "value_bytes (VInt32 w) = enc_int32 w"
| "value_bytes (VInt64 w) = enc_int64 w"
| "value_bytes (VDouble w) = enc_int64 w"
| "value_bytes (VFloat w) = enc_int32 w"
| "value_bytes (VBool b) = enc_bool b"
| "value_bytes (VString s) = s"

definition writeInfo :: "nat \<Rightarrow> nat \<Rightarrow> variant_types \<Rightarrow> (memory_map, unit) act" where
  "writeInfo lineNumber offset value =
     (case value of VString s \<Rightarrow> writeText lineNumber offset s
                  | _ \<Rightarrow> writeNumber lineNumber offset (value_bytes value))"

definition getMaxLines :: "memory_map \<Rightarrow> exn + nat" where
  "getMaxLines m = getMaxLine m"

section \<open>The contract of the storage\<close>

text \<open>
  Lines of a fixed width; a store inside a line succeeds, is read back and disturbs nothing outside
  the bytes it covers, nor the static attributes of the store.
\<close>

locale line_store =
  fixes wf :: "'s \<Rightarrow> bool" and lines :: "'s \<Rightarrow> nat" and width :: "'s \<Rightarrow> nat"
    and repr :: "'v \<Rightarrow> char list" and store :: "nat \<Rightarrow> nat \<Rightarrow> 'v \<Rightarrow> ('s, unit) act"
    and fetch :: "'s \<Rightarrow> nat \<Rightarrow> nat \<Rightarrow> nat \<Rightarrow> char list" and static :: "'s \<Rightarrow> 'x"
  assumes store_ok: "wf s \<Longrightarrow> l < lines s \<Longrightarrow> o1 + length (repr v) \<le> width s \<Longrightarrow>
      fst (store l o1 v s) = Inr ()"
    and store_frame: "wf s \<Longrightarrow> l < lines s \<Longrightarrow> o1 + length (repr v) \<le> width s \<Longrightarrow>
      wf (snd (store l o1 v s)) \<and> lines (snd (store l o1 v s)) = lines s \<and>
      width (snd (store l o1 v s)) = width s \<and> static (snd (store l o1 v s)) = static s"
    and fetch_same: "wf s \<Longrightarrow> l < lines s \<Longrightarrow> o1 + length (repr v) \<le> width s \<Longrightarrow>
      fetch (snd (store l o1 v s)) l o1 (length (repr v)) = repr v"
    and fetch_other: "wf s \<Longrightarrow> l < lines s \<Longrightarrow> o1 + length (repr v) \<le> width s \<Longrightarrow>
      l' < lines s \<Longrightarrow> o2 + n \<le> width s \<Longrightarrow>
      l' \<noteq> l \<or> o2 + n \<le> o1 \<or> o1 + length (repr v) \<le> o2 \<Longrightarrow>
      fetch (snd (store l o1 v s)) l' o2 n = fetch s l' o2 n"
begin

definition store_fields :: "nat \<Rightarrow> (nat \<times> 'v) list \<Rightarrow> ('s, unit) act" where
  "store_fields l fs = seq_all (map (\<lambda>(o1, v). store l o1 v) fs)"

definition inside :: "'s \<Rightarrow> (nat \<times> 'v) list \<Rightarrow> bool" where
  "inside s fs \<longleftrightarrow> (\<forall>(o1, v)\<in>set fs. o1 + length (repr v) \<le> width s)"

definition apart :: "nat \<times> 'v \<Rightarrow> nat \<times> 'v \<Rightarrow> bool" where
  "apart a b \<longleftrightarrow> fst a + length (repr (snd a)) \<le> fst b \<or> fst b + length (repr (snd b)) \<le> fst a"

lemma store_fields_Nil: "store_fields l [] s = (Inr (), s)"
  by (simp add: store_fields_def)

lemma store_fields_Cons:
  assumes "wf s" and "l < lines s" and "o1 + length (repr v) \<le> width s"
  shows "store_fields l ((o1, v) # fs) s = store_fields l fs (snd (store l o1 v s))"
proof -
  have "store l o1 v s = (Inr (), snd (store l o1 v s))"
    using store_ok [OF assms] by (metis prod.collapse)
  then show ?thesis by (simp add: store_fields_def bnd_Inr [of "store l o1 v" s])
qed

lemma store_fields_ok:
  assumes "wf s" and "l < lines s" and "inside s fs"
  shows "fst (store_fields l fs s) = Inr () \<and> wf (snd (store_fields l fs s)) \<and>
         lines (snd (store_fields l fs s)) = lines s \<and> width (snd (store_fields l fs s)) = width s \<and>
         static (snd (store_fields l fs s)) = static s"
  using assms
proof (induction fs arbitrary: s)
  case Nil
  then show ?case by (simp add: store_fields_Nil)
next
  case (Cons f fs)
  obtain o1 v where f: "f = (o1, v)" by force
  have o: "o1 + length (repr v) \<le> width s" using Cons.prems(3) by (simp add: inside_def f)
  note fr = store_frame [OF Cons.prems(1,2) o]
  have "inside (snd (store l o1 v s)) fs" using Cons.prems(3) fr by (auto simp: inside_def)
  with Cons.IH [of "snd (store l o1 v s)"] fr Cons.prems show ?case
    by (simp add: f store_fields_Cons [OF Cons.prems(1,2) o])
qed

lemma store_fields_other:
  assumes "wf s" and "l < lines s" and "inside s fs" and "l' < lines s" and "o2 + n \<le> width s"
    and "l' \<noteq> l \<or> (\<forall>(o1, v)\<in>set fs. o2 + n \<le> o1 \<or> o1 + length (repr v) \<le> o2)"
  shows "fetch (snd (store_fields l fs s)) l' o2 n = fetch s l' o2 n"
  using assms
proof (induction fs arbitrary: s)
  case Nil
  then show ?case by (simp add: store_fields_Nil)
next
  case (Cons f fs)
  obtain o1 v where f: "f = (o1, v)" by force
  have o: "o1 + length (repr v) \<le> width s" using Cons.prems(3) by (simp add: inside_def f)
  note fr = store_frame [OF Cons.prems(1,2) o]
  let ?s = "snd (store l o1 v s)"
  have "fetch (snd (store_fields l fs ?s)) l' o2 n = fetch ?s l' o2 n"
    using Cons.prems fr by (intro Cons.IH) (auto simp: inside_def f)
  also have "\<dots> = fetch s l' o2 n"
    using Cons.prems by (intro fetch_other) (auto simp: o f)
  finally show ?case by (simp add: f store_fields_Cons [OF Cons.prems(1,2) o])
qed

lemma store_fields_same:
  assumes "wf s" and "l < lines s" and "inside s fs" and "sorted_wrt apart fs" and "(o1, v) \<in> set fs"
  shows "fetch (snd (store_fields l fs s)) l o1 (length (repr v)) = repr v"
  using assms
proof (induction fs arbitrary: s)
  case Nil
  then show ?case by simp
next
  case (Cons f fs)
  obtain o2 w where f: "f = (o2, w)" by force
  have o: "o2 + length (repr w) \<le> width s" using Cons.prems(3) by (simp add: inside_def f)
  note fr = store_frame [OF Cons.prems(1,2) o]
  let ?s = "snd (store l o2 w s)"
  have ins: "inside ?s fs" using Cons.prems(3) fr by (auto simp: inside_def)
  have "fetch (snd (store_fields l fs ?s)) l o1 (length (repr v)) = repr v"
  proof (cases "(o1, v) \<in> set fs")
    case True
    then show ?thesis using Cons.prems fr ins by (intro Cons.IH) auto
  next
    case False
    with Cons.prems(5) have eq: "o2 = o1" "w = v" by (auto simp: f)
    have "fetch (snd (store_fields l fs ?s)) l o1 (length (repr v)) = fetch ?s l o1 (length (repr v))"
      using Cons.prems(2,4) fr ins o by (intro store_fields_other) (auto simp: f eq apart_def)
    then show ?thesis using fetch_same [OF Cons.prems(1,2) o] by (simp add: eq)
  qed
  then show ?case by (simp add: f store_fields_Cons [OF Cons.prems(1,2) o])
qed

end

section \<open>Well-formed mappings\<close>

definition wf_map :: "memory_map \<Rightarrow> bool" where
  "wf_map m \<longleftrightarrow> mappedData m = Mapped \<and> length (file_bytes m) = fileSize m \<and> 0 < lineLength m \<and>
     lineLength m \<le> fileSize m \<and> lineLength m dvd fileSize m \<and> fileSize m \<le> max_file m \<and> fileSize m \<le> max_map m \<and>
     max_file m < 2 ^ 63 \<and> \<not> expanding m"

definition max_line :: "memory_map \<Rightarrow> nat" where
  "max_line m = fileSize m div lineLength m"

text \<open>The bytes at an offset of a line.\<close>

definition cell :: "memory_map \<Rightarrow> nat \<Rightarrow> nat \<Rightarrow> nat \<Rightarrow> char list" where
  "cell m l off n = get_bytes (l * lineLength m + off) n (file_bytes m)"

definition put_cell :: "nat \<Rightarrow> nat \<Rightarrow> char list \<Rightarrow> memory_map \<Rightarrow> memory_map" where
  "put_cell l off bs m = m\<lparr>file_bytes := put_bytes (l * lineLength m + off) bs (file_bytes m)\<rparr>"

lemma line_end_le: "l < k div n \<Longrightarrow> l * n + n \<le> (k :: nat)"
proof -
  assume "l < k div n"
  then have "Suc l * n \<le> (k div n) * n" by (simp only: Suc_leI mult_le_mono1)
  also have "\<dots> \<le> k" by (rule div_times_less_eq_dividend)
  finally show ?thesis by simp
qed

lemma line_in_file:
  "l < max_line m \<Longrightarrow> off + n \<le> lineLength m \<Longrightarrow> l * lineLength m + off + n \<le> fileSize m"
  using line_end_le [of l "fileSize m" "lineLength m"] by (simp add: max_line_def)

lemma wf_map_size: "wf_map m \<Longrightarrow> fileSize m < SIZE_MOD \<and> lineLength m < SIZE_MOD"
  by (auto simp: wf_map_def)

lemma getMaxLine_wf [simp]: "wf_map m \<Longrightarrow> getMaxLine m = Inr (max_line m)"
  by (simp add: getMaxLine_def wf_map_def max_line_def)

lemma getMaxLines_wf [simp]: "wf_map m \<Longrightarrow> getMaxLines m = Inr (max_line m)"
  by (simp add: getMaxLines_def)

lemma max_line_pos: "wf_map m \<Longrightarrow> 0 < max_line m"
  by (simp add: wf_map_def max_line_def div_greater_zero_iff)

lemma findLine_wf:
  assumes "wf_map m" and "l < max_line m"
  shows "findLine m l = Some (l * lineLength m)"
proof -
  have "l * lineLength m + lineLength m \<le> fileSize m"
    using line_in_file [OF assms(2), of 0 "lineLength m"] by simp
  then have lt: "l * lineLength m < fileSize m"
    using assms(1) by (simp add: wf_map_def)
  then have "size_mul l (lineLength m) = l * lineLength m"
    using wf_map_size [OF assms(1)] by (simp add: size_mul_small)
  with lt assms(1) show ?thesis by (simp add: findLine_def wf_map_def)
qed

lemma accessible_wf:
  "wf_map m \<Longrightarrow> l < max_line m \<Longrightarrow> off + n \<le> lineLength m \<Longrightarrow>
   accessible m (l * lineLength m + off) n"
  using line_in_file [of l m off n] by (simp add: accessible_def wf_map_def)

lemma memcpy_to_wf:
  "wf_map m \<Longrightarrow> l < max_line m \<Longrightarrow> off + length bs \<le> lineLength m \<Longrightarrow>
   memcpy_to l off bs m = (Inr (), put_cell l off bs m)"
  by (simp add: memcpy_to_def findLine_wf accessible_wf put_cell_def)

lemma memcpy_from_wf:
  "wf_map m \<Longrightarrow> l < max_line m \<Longrightarrow> off + n \<le> lineLength m \<Longrightarrow>
   memcpy_from m l off n = Inr (cell m l off n)"
  by (simp add: memcpy_from_def findLine_wf accessible_wf cell_def)

lemma field_fits: "wf_map m \<Longrightarrow> off + n \<le> lineLength m \<Longrightarrow> n \<le> size_sub (lineLength m) off"
  using wf_map_size [of m] by (simp add: size_sub_small)

lemma core_write_wf:
  assumes "wf_map m" and "l < max_line m" and "off + length bs \<le> lineLength m"
  shows "core_writeNumber l off bs m = (Inr (), put_cell l off bs m)"
    and "core_writeText l off bs m = (Inr (), put_cell l off bs m)"
  using field_fits [OF assms(1,3)] assms
  by (simp_all add: core_writeNumber_def core_writeText_def memcpy_to_wf)

lemma grow_for_wf: "wf_map m \<Longrightarrow> l < max_line m \<Longrightarrow> grow_for l m = (Inr (), m)"
  by (simp add: grow_for_def bnd_def)

lemma writeInfo_wf:
  assumes "wf_map m" and "l < max_line m" and "off + length (value_bytes v) \<le> lineLength m"
  shows "writeInfo l off v m = (Inr (), put_cell l off (value_bytes v) m)"
  using assms
  by (cases v) (simp_all add: writeInfo_def writeNumber_def writeText_def bnd_def grow_for_wf core_write_wf)

lemma put_cell_simps [simp]:
  "mappedData (put_cell l off bs m) = mappedData m" "fileSize (put_cell l off bs m) = fileSize m"
  "lineLength (put_cell l off bs m) = lineLength m" "expanding (put_cell l off bs m) = expanding m"
  "max_file (put_cell l off bs m) = max_file m" "max_map (put_cell l off bs m) = max_map m"
  "max_line (put_cell l off bs m) = max_line m"
  by (simp_all add: put_cell_def max_line_def)

lemma wf_put_cell:
  assumes "wf_map m" and "l < max_line m" and "off + length bs \<le> lineLength m"
  shows "wf_map (put_cell l off bs m)"
  using assms line_in_file [OF assms(2,3)] by (simp add: wf_map_def put_cell_def)

lemma cell_put_cell_same:
  assumes "wf_map m" and "l < max_line m" and "off + length bs \<le> lineLength m"
  shows "cell (put_cell l off bs m) l off (length bs) = bs"
  using line_in_file [OF assms(2,3)] assms(1)
  by (simp add: cell_def put_cell_def wf_map_def get_put_bytes_same)

lemma lines_apart:
  assumes "l' \<noteq> l" and "off + n \<le> w" and "off' + k \<le> w"
  shows "l' * w + off' + k \<le> l * w + off \<or> l * w + off + n \<le> l' * w + (off' :: nat)"
proof (cases "l' < l")
  case True
  then have "Suc l' * w \<le> l * w" by (simp only: Suc_leI mult_le_mono1)
  with assms show ?thesis by simp
next
  case False
  with assms(1) have "Suc l * w \<le> l' * w" by (simp only: mult_le_mono1)
  with assms show ?thesis by simp
qed

lemma cell_put_cell_other:
  assumes "wf_map m" and "l < max_line m" and "off + length bs \<le> lineLength m"
    and "l' < max_line m" and "off' + n \<le> lineLength m"
    and "l' \<noteq> l \<or> off' + n \<le> off \<or> off + length bs \<le> off'"
  shows "cell (put_cell l off bs m) l' off' n = cell m l' off' n"
proof -
  have "l' * lineLength m + off' + n \<le> l * lineLength m + off \<or>
        l * lineLength m + off + length bs \<le> l' * lineLength m + off'"
  proof (cases "l' = l")
    case True
    with assms(6) show ?thesis by auto
  next
    case False
    then show ?thesis using assms(3,5) by (rule lines_apart)
  qed
  then show ?thesis
    using line_in_file [OF assms(2,3)] line_in_file [OF assms(4,5)] assms(1)
    by (simp add: cell_def put_cell_def wf_map_def get_put_bytes_disjoint)
qed

interpretation mm: line_store wf_map max_line lineLength value_bytes writeInfo cell
  "\<lambda>m. (fileSize m, max_file m, max_map m)"
  by unfold_locales
    (simp_all add: writeInfo_wf wf_put_cell cell_put_cell_same cell_put_cell_other)

section \<open>Reading\<close>

lemma isActive_wf: "wf_map m \<Longrightarrow> l < max_line m \<Longrightarrow> isActive m l = dec_bool (cell m l 0 1)"
  by (simp add: isActive_def core_readNumber_def memcpy_from_wf wf_map_def)

lemma readNumber_wf:
  "wf_map m \<Longrightarrow> l < max_line m \<Longrightarrow> off + n \<le> lineLength m \<Longrightarrow>
   readNumber_bytes m l off n = Inr (cell m l off n)"
  by (simp add: readNumber_bytes_def core_readNumber_def memcpy_from_wf)

lemma readText_wf:
  assumes "wf_map m" and "l < max_line m" and "off + n \<le> lineLength m"
  shows "readText m l off n = Inr (c_str (cell m l off n))"
proof -
  have "n \<le> length (drop (l * lineLength m + off) (file_bytes m))"
    using line_in_file [OF assms(2,3)] assms(1) by (simp add: wf_map_def)
  moreover have "mappedData m = Mapped" using assms(1) by (simp add: wf_map_def)
  ultimately show ?thesis
    by (simp add: readText_def core_readText_def findLine_wf assms cell_def get_bytes_def Let_def)
qed

text \<open>Beyond the last line the activity flag is read through a null pointer.\<close>

lemma isActive_beyond:
  assumes "fileSize m \<le> l * lineLength m" and "l * lineLength m < SIZE_MOD"
  shows "isActive m l = Inl (Undefined ''memcpy: null pointer'')"
  using assms
  by (simp add: isActive_def core_readNumber_def memcpy_from_def findLine_def size_mul_small)

section \<open>Growing\<close>

definition can_grow :: "memory_map \<Rightarrow> bool" where
  "can_grow m \<longleftrightarrow> 2 * fileSize m \<le> max_file m \<and> 2 * fileSize m \<le> max_map m"

definition grown :: "memory_map \<Rightarrow> memory_map" where
  "grown m = m\<lparr>file_bytes := file_bytes m @ replicate (fileSize m) NUL, fileSize := 2 * fileSize m\<rparr>"

lemma expand_wf:
  assumes "wf_map m" and "can_grow m"
  shows "expand m = (Inr True, grown m)"
proof -
  have "size_mul (fileSize m) 2 = 2 * fileSize m"
    using assms by (simp add: wf_map_def can_grow_def size_mul_small)
  moreover have "0 < fileSize m" using assms(1) by (auto simp: wf_map_def)
  ultimately show ?thesis
    using assms
    by (simp add: expand_def expandFile_def Let_def wf_map_def can_grow_def grown_def str_resize_def)
qed

lemma expand_refused:
  assumes "wf_map m" and "max_file m < 2 * fileSize m"
  shows "expand m = (Inl (RuntimeError ''ftruncate failed''), m\<lparr>mappedData := Unmapped, expanding := True\<rparr>)"
proof -
  have "size_mul (fileSize m) 2 = 2 * fileSize m"
    using assms by (simp add: wf_map_def size_mul_small)
  then show ?thesis using assms by (simp add: expand_def expandFile_def Let_def wf_map_def)
qed

lemma grown_simps [simp]:
  "lineLength (grown m) = lineLength m" "fileSize (grown m) = 2 * fileSize m"
  "max_file (grown m) = max_file m" "max_map (grown m) = max_map m"
  by (simp_all add: grown_def)

lemma wf_grown: "wf_map m \<Longrightarrow> can_grow m \<Longrightarrow> wf_map (grown m)"
  by (auto simp: wf_map_def can_grow_def grown_def)

lemma max_line_grown: "max_line m \<le> max_line (grown m)" "wf_map m \<Longrightarrow> max_line m < max_line (grown m)"
proof -
  have two: "2 * (a div b) \<le> (2 * a) div b" for a b :: nat
    by (cases "b = 0") (simp_all add: less_eq_div_iff_mult_less_eq)
  show "max_line m \<le> max_line (grown m)"
    by (simp add: max_line_def div_le_mono)
  show "wf_map m \<Longrightarrow> max_line m < max_line (grown m)"
    using two [of "fileSize m" "lineLength m"] max_line_pos [of m] by (simp add: max_line_def)
qed

lemma fileSize_lines: "wf_map m \<Longrightarrow> fileSize m = max_line m * lineLength m"
  by (simp add: wf_map_def max_line_def)

lemma cell_grown_new:
  assumes "wf_map m" and "max_line m \<le> l" and "l < max_line (grown m)" and "off + n \<le> lineLength m"
  shows "cell (grown m) l off n = replicate n NUL"
proof -
  have "fileSize m \<le> l * lineLength m"
    using assms(1,2) by (simp add: fileSize_lines mult_le_mono1)
  moreover have "l * lineLength m + off + n \<le> 2 * fileSize m"
    using line_in_file [OF assms(3), of off n] assms(4) by simp
  ultimately show ?thesis
    using assms(1) by (simp add: cell_def grown_def wf_map_def get_bytes_replicate)
qed

lemma cell_grown:
  "wf_map m \<Longrightarrow> l < max_line m \<Longrightarrow> off + n \<le> lineLength m \<Longrightarrow> cell (grown m) l off n = cell m l off n"
  using line_in_file [of l m off n]
  by (simp add: cell_def grown_def wf_map_def get_bytes_append)

end
