(* ===== verification/Info_Loader.thy ===== *)
theory Info_Loader
  imports Streams Variants
begin

text \<open>
  \<^verbatim>\<open>src/src/files/InfoLoader.h\<close>: the description of a table and how it is loaded from the
  table's info file; and the part of \<^verbatim>\<open>DataBase::createTable\<close>
  (\<^verbatim>\<open>src/src/data_base/DataBase.h\<close>) that reads a table definition from a command and writes
  the info file. The \<^verbatim>\<open>loading\<close> flag of the loader only serialises threads and is left out.
\<close>

section \<open>InfoLoader\<close>

record Column =
  col_name :: string
  offset :: nat
  col_type :: Type
  col_size :: nat

record TabbleInfo =
  info_lineLength :: nat
  columnsNumber :: nat
  columns :: "Column list"
  columns_map :: "string \<rightharpoonup> nat"

record InfoLoader =
  in_stream :: istr
  loaded_info :: "TabbleInfo option"

fun read_names :: "nat \<Rightarrow> istr \<Rightarrow> string list \<times> istr" where
  "read_names 0 s = ([], s)"
| "read_names (Suc n) s =
     (let (_, name, s) = read_str s []; (names, s) = read_names n s in (name # names, s))"

text \<open>
  One round of the loop over the column types: \<^verbatim>\<open>curType\<close> keeps its value when the stream
  has failed, a type name that is not in the map is \<^verbatim>\<open>VOIDA\<close>, and the size of a string column
  is an uninitialised variable when nothing is left to extract.
\<close>

fun read_columns :: "string list \<Rightarrow> string \<Rightarrow> nat \<Rightarrow> istr \<Rightarrow> exn + (Column list \<times> istr)" where
  "read_columns [] curType off s = Inr ([], s)"
| "read_columns (name # names) curType off s =
     (let (_, curType, s) = read_str s curType in
      if curType \<noteq> ''STRING'' then
        (let ty = (case stringToType curType of Some t \<Rightarrow> t | None \<Rightarrow> VOIDA); sz = type_sizes ty in
         bindE (read_columns names curType (size_add off sz) s) (\<lambda>(cs, s).
           Inr (\<lparr>col_name = name, offset = off, col_type = ty, col_size = sz\<rparr> # cs, s)))
      else if \<not> stream_good s \<or> dropWhile is_space (remaining s) = [] then
        Inl (Undefined ''uninitialised string_size'')
      else
        (let (sz, s) = read_size s 0 in
         bindE (read_columns names curType (size_add off sz) s) (\<lambda>(cs, s).
           Inr (\<lparr>col_name = name, offset = off, col_type = STRING, col_size = sz\<rparr> # cs, s))))"

text \<open>\<^verbatim>\<open>unordered_map::insert\<close> keeps the first entry of a name.\<close>

definition columns_map_of :: "Column list \<Rightarrow> string \<rightharpoonup> nat" where
  "columns_map_of cs = map_of (zip (map col_name cs) [0..<length cs])"

definition load_info :: "istr \<Rightarrow> exn + (TabbleInfo \<times> istr)" where
  "load_info s0 =
     (let (len, s) = read_size s0 0; (n, s) = read_size s 0; (names, s) = read_names n s in
      bindE (read_columns names [] 1 s) (\<lambda>(cs, s).
        Inr (\<lparr>info_lineLength = len, columnsNumber = n, columns = cs, columns_map = columns_map_of cs\<rparr>, s)))"

definition loadFile :: "(InfoLoader, bool) act" where
  "loadFile l = (case load_info (in_stream l) of
       Inl e \<Rightarrow> (Inl e, l)
     | Inr (info, s) \<Rightarrow> (Inr True, l\<lparr>in_stream := s, loaded_info := Some info\<rparr>))"

text \<open>The constructor, given the contents of the info file if it can be opened.\<close>

definition new_InfoLoader :: "string option \<Rightarrow> exn + InfoLoader" where
  "new_InfoLoader contents = (case contents of
       None \<Rightarrow> Inl (RuntimeError ''Can not open the info file'')
     | Some txt \<Rightarrow> (case loadFile \<lparr>in_stream = istr_of txt, loaded_info = None\<rparr> of
           (Inl e, _) \<Rightarrow> Inl e | (Inr _, l) \<Rightarrow> Inr l))"

definition loadNewInfo :: "(InfoLoader, TabbleInfo option) act" where
  "loadNewInfo = bnd loadFile (\<lambda>_. reads (\<lambda>l. Inr (loaded_info l)))"

definition getCurrentInfo :: "InfoLoader \<Rightarrow> TabbleInfo option" where
  "getCurrentInfo l = loaded_info l"

section \<open>Table definitions\<close>

text \<open>A name that \<^verbatim>\<open>createTable\<close> and \<^verbatim>\<open>createDataBase\<close> accept.\<close>

definition forbidden_chars :: string where
  "forbidden_chars = [CHR ''/'', CHR 0x5C, CHR ''?'', CHR ''%'', CHR ''*'', CHR '':'', CHR ''|'', CHR 0x22, CHR ''<'', CHR ''>'']"

definition valid_name :: "string \<Rightarrow> bool" where
  "valid_name s \<longleftrightarrow> s \<noteq> [] \<and> (\<forall>c\<in>set s. c \<notin> set forbidden_chars)"

definition parse_column_type :: "string \<Rightarrow> exn + (Type \<times> nat)" where
  "parse_column_type ty =
     (if starts_with ''STRING['' ty \<and> last ty = CHR '']''
      then bindE (stoul (take (length ty - 8) (drop 7 ty))) (\<lambda>n. Inr (STRING, n))
      else case stringToType ty of
          None \<Rightarrow> Inl (IncorrectInputException (''Unknown type: '' @ ty))
        | Some t \<Rightarrow> Inr (t, type_sizes t))"

text \<open>The loop \<^verbatim>\<open>while (stream >> col_name >> col_type)\<close>.\<close>

function read_definitions :: "istr \<Rightarrow> string \<Rightarrow> string \<Rightarrow> (string \<times> Type \<times> nat) list \<Rightarrow> exn + (string \<times> Type \<times> nat) list" where
  "read_definitions s name ty acc =
     (case read_str s name of (ok, name', s1) \<Rightarrow>
        case read_str s1 ty of (ok', ty', s2) \<Rightarrow>
          if \<not> ok \<or> \<not> ok' then Inr acc
          else bindE (parse_column_type ty') (\<lambda>tz. read_definitions s2 name' ty' (acc @ [(name', tz)])))"
  by pat_completeness auto
termination
  by (relation "measure (\<lambda>(s, name, ty, acc). length (remaining s))") (auto dest: read_str_decreases(2))

declare read_definitions.simps [simp del]

text \<open>\<^verbatim>\<open>sizeof(bool)\<close> and the column sizes; the factor \<^verbatim>\<open>3/2\<close> is the integer 1.\<close>

definition line_length :: "nat list \<Rightarrow> nat" where
  "line_length sizes = size_mul (foldl size_add 1 sizes) (3 div 2)"

definition parse_definition :: "(string \<Rightarrow> bool) \<Rightarrow> istr \<Rightarrow> exn + (string \<times> (string \<times> Type \<times> nat) list)" where
  "parse_definition existing s0 =
     (let (_, table_name, s) = read_str s0 [] in
      if \<not> valid_name table_name then Inl (IncorrectInputException (''Invalid table name: '' @ table_name))
      else if existing table_name then
        Inl (IncorrectInputException (''Table '' @ [CHR 0x27] @ table_name @ [CHR 0x27] @ '' already exists''))
      else bindE (read_definitions s [] [] []) (\<lambda>defs.
        if defs = [] then Inl (IncorrectInputException (''No columns specified for table: '' @ table_name))
        else Inr (table_name, defs)))"

abbreviation NL :: char where "NL \<equiv> CHR 0x0A"

definition type_text :: "Type \<times> nat \<Rightarrow> string" where
  "type_text tz = typeToString (fst tz) @ (if fst tz = STRING then CHR '' '' # to_string (snd tz) else [])"

text \<open>A blank after each name but the last, which ends its line.\<close>

fun names_text :: "string list \<Rightarrow> string" where
  "names_text [] = []"
| "names_text [n] = n @ [NL]"
| "names_text (n # m # ns) = n @ '' '' @ names_text (m # ns)"

fun types_text :: "nat \<Rightarrow> (Type \<times> nat) list \<Rightarrow> string" where
  "types_text i [] = []"
| "types_text i (tz # tzs) = (if i > 0 then '' '' else []) @ type_text tz @ types_text (Suc i) tzs"

definition info_text :: "(string \<times> Type \<times> nat) list \<Rightarrow> string" where
  "info_text defs =
     to_string (line_length (map (snd \<circ> snd) defs)) @ [NL] @ to_string (length defs) @ [NL] @
     names_text (map fst defs) @ types_text 0 (map snd defs) @ [NL]"

section \<open>Layout of the loaded table\<close>

text \<open>The columns of a definition, laid out one after the other from an offset.\<close>

fun layout :: "nat \<Rightarrow> (string \<times> Type \<times> nat) list \<Rightarrow> Column list" where
  "layout off [] = []"
| "layout off ((n, t, z) # ds) = \<lparr>col_name = n, offset = off, col_type = t, col_size = z\<rparr> # layout (off + z) ds"

text \<open>
  A table whose rows the engine can store: a flag byte, then the columns in order, each of a type
  with a representation of its size.
\<close>

definition wf_column :: "Column \<Rightarrow> bool" where
  "wf_column c \<longleftrightarrow> col_type c \<noteq> VOIDA \<and>
     (if col_type c = STRING then 0 < col_size c else col_size c = type_sizes (col_type c))"

definition before :: "Column \<Rightarrow> Column \<Rightarrow> bool" where
  "before c d \<longleftrightarrow> offset c + col_size c \<le> offset d"

definition wf_info :: "TabbleInfo \<Rightarrow> bool" where
  "wf_info info \<longleftrightarrow> columns info \<noteq> [] \<and> (\<forall>c\<in>set (columns info). wf_column c \<and> 1 \<le> offset c \<and>
     offset c + col_size c \<le> info_lineLength info) \<and> sorted_wrt before (columns info) \<and>
     columns_map info = columns_map_of (columns info) \<and> columnsNumber info = length (columns info)"

definition total_size :: "(string \<times> Type \<times> nat) list \<Rightarrow> nat" where
  "total_size ds = sum_list (map (snd \<circ> snd) ds)"

lemma length_layout [simp]: "length (layout off ds) = length ds"
  by (induction ds arbitrary: off) auto

lemma layout_names [simp]: "map col_name (layout off ds) = map fst ds"
  by (induction ds arbitrary: off) auto

lemma layout_bounds: "c \<in> set (layout off ds) \<Longrightarrow> off \<le> offset c \<and> offset c + col_size c \<le> off + total_size ds"
proof (induction ds arbitrary: off)
  case (Cons d ds)
  obtain n t z where d: "d = (n, t, z)" by (cases d) auto
  show ?case using Cons.prems Cons.IH [of "off + z"] by (auto simp: d total_size_def)
qed simp

lemma layout_types: "c \<in> set (layout off ds) \<Longrightarrow> \<exists>d\<in>set ds. col_type c = fst (snd d) \<and> col_size c = snd (snd d)"
proof (induction ds arbitrary: off)
  case (Cons d ds)
  obtain n t z where d: "d = (n, t, z)" by (cases d) auto
  show ?case using Cons.prems Cons.IH [of "off + z"] by (auto simp: d)
qed simp

lemma sorted_layout: "sorted_wrt before (layout off ds)"
proof (induction ds arbitrary: off)
  case (Cons d ds)
  obtain n t z where d: "d = (n, t, z)" by (cases d) auto
  have "\<forall>c\<in>set (layout (off + z) ds). off + z \<le> offset c"
    using layout_bounds [of _ "off + z" ds] by blast
  with Cons.IH [of "off + z"] show ?case by (simp add: d before_def)
qed simp

lemma foldl_size_add: "a + sum_list zs < SIZE_MOD \<Longrightarrow> foldl size_add a zs = a + sum_list zs"
  by (induction zs arbitrary: a) (simp_all add: size_add_small)

lemma line_length_small: "1 + total_size ds < SIZE_MOD \<Longrightarrow> line_length (map (snd \<circ> snd) ds) = 1 + total_size ds"
  using foldl_size_add [of 1 "map (snd \<circ> snd) ds"]
  by (simp add: line_length_def total_size_def size_mul_small)

section \<open>The info file is read back\<close>

text \<open>
  The text of an info file is a sequence of words, each after one separator; \<open>sepd\<close> makes that
  shape explicit.
\<close>

definition sepd :: "(char \<times> string) list \<Rightarrow> string" where
  "sepd ts = concat (map (\<lambda>(c, t). c # t) ts)"

definition seps :: "string list \<Rightarrow> (char \<times> string) list" where
  "seps ts = (case ts of [] \<Rightarrow> [] | t # us \<Rightarrow> (NL, t) # map (\<lambda>u. (CHR '' '', u)) us)"

definition seps_ok :: "(char \<times> string) list \<Rightarrow> bool" where
  "seps_ok ts \<longleftrightarrow> (\<forall>(c, t)\<in>set ts. is_space c \<and> word_tok t)"

lemma sepd_simps [simp]: "sepd [] = []" "sepd ((c, t) # ts) = c # t @ sepd ts"
  by (simp_all add: sepd_def)

lemma sepd_append: "sepd (xs @ ys) = sepd xs @ sepd ys"
  by (simp add: sepd_def)

lemma is_space_NL [simp]: "is_space NL"
  by (simp add: is_space_def)

lemma seps_ok_simps [simp]:
  "seps_ok []" "seps_ok ((c, t) # ts) \<longleftrightarrow> is_space c \<and> word_tok t \<and> seps_ok ts"
  "seps_ok (us @ ts) \<longleftrightarrow> seps_ok us \<and> seps_ok ts"
  by (auto simp: seps_ok_def)

lemma ends_word_sepd: "seps_ok ts \<Longrightarrow> ends_word (sepd ts @ [NL])"
  by (cases ts) (auto simp: seps_ok_def ends_word_def)

lemma read_str_sepd [stream_simps]:
  assumes "seps_ok ((c, t) # ts)"
  shows "read_str (istr_of (sepd ((c, t) # ts) @ [NL])) buf = (True, t, istr_of (sepd ts @ [NL]))"
proof -
  have "word_tok t" "is_space c" "seps_ok ts" using assms by (auto simp: seps_ok_def)
  then show ?thesis by (simp add: read_str_next ends_word_sepd)
qed

lemma read_size_sepd [stream_simps]:
  assumes "is_space c" and "seps_ok ts" and "n < SIZE_MOD"
  shows "read_size (istr_of (sepd ((c, to_string n) # ts) @ [NL])) k = (n, istr_of (sepd ts @ [NL]))"
  using assms by (simp add: read_size_next ends_word_sepd)

lemma read_names_sepd:
  assumes "seps_ok (us @ ts)"
  shows "read_names (length us) (istr_of (sepd (us @ ts) @ [NL])) = (map snd us, istr_of (sepd ts @ [NL]))"
  using assms
proof (induction us)
  case Nil
  then show ?case by simp
next
  case (Cons u us)
  obtain c t where u: "u = (c, t)" by force
  have "read_str (istr_of (sepd ((c, t) # us @ ts) @ [NL])) [] = (True, t, istr_of (sepd (us @ ts) @ [NL]))"
    using Cons.prems by (intro read_str_sepd) (simp add: u)
  moreover have "seps_ok (us @ ts)" using Cons.prems by (simp add: seps_ok_def)
  ultimately show ?case using Cons.IH by (simp add: u del: sepd_simps)
qed

text \<open>The words of the type line, with an arbitrary separator before the first.\<close>

fun type_words :: "char \<Rightarrow> (Type \<times> nat) list \<Rightarrow> (char \<times> string) list" where
  "type_words c [] = []"
| "type_words c ((t, z) # tzs) =
     (c, typeToString t) # (if t = STRING then [(CHR '' '', to_string z)] else []) @ type_words (CHR '' '') tzs"

lemma word_tok_typeToString [simp]: "word_tok (typeToString t)"
  by (cases t) (simp_all add: word_tok_def is_space_def)

lemma typeToString_STRING: "typeToString t = ''STRING'' \<longleftrightarrow> t = STRING"
  by (cases t) simp_all

lemma seps_ok_type_words: "is_space c \<Longrightarrow> seps_ok (type_words c tzs)"
  by (induction c tzs rule: type_words.induct) (auto simp: seps_ok_def)

definition storable :: "(string \<times> Type \<times> nat) list \<Rightarrow> bool" where
  "storable ds \<longleftrightarrow> (\<forall>(n, t, z)\<in>set ds. t \<noteq> STRING \<longrightarrow> z = type_sizes t)"

lemma read_columns_words:
  assumes "storable ds" and "is_space c" and "off + total_size ds < SIZE_MOD"
  shows "\<exists>s'. read_columns (map fst ds) cur off (istr_of (sepd (type_words c (map snd ds)) @ [NL])) =
         Inr (layout off ds, s')"
  using assms
proof (induction ds arbitrary: c cur off)
  case Nil
  then show ?case by simp
next
  case (Cons d ds)
  obtain n t z where d: "d = (n, t, z)" by (cases d) auto
  let ?rest = "type_words (CHR '' '') (map snd ds)"
  have rest: "seps_ok ?rest" by (simp add: seps_ok_type_words)
  have z: "off + z < SIZE_MOD" "z < SIZE_MOD" and add: "size_add off z = off + z"
    using Cons.prems(3) by (simp_all add: d total_size_def size_add_small)
  have "storable ds" "off + z + total_size ds < SIZE_MOD"
    using Cons.prems by (simp_all add: storable_def d total_size_def)
  then obtain s' where IH: "read_columns (map fst ds) (typeToString t) (off + z) (istr_of (sepd ?rest @ [NL])) =
      Inr (layout (off + z) ds, s')"
    using Cons.IH [of "CHR '' ''" "off + z" "typeToString t"] by auto
  show ?case
  proof (cases "t = STRING")
    case True
    have "word_tok ''STRING''" using word_tok_typeToString [of STRING] by simp
    then have "read_str (istr_of (sepd ((c, ''STRING'') # (CHR '' '', to_string z) # ?rest) @ [NL])) cur =
          (True, ''STRING'', istr_of (sepd ((CHR '' '', to_string z) # ?rest) @ [NL]))"
      using Cons.prems(2) rest by (intro read_str_sepd) simp
    moreover have "read_size (istr_of (sepd ((CHR '' '', to_string z) # ?rest) @ [NL])) 0 = (z, istr_of (sepd ?rest @ [NL]))"
      using rest z by (intro read_size_sepd) simp_all
    moreover have "dropWhile is_space (to_string z @ sepd ?rest @ [NL]) \<noteq> []"
      by (simp add: dropWhile_space_word)
    ultimately show ?thesis using True IH add
      by (simp add: d istr_of_def)
  next
    case False
    then have "z = type_sizes t" using Cons.prems(1) by (simp add: storable_def d)
    moreover have "read_str (istr_of (sepd ((c, typeToString t) # ?rest) @ [NL])) cur =
          (True, typeToString t, istr_of (sepd ?rest @ [NL]))"
      using Cons.prems(2) rest by (intro read_str_sepd) simp
    ultimately show ?thesis using False IH add
      by (simp add: d typeToString_STRING Let_def)
  qed
qed

lemma NL_names_text: "ns \<noteq> [] \<Longrightarrow> NL # names_text ns = sepd (seps ns) @ [NL]"
proof -
  have "names_text (n # ns) = n @ sepd (map (\<lambda>u. (CHR '' '', u)) ns) @ [NL]" for n ns
    by (induction ns arbitrary: n) simp_all
  then show "ns \<noteq> [] \<Longrightarrow> ?thesis" by (cases ns) (simp_all add: seps_def)
qed

lemma types_text_Suc: "types_text (Suc i) tzs = sepd (type_words (CHR '' '') tzs)"
  by (induction tzs arbitrary: i) (auto simp: type_text_def)

lemma NL_types_text: "tzs \<noteq> [] \<Longrightarrow> NL # types_text 0 tzs = sepd (type_words NL tzs)"
  by (cases tzs) (auto simp: type_text_def types_text_Suc)

lemma info_text_sepd:
  assumes "ds \<noteq> []"
  shows "info_text ds = to_string (line_length (map (snd \<circ> snd) ds)) @
     sepd ((NL, to_string (length ds)) # seps (map fst ds) @ type_words NL (map snd ds)) @ [NL]"
proof -
  have "[NL] @ names_text (map fst ds) @ types_text 0 (map snd ds) @ [NL] =
        sepd (seps (map fst ds)) @ (NL # types_text 0 (map snd ds)) @ [NL]"
    using NL_names_text [of "map fst ds"] assms by simp
  also have "\<dots> = sepd (seps (map fst ds) @ type_words NL (map snd ds)) @ [NL]"
    using NL_types_text [of "map snd ds"] assms by (simp add: sepd_append)
  finally show ?thesis unfolding info_text_def by simp
qed

lemma seps_ok_seps: "\<forall>n\<in>set ns. word_tok n \<Longrightarrow> seps_ok (seps ns)"
  by (cases ns) (auto simp: seps_def seps_ok_def)

lemma map_snd_seps [simp]: "map snd (seps ns) = ns"
  by (cases ns) (simp_all add: seps_def comp_def)

lemma length_seps [simp]: "length (seps ns) = length ns"
  by (cases ns) (simp_all add: seps_def)

text \<open>What \<^verbatim>\<open>createTable\<close> has read from a command can be written.\<close>

definition wf_definition :: "(string \<times> Type \<times> nat) list \<Rightarrow> bool" where
  "wf_definition ds \<longleftrightarrow> ds \<noteq> [] \<and> (\<forall>d\<in>set ds. word_tok (fst d)) \<and> storable ds \<and>
     1 + total_size ds < SIZE_MOD \<and> length ds < SIZE_MOD"

definition info_of :: "(string \<times> Type \<times> nat) list \<Rightarrow> TabbleInfo" where
  "info_of ds = \<lparr>info_lineLength = 1 + total_size ds, columnsNumber = length ds,
     columns = layout 1 ds, columns_map = columns_map_of (layout 1 ds)\<rparr>"

lemma load_info_of_text:
  assumes "wf_definition ds"
  shows "\<exists>s'. load_info (istr_of (info_text ds)) = Inr (info_of ds, s')"
proof -
  let ?ts = "seps (map fst ds) @ type_words NL (map snd ds)"
  have ds: "ds \<noteq> []" and st: "storable ds" and sz: "1 + total_size ds < SIZE_MOD" "length ds < SIZE_MOD"
    and ok: "seps_ok (seps (map fst ds))" "seps_ok (type_words NL (map snd ds))"
    using assms by (auto simp: wf_definition_def seps_ok_type_words intro!: seps_ok_seps)
  have len: "read_size (istr_of (info_text ds)) 0 =
      (1 + total_size ds, istr_of (sepd ((NL, to_string (length ds)) # ?ts) @ [NL]))"
    unfolding info_text_sepd [OF ds] line_length_small [OF sz(1)]
    by (rule read_size_first) (use sz ok in \<open>simp_all add: ends_word_sepd del: sepd_simps\<close>)
  have num: "read_size (istr_of (sepd ((NL, to_string (length ds)) # ?ts) @ [NL])) 0 =
      (length ds, istr_of (sepd ?ts @ [NL]))"
    by (rule read_size_sepd) (use sz ok in simp_all)
  have names: "read_names (length ds) (istr_of (sepd ?ts @ [NL])) =
      (map fst ds, istr_of (sepd (type_words NL (map snd ds)) @ [NL]))"
    using read_names_sepd [of "seps (map fst ds)" "type_words NL (map snd ds)"] ok by simp
  obtain s' where "read_columns (map fst ds) [] 1 (istr_of (sepd (type_words NL (map snd ds)) @ [NL])) =
      Inr (layout 1 ds, s')"
    using read_columns_words [OF st is_space_NL sz(1), of "[]"] by auto
  then show ?thesis
    by (simp add: load_info_def len num names info_of_def del: sepd_simps)
qed

lemma wf_info_of:
  assumes "wf_definition ds" and "\<forall>(n, t, z)\<in>set ds. t \<noteq> VOIDA \<and> (t = STRING \<longrightarrow> 0 < z)"
  shows "wf_info (info_of ds)"
proof -
  have "wf_column c \<and> 1 \<le> offset c \<and> offset c + col_size c \<le> 1 + total_size ds" if "c \<in> set (layout 1 ds)" for c
    using layout_bounds [OF that] layout_types [OF that] assms
    by (auto simp: wf_column_def wf_definition_def storable_def split: prod.splits)
  moreover have "layout 1 ds \<noteq> []"
    using assms(1) length_layout [of 1 ds] by (auto simp: wf_definition_def simp del: length_layout)
  ultimately show ?thesis by (simp add: wf_info_def info_of_def sorted_layout)
qed

text \<open>
  (C27) The info file that \<^verbatim>\<open>createTable\<close> writes is loaded back by \<^verbatim>\<open>InfoLoader\<close> as
  the same table: the same columns with their types and sizes, the first at offset 1 (after the
  activity flag) and each next one right after the one before, in a line that holds them all.
\<close>

theorem info_file_roundtrip:
  assumes "wf_definition ds"
  shows "map_sum id loaded_info (new_InfoLoader (Some (info_text ds))) = Inr (Some (info_of ds))"
  using load_info_of_text [OF assms] by (auto simp: new_InfoLoader_def loadFile_def)

theorem info_file_roundtrip_witness:
  "map_sum id loaded_info (new_InfoLoader (Some (info_text [(''name'', STRING, 32), (''age'', INT32, 4)]))) =
   Inr (Some (info_of [(''name'', STRING, 32), (''age'', INT32, 4)]))"
  by (rule info_file_roundtrip)
    (simp add: wf_definition_def storable_def total_size_def word_tok_def is_space_def)

end
