(* ===== verification/Table.thy ===== *)
theory Table
  imports Memory_Map Info_Loader
begin

text \<open>
  \<^verbatim>\<open>src/src/files/Tabble.h\<close>: a table, its rows in a memory map, the stack of free line
  numbers, the first line number never used (\<^verbatim>\<open>freeId\<close>) and the count of active rows.
  The mutex and the atomics are for threads; the operations here are those of one thread, and the
  concurrency theory treats \<^verbatim>\<open>allocateId\<close> step by step.

  \<open>rows\<close> abstracts a table to a finite map from row numbers to rows. The locale
  \<open>row_table\<close> is the contract the executor relies on, interpreted on \<open>insert\<close> and
  \<open>erase\<close> of this theory.
\<close>

section \<open>The class\<close>

record table =
  baseName :: string
  info :: TabbleInfo
  storage :: memory_map
  stack_freeId :: "nat list"
  freeId :: nat
  activePlaces :: nat

definition makeStorageName :: "string \<Rightarrow> string" where
  "makeStorageName base = base @ ''_storage.db''"

definition makeLoaderName :: "string \<Rightarrow> string" where
  "makeLoaderName base = base @ ''_info.db''"

definition on_storage :: "(memory_map, 'a) act \<Rightarrow> (table, 'a) act" where
  "on_storage = zoom storage (\<lambda>m t. t\<lparr>storage := m\<rparr>)"

text \<open>The loop that looks for the first line that is not active.\<close>

function first_hole :: "memory_map \<Rightarrow> nat \<Rightarrow> nat \<Rightarrow> exn + nat" where
  "first_hole m ind maxLine =
     (if ind < maxLine
      then bindE (isActive m ind) (\<lambda>a. if a then first_hole m (Suc ind) maxLine else Inr ind)
      else Inr ind)"
  by pat_completeness auto
termination
  by (relation "measure (\<lambda>(m, ind, maxLine). maxLine - ind)") auto

declare first_hole.simps [simp del]

text \<open>The loop that sets \<^verbatim>\<open>freeId\<close> and counts, and the loop that fills the stack.\<close>

fun count_active :: "memory_map \<Rightarrow> nat list \<Rightarrow> nat \<times> nat \<Rightarrow> exn + nat \<times> nat" where
  "count_active m [] fa = Inr fa"
| "count_active m (i # is) fa =
     bindE (isActive m i) (\<lambda>a. count_active m is (if a then (i + 1, size_add (snd fa) 1) else fa))"

fun collect_holes :: "memory_map \<Rightarrow> nat list \<Rightarrow> nat list \<Rightarrow> exn + nat list" where
  "collect_holes m [] st = Inr st"
| "collect_holes m (i # is) st =
     bindE (isActive m i) (\<lambda>a. collect_holes m is (if a then st else i # st))"

definition analyzeHoles :: "(table, unit) act" where
  "analyzeHoles =
     bnd (reads (\<lambda>t. getMaxLines (storage t))) (\<lambda>maxLine.
     bnd (reads (\<lambda>t. first_hole (storage t) 0 maxLine)) (\<lambda>ind.
     bnd (if ind = maxLine then on_storage (bnd expand (\<lambda>_. ret ())) else ret ()) (\<lambda>_.
     bnd (reads (\<lambda>t. getMaxLines (storage t))) (\<lambda>maxLine.
     bnd (reads (\<lambda>t. count_active (storage t) [0..<maxLine] (freeId t, activePlaces t))) (\<lambda>(f, a).
     bnd (modify (\<lambda>t. t\<lparr>freeId := f, activePlaces := a\<rparr>)) (\<lambda>_.
     bnd (reads (\<lambda>t. collect_holes (storage t) [0..<freeId t] (stack_freeId t))) (\<lambda>st.
     modify (\<lambda>t. t\<lparr>stack_freeId := st\<rparr>))))))))"

definition pushInStack :: "nat \<Rightarrow> (table, unit) act" where
  "pushInStack ind = modify (\<lambda>t. t\<lparr>stack_freeId := ind # stack_freeId t\<rparr>)"

definition allocateId :: "(table, nat) act" where
  "allocateId t0 =
     (case stack_freeId t0 of
        i # st \<Rightarrow> (Inr i, t0\<lparr>stack_freeId := st\<rparr>)
      | [] \<Rightarrow>
          (let cur = freeId t0 in
           bnd (reads (\<lambda>t. getMaxLines (storage t))) (\<lambda>maxLines.
           bnd (if maxLines \<le> cur then on_storage (bnd expand (\<lambda>_. ret ())) else ret ()) (\<lambda>_.
           bnd (modify (\<lambda>t. t\<lparr>activePlaces := size_add (activePlaces t) 1, freeId := size_add (freeId t) 1\<rparr>)) (\<lambda>_.
           ret cur))) t0))"

text \<open>
  The constructor, given the contents of the info file and of the storage file (\<open>None\<close>: cannot
  be opened) and the limits of the file system.
\<close>

definition new_Tabble :: "string \<Rightarrow> string option \<Rightarrow> char list option \<Rightarrow> nat \<Rightarrow> nat \<Rightarrow> exn + table" where
  "new_Tabble base info_file storage_file maxf maxm =
     bindE (new_InfoLoader info_file) (\<lambda>loader.
       case loaded_info loader of
         None \<Rightarrow> Inl (Undefined ''null info'')
       | Some ti \<Rightarrow>
           (case openFile (makeStorageName base) storage_file (new_MemoryMap (info_lineLength ti) maxf maxm) of
              (Inl e, _) \<Rightarrow> Inl e
            | (Inr _, m) \<Rightarrow>
                (case analyzeHoles \<lparr>baseName = base, info = ti, storage = m, stack_freeId = [],
                                     freeId = 0, activePlaces = 0\<rparr> of
                   (Inl e, _) \<Rightarrow> Inl e | (Inr _, t) \<Rightarrow> Inr t)))"

text \<open>The loop of \<^verbatim>\<open>update\<close>; \<^verbatim>\<open>values[i+indexValues]\<close> is unchecked.\<close>

fun update_loop :: "variant_types list \<Rightarrow> Column list \<Rightarrow> nat \<Rightarrow> nat \<Rightarrow> (table, unit) act" where
  "update_loop values [] cur k = ret ()"
| "update_loop values (c # cs) cur k =
     (if k < length values
      then bnd (on_storage (writeInfo cur (offset c) (values ! k))) (\<lambda>_. update_loop values cs cur (Suc k))
      else throw (Undefined ''values: index out of range''))"

definition update :: "variant_types list \<Rightarrow> Column list \<Rightarrow> nat \<Rightarrow> nat \<Rightarrow> (table, unit) act" where
  "update values cols cur indexValues = update_loop values cols cur indexValues"

definition insert_row :: "variant_types list \<Rightarrow> Column list \<Rightarrow> nat \<Rightarrow> (table, nat) act" where
  "insert_row values cols index =
     bnd allocateId (\<lambda>cur.
     bnd (on_storage (activate cur)) (\<lambda>_.
     bnd (update values cols cur index) (\<lambda>_.
     bnd (modify (\<lambda>t. t\<lparr>activePlaces := size_add (activePlaces t) 1\<rparr>)) (\<lambda>_.
     ret cur))))"

definition erase :: "nat \<Rightarrow> (table, nat) act" where
  "erase line =
     bnd (on_storage (deactivate line)) (\<lambda>_.
     bnd (pushInStack line) (\<lambda>_.
     bnd (modify (\<lambda>t. t\<lparr>activePlaces := size_sub (activePlaces t) 1\<rparr>)) (\<lambda>_.
     ret line)))"

definition getActivePlaces :: "table \<Rightarrow> nat" where
  "getActivePlaces t = activePlaces t"

definition getMaxActiveLine :: "table \<Rightarrow> nat" where
  "getMaxActiveLine t = freeId t"

definition decode_number :: "Type \<Rightarrow> char list \<Rightarrow> exn + variant_types" where
  "decode_number ty bs = (case ty of
       INT32 \<Rightarrow> bindE (dec_int32 bs) (\<lambda>v. Inr (VInt32 v))
     | INT64 \<Rightarrow> bindE (dec_int64 bs) (\<lambda>v. Inr (VInt64 v))
     | DOUBLE \<Rightarrow> bindE (dec_int64 bs) (\<lambda>v. Inr (VDouble v))
     | FLOAT \<Rightarrow> bindE (dec_int32 bs) (\<lambda>v. Inr (VFloat v))
     | BOOL \<Rightarrow> bindE (dec_bool bs) (\<lambda>v. Inr (VBool v))
     | _ \<Rightarrow> Inl (Undefined ''readNumber: no return''))"

text \<open>\<^verbatim>\<open>Tabble::readNumber\<close>; for a type without a case the function ends without a return.\<close>

definition table_readNumber :: "table \<Rightarrow> nat \<Rightarrow> nat \<Rightarrow> Type \<Rightarrow> exn + variant_types" where
  "table_readNumber t line off ty =
     (if ty \<in> {INT32, INT64, DOUBLE, FLOAT, BOOL}
      then bindE (readNumber_bytes (storage t) line off (type_sizes ty)) (decode_number ty)
      else Inl (Undefined ''readNumber: no return''))"

definition table_readText :: "table \<Rightarrow> nat \<Rightarrow> nat \<Rightarrow> nat \<Rightarrow> exn + string" where
  "table_readText t line off sz =
     (if sz = 0 then readText (storage t) line off 128 else readText (storage t) line off sz)"

section \<open>The abstract table\<close>

definition active :: "memory_map \<Rightarrow> nat set" where
  "active m = {i. i < max_line m \<and> cell m i 0 1 = enc_bool True}"

definition flags_ok :: "memory_map \<Rightarrow> bool" where
  "flags_ok m \<longleftrightarrow> (\<forall>i<max_line m. \<exists>b. cell m i 0 1 = enc_bool b)"

text \<open>The value a column's bytes stand for.\<close>

definition stored_value :: "Column \<Rightarrow> char list \<Rightarrow> exn + variant_types" where
  "stored_value c bs = (if col_type c = TEXT \<or> col_type c = STRING then Inr (VString (c_str bs))
                        else decode_number (col_type c) bs)"

definition column_value :: "table \<Rightarrow> nat \<Rightarrow> Column \<Rightarrow> exn + variant_types" where
  "column_value t i c = stored_value c (cell (storage t) i (offset c) (col_size c))"

definition row_values :: "table \<Rightarrow> nat \<Rightarrow> exn + variant_types list" where
  "row_values t i = mapE (column_value t i) (columns (info t))"

definition rows :: "table \<Rightarrow> nat \<rightharpoonup> variant_types list" where
  "rows t i = (if i \<in> active (storage t)
               then (case row_values t i of Inr vs \<Rightarrow> Some vs | Inl _ \<Rightarrow> None) else None)"

text \<open>
  The invariant of a table, with the line numbers \<open>S\<close> taken from the free list and not yet
  active: active lines lie below \<^verbatim>\<open>freeId\<close>, the stack holds exactly the other lines below it,
  the count of active places is at least the number of active rows (a row on a fresh line is counted
  twice), and every value of an active row can be read.
\<close>

definition wf_but :: "nat set \<Rightarrow> table \<Rightarrow> bool" where
  "wf_but S t \<longleftrightarrow> wf_map (storage t) \<and> wf_info (info t) \<and>
     lineLength (storage t) = info_lineLength (info t) \<and> flags_ok (storage t) \<and>
     active (storage t) \<subseteq> {..<freeId t} \<and> freeId t \<le> max_line (storage t) \<and>
     distinct (stack_freeId t) \<and> set (stack_freeId t) = {..<freeId t} - active (storage t) - S \<and>
     card (active (storage t)) \<le> activePlaces t \<and>
     activePlaces t \<le> card (active (storage t)) + freeId t \<and>
     (\<forall>i\<in>active (storage t). \<forall>c\<in>set (columns (info t)). \<exists>v. column_value t i c = Inr v)"

definition wf_table :: "table \<Rightarrow> bool" where
  "wf_table t \<longleftrightarrow> wf_but {} t"

text \<open>A value that fills its column, and what is read back from it.\<close>

definition fits :: "Column \<Rightarrow> variant_types \<Rightarrow> bool" where
  "fits c v \<longleftrightarrow> has_type v (col_type c) \<and> length (value_bytes v) = col_size c"

fun as_read :: "variant_types \<Rightarrow> variant_types" where
  "as_read (VString s) = VString (c_str s)"
| "as_read v = v"

text \<open>Room on the volume for \<open>k\<close> more rows: the file at most doubles when it is full.\<close>

definition room :: "table \<Rightarrow> nat \<Rightarrow> bool" where
  "room t k \<longleftrightarrow> (k = 0 \<or> 2 * (freeId t + k) * lineLength (storage t) \<le> max_file (storage t) \<and>
                         2 * (freeId t + k) * lineLength (storage t) \<le> max_map (storage t))"

section \<open>Values in columns\<close>

lemma wf_but_dest:
  assumes "wf_but S t"
  shows "wf_map (storage t)" "wf_info (info t)" "lineLength (storage t) = info_lineLength (info t)"
    "flags_ok (storage t)" "active (storage t) \<subseteq> {..<freeId t}" "freeId t \<le> max_line (storage t)"
    "distinct (stack_freeId t)" "set (stack_freeId t) = {..<freeId t} - active (storage t) - S"
    "card (active (storage t)) \<le> activePlaces t"
    "activePlaces t \<le> card (active (storage t)) + freeId t"
    "\<And>i c. i \<in> active (storage t) \<Longrightarrow> c \<in> set (columns (info t)) \<Longrightarrow> \<exists>v. column_value t i c = Inr v"
  using assms by (simp_all add: wf_but_def)

lemma wf_info_column:
  "wf_info ti \<Longrightarrow> c \<in> set (columns ti) \<Longrightarrow>
   wf_column c \<and> 1 \<le> offset c \<and> offset c + col_size c \<le> info_lineLength ti"
  by (simp add: wf_info_def)

lemma decode_value_bytes:
  assumes "has_type v (col_type c)"
  shows "stored_value c (value_bytes v) = Inr (as_read v)"
  using assms
  by (cases v; cases "col_type c")
    (simp_all add: stored_value_def decode_number_def int32.dec_enc int64.dec_enc bool1.dec_enc)

lemma decodes_unless_bool:
  assumes "wf_column c" and "col_type c \<noteq> BOOL"
  shows "\<exists>v. stored_value c bs = Inr v"
  using assms
  by (cases "col_type c") (simp_all add: stored_value_def decode_number_def dec_int32_def dec_int64_def wf_column_def)

lemma has_type_size:
  assumes "wf_column c" and "has_type v (col_type c)" and "col_type c \<notin> {TEXT, STRING}"
  shows "length (value_bytes v) = col_size c"
  using assms
  by (cases v; cases "col_type c") (simp_all add: wf_column_def int32.width int64.width bool1.width)

section \<open>Writing a line\<close>

text \<open>\<open>m'\<close> is \<open>m\<close> up to the contents of line \<open>l\<close>.\<close>

definition only_line :: "nat \<Rightarrow> memory_map \<Rightarrow> memory_map \<Rightarrow> bool" where
  "only_line l m m' \<longleftrightarrow> wf_map m' \<and> lineLength m' = lineLength m \<and> fileSize m' = fileSize m \<and>
     max_file m' = max_file m \<and> max_map m' = max_map m \<and>
     (\<forall>l' off n. l' \<noteq> l \<longrightarrow> l' < max_line m \<longrightarrow> off + n \<le> lineLength m \<longrightarrow>
        cell m' l' off n = cell m l' off n)"

lemma only_line_max_line: "only_line l m m' \<Longrightarrow> max_line m' = max_line m"
  by (simp add: only_line_def max_line_def)

lemma only_line_trans: "only_line l m m' \<Longrightarrow> only_line l m' m'' \<Longrightarrow> only_line l m m''"
  by (auto simp: only_line_def max_line_def)

lemma only_line_put_cell:
  "wf_map m \<Longrightarrow> l < max_line m \<Longrightarrow> off + length bs \<le> lineLength m \<Longrightarrow>
   only_line l m (put_cell l off bs m)"
  by (simp add: only_line_def wf_put_cell cell_put_cell_other)

lemma only_line_store_fields:
  assumes "wf_map m" and "l < max_line m" and "mm.inside m fs"
  shows "only_line l m (snd (mm.store_fields l fs m))"
  using mm.store_fields_ok [OF assms] mm.store_fields_other [OF assms] assms(1)
  by (simp add: only_line_def)

text \<open>The flags, the active lines and the values of the other lines.\<close>

lemma only_line_flags:
  assumes "only_line l m m'" and "wf_map m" and "flags_ok m" and "\<exists>b. cell m' l 0 1 = enc_bool b"
  shows "flags_ok m'"
  unfolding flags_ok_def
proof (intro allI impI)
  fix i assume i: "i < max_line m'"
  show "\<exists>b. cell m' i 0 1 = enc_bool b"
  proof (cases "i = l")
    case True
    with assms(4) show ?thesis by simp
  next
    case False
    have "0 < lineLength m" using assms(2) by (simp add: wf_map_def)
    with False i assms(1,3) show ?thesis
      by (auto simp: only_line_def flags_ok_def max_line_def)
  qed
qed

lemma only_line_active:
  assumes "only_line l m m'" and "wf_map m" and "l < max_line m"
  shows "active m' = (if cell m' l 0 1 = enc_bool True then insert l (active m) else active m - {l})"
proof -
  have one: "0 + 1 \<le> lineLength m" using assms(2) by (simp add: wf_map_def)
  have "i \<in> active m' \<longleftrightarrow> i \<in> active m" if "i \<noteq> l" for i
  proof (cases "i < max_line m")
    case True
    then have "cell m' i 0 1 = cell m i 0 1" using assms(1) that one by (auto simp: only_line_def)
    then show ?thesis by (simp add: active_def only_line_max_line [OF assms(1)])
  next
    case False
    then show ?thesis by (simp add: active_def only_line_max_line [OF assms(1)])
  qed
  moreover have "l \<in> active m' \<longleftrightarrow> cell m' l 0 1 = enc_bool True"
    using assms(3) by (simp add: active_def only_line_max_line [OF assms(1)])
  ultimately show ?thesis by (intro set_eqI) (metis Diff_iff empty_iff insert_iff)
qed

lemma only_line_value:
  assumes "only_line l (storage t) m" and "wf_info (info t)" and "i \<noteq> l" and "i < max_line (storage t)"
    and "lineLength (storage t) = info_lineLength (info t)" and "c \<in> set (columns (info t))"
    and "storage t' = m"
  shows "column_value t' i c = column_value t i c"
  using assms wf_info_column [OF assms(2,6)] by (simp add: column_value_def only_line_def)

lemma row_values_cong:
  "info t' = info t \<Longrightarrow> (\<And>c. c \<in> set (columns (info t)) \<Longrightarrow> column_value t' i c = column_value t i c) \<Longrightarrow>
   row_values t' i = row_values t i"
proof -
  assume "info t' = info t" and v: "\<And>c. c \<in> set (columns (info t)) \<Longrightarrow> column_value t' i c = column_value t i c"
  have "mapE (column_value t' i) cs = mapE (column_value t i) cs" if "set cs \<subseteq> set (columns (info t))" for cs
    using that v by (induction cs) auto
  then show ?thesis using \<open>info t' = info t\<close> by (simp add: row_values_def)
qed

lemma active_bound: "i \<in> active m \<Longrightarrow> i < max_line m"
  by (simp add: active_def)

lemma finite_active [simp]: "finite (active m)"
  by (rule finite_subset [of _ "{..<max_line m}"]) (auto simp: active_def)

lemma rows_wf:
  assumes "wf_but S t" and "i \<in> active (storage t)"
  shows "\<exists>vs. row_values t i = Inr vs \<and> rows t i = Some vs"
proof -
  have "\<forall>c\<in>set (columns (info t)). \<exists>v. column_value t i c = Inr v"
    using wf_but_dest(11) [OF assms(1,2)] by blast
  then have "\<forall>c\<in>set (columns (info t)). column_value t i c = Inr (projr (column_value t i c))"
    by force
  then have "row_values t i = Inr (map (\<lambda>c. projr (column_value t i c)) (columns (info t)))"
    by (simp add: row_values_def mapE_Inr)
  then show ?thesis using assms(2) by (simp add: rows_def)
qed

lemma dom_rows: "wf_but S t \<Longrightarrow> dom (rows t) = active (storage t)"
  using rows_wf by (fastforce simp: rows_def dom_def split: if_splits)

lemma isActive_flags:
  assumes "wf_map m" and "flags_ok m" and "i < max_line m"
  shows "isActive m i = Inr (i \<in> active m)"
proof -
  obtain b where "cell m i 0 1 = enc_bool b" using assms(2,3) by (auto simp: flags_ok_def)
  moreover have "b \<longleftrightarrow> enc_bool b = enc_bool True" by (metis bool1.enc_inj)
  ultimately show ?thesis using assms(1,3) by (simp add: isActive_wf bool1.dec_enc active_def)
qed

lemma isActive_table:
  "wf_but S t \<Longrightarrow> i < max_line (storage t) \<Longrightarrow> isActive (storage t) i = Inr (i \<in> active (storage t))"
  using wf_but_dest(1,4) [of S t] by (simp add: isActive_flags)

section \<open>The operations on a well-formed table\<close>

lemma on_storage_apply [act_simps]:
  "m (storage t) = (r, s) \<Longrightarrow> on_storage m t = (r, t\<lparr>storage := s\<rparr>)"
  by (simp add: on_storage_def zoom_def)

definition fields_of :: "Column list \<Rightarrow> variant_types list \<Rightarrow> (nat \<times> variant_types) list" where
  "fields_of cs vs = zip (map offset cs) vs"

lemma update_loop_fields:
  assumes "wf_map (storage t)" and "cur < max_line (storage t)" and "k + length cs \<le> length values"
    and "mm.inside (storage t) (fields_of cs (drop k values))"
  shows "update_loop values cs cur k t =
     (Inr (), t\<lparr>storage := snd (mm.store_fields cur (fields_of cs (drop k values)) (storage t))\<rparr>)"
  using assms
proof (induction cs arbitrary: k t)
  case Nil
  then show ?case by (simp add: fields_of_def mm.store_fields_Nil)
next
  case (Cons c cs)
  let ?v = "values ! k" and ?fs = "fields_of cs (drop (Suc k) values)"
  have d: "drop k values = ?v # drop (Suc k) values"
    using Cons.prems(3) by (simp add: Cons_nth_drop_Suc)
  have fs: "fields_of (c # cs) (drop k values) = (offset c, ?v) # ?fs"
    unfolding d by (simp add: fields_of_def)
  have o: "offset c + length (value_bytes ?v) \<le> lineLength (storage t)"
    using Cons.prems(4) by (simp add: fs mm.inside_def)
  let ?m = "put_cell cur (offset c) (value_bytes ?v) (storage t)"
  have w: "writeInfo cur (offset c) ?v (storage t) = (Inr (), ?m)"
    using Cons.prems(1,2) o by (rule writeInfo_wf)
  have "mm.inside ?m ?fs" using Cons.prems(4) by (auto simp: fs mm.inside_def)
  with Cons.IH [of "t\<lparr>storage := ?m\<rparr>" "Suc k"] Cons.prems o
  have "update_loop values cs cur (Suc k) (t\<lparr>storage := ?m\<rparr>) =
        (Inr (), t\<lparr>storage := snd (mm.store_fields cur ?fs ?m)\<rparr>)"
    by (simp add: wf_put_cell)
  moreover have "mm.store_fields cur ((offset c, ?v) # ?fs) (storage t) = mm.store_fields cur ?fs ?m"
    using mm.store_fields_Cons [OF Cons.prems(1,2) o] by (simp add: w)
  ultimately show ?case
    using Cons.prems(3) by (simp add: fs bnd_def on_storage_apply [of _ _ _ ?m] w)
qed

lemma fields_of_member:
  assumes "(o1, v) \<in> set (fields_of cs vs)"
  obtains j where "j < length cs" "j < length vs" "o1 = offset (cs ! j)" "v = vs ! j"
  using assms by (auto simp: fields_of_def in_set_zip)

text \<open>Values that fill the columns of a well-formed table can be written side by side.\<close>

lemma fields_fit:
  assumes "wf_map m" and "wf_info ti" and "lineLength m = info_lineLength ti"
    and "set cs \<subseteq> set (columns ti)" and "list_all2 fits cs vs"
  shows "mm.inside m (fields_of cs vs)"
proof -
  have "o1 + length (value_bytes v) \<le> lineLength m" if ov: "(o1, v) \<in> set (fields_of cs vs)" for o1 v
  proof -
    from ov obtain j where "j < length cs" "j < length vs" "o1 = offset (cs ! j)" "v = vs ! j"
      by (rule fields_of_member)
    moreover from this have "fits (cs ! j) (vs ! j)"
      using assms(5) by (simp add: list_all2_nthD)
    moreover have "cs ! j \<in> set (columns ti)" using assms(4) \<open>j < length cs\<close> by auto
    ultimately show ?thesis
      using wf_info_column [OF assms(2), of "cs ! j"] assms(3) by (simp add: fits_def)
  qed
  then show ?thesis by (auto simp: mm.inside_def)
qed

lemma fields_apart:
  assumes "sorted_wrt before cs" and "list_all2 fits cs vs"
  shows "sorted_wrt mm.apart (fields_of cs vs)"
  using assms(2,1)
proof (induction cs vs rule: list_all2_induct)
  case Nil
  then show ?case by (simp add: fields_of_def)
next
  case (Cons c cs v vs)
  have "mm.apart (offset c, v) f" if "f \<in> set (fields_of cs vs)" for f
  proof -
    obtain o1 w where f: "f = (o1, w)" by force
    with that obtain j where "j < length cs" "o1 = offset (cs ! j)"
      by (auto elim: fields_of_member)
    then show ?thesis using f Cons.prems Cons.hyps(1) by (auto simp: mm.apart_def before_def fits_def)
  qed
  with Cons show ?case by (simp add: fields_of_def)
qed

text \<open>A written field is read back as the value of its column.\<close>

lemma column_value_stored:
  assumes "wf_map m" and "l < max_line m" and "mm.inside m (fields_of cs vs)"
    and "sorted_wrt mm.apart (fields_of cs vs)" and "list_all2 fits cs vs" and "j < length cs"
    and "storage t = snd (mm.store_fields l (fields_of cs vs) m)"
  shows "column_value t l (cs ! j) = Inr (as_read (vs ! j))"
proof -
  have len: "length cs = length vs" and f: "fits (cs ! j) (vs ! j)"
    using assms(5,6) by (auto simp: list_all2_lengthD list_all2_nthD)
  have "(offset (cs ! j), vs ! j) \<in> set (fields_of cs vs)"
    using assms(6) len by (auto simp: fields_of_def in_set_zip intro!: exI [of _ j])
  then have "cell (storage t) l (offset (cs ! j)) (length (value_bytes (vs ! j))) = value_bytes (vs ! j)"
    unfolding assms(7) using assms(1-4) by (intro mm.store_fields_same)
  then show ?thesis
    using f by (simp add: column_value_def fits_def decode_value_bytes)
qed

lemma flag_kept:
  assumes "wf_map m" and "l < max_line m" and "mm.inside m (fields_of cs vs)"
    and "\<forall>c\<in>set cs. 1 \<le> offset c"
  shows "cell (snd (mm.store_fields l (fields_of cs vs) m)) l 0 1 = cell m l 0 1"
  using assms(1-3,2)
proof (rule mm.store_fields_other)
  show "0 + 1 \<le> lineLength m" using assms(1) by (simp add: wf_map_def)
  show "l \<noteq> l \<or> (\<forall>(o1, v)\<in>set (fields_of cs vs). 0 + 1 \<le> o1 \<or> o1 + length (value_bytes v) \<le> 0)"
    using assms(4) by (auto elim!: fields_of_member)
qed

subsection \<open>Replacing the contents of one line\<close>

lemma rows_other_lines:
  assumes "wf_but S t" and "only_line l (storage t) m" and "l < max_line (storage t)"
    and "i \<noteq> l" and "storage t' = m" and "info t' = info t"
  shows "rows t' i = rows t i"
proof (cases "i \<in> active (storage t)")
  case True
  have "column_value t' i c = column_value t i c" if "c \<in> set (columns (info t))" for c
    using assms wf_but_dest [OF assms(1)] that active_bound [OF True] by (intro only_line_value)
  then have "row_values t' i = row_values t i" using assms(6) by (rule row_values_cong [rotated])
  moreover have "i \<in> active m"
    using True assms(4) only_line_active [OF assms(2) wf_but_dest(1) [OF assms(1)] assms(3)] by simp
  ultimately show ?thesis using True assms(5) by (simp add: rows_def)
next
  case False
  then have "i \<notin> active m"
    using assms(4) only_line_active [OF assms(2) wf_but_dest(1) [OF assms(1)] assms(3)] by (simp split: if_splits)
  with False show ?thesis using assms(5) by (simp add: rows_def)
qed

lemma values_readable:
  assumes "wf_but S t" and "only_line l (storage t) m" and "l < max_line (storage t)"
    and "storage t' = m" and "info t' = info t" and "i \<in> active m" and "c \<in> set (columns (info t))"
    and "i = l \<Longrightarrow> \<exists>v. column_value t' l c = Inr v"
  shows "\<exists>v. column_value t' i c = Inr v"
proof (cases "i = l")
  case True
  with assms(8) show ?thesis by simp
next
  case False
  then have i: "i \<in> active (storage t)"
    using assms(6) only_line_active [OF assms(2) wf_but_dest(1) [OF assms(1)] assms(3)] by (simp split: if_splits)
  have "column_value t' i c = column_value t i c"
    using assms wf_but_dest [OF assms(1)] False active_bound [OF i] by (intro only_line_value)
  then show ?thesis using wf_but_dest(11) [OF assms(1) i assms(7)] by simp
qed

text \<open>
  The invariant after line \<open>l\<close> has been rewritten: its flag is a flag, its values can be read if
  it is active, and the stack and the count agree with the new set of active lines.
\<close>

lemma wf_but_line:
  assumes "wf_but S t" and "only_line l (storage t) (storage t')" and "l < freeId t"
    and "info t' = info t" and "freeId t' = freeId t" and "cell (storage t') l 0 1 = enc_bool b"
    and "\<And>c. l \<in> active (storage t') \<Longrightarrow> c \<in> set (columns (info t)) \<Longrightarrow> \<exists>v. column_value t' l c = Inr v"
    and "distinct (stack_freeId t')"
    and "set (stack_freeId t') = {..<freeId t} - active (storage t') - S'"
    and "card (active (storage t')) \<le> activePlaces t'"
    and "activePlaces t' \<le> card (active (storage t')) + freeId t"
  shows "wf_but S' t'"
proof -
  note d = wf_but_dest [OF assms(1)]
  have l: "l < max_line (storage t)" using assms(3) d(6) by simp
  have wf: "wf_map (storage t')" and len: "lineLength (storage t') = info_lineLength (info t)"
    using assms(2) d(3) by (simp_all add: only_line_def)
  have fl: "flags_ok (storage t')" using only_line_flags [OF assms(2) d(1,4)] assms(6) by blast
  have ml: "freeId t \<le> max_line (storage t')"
    using d(6) only_line_max_line [OF assms(2)] by simp
  have act: "active (storage t') \<subseteq> {..<freeId t}"
    using only_line_active [OF assms(2) d(1) l] d(5) assms(3) by (auto split: if_splits)
  have val: "\<forall>i\<in>active (storage t'). \<forall>c\<in>set (columns (info t)). \<exists>v. column_value t' i c = Inr v"
    using values_readable [OF assms(1,2) l refl assms(4)] assms(7) by blast
  show ?thesis
    unfolding wf_but_def assms(4,5) using wf d(2) len fl act ml assms(8-11) val by (intro conjI)
qed

subsection \<open>erase\<close>

lemma enc_bool_distinct [simp]: "enc_bool False \<noteq> enc_bool True" "enc_bool True \<noteq> enc_bool False"
  by (auto dest: bool1.enc_inj)

lemma activePlaces_bound:
  assumes "wf_but S t"
  shows "activePlaces t < SIZE_MOD - 1" "freeId t < SIZE_MOD - 1"
proof -
  have "max_line (storage t) \<le> fileSize (storage t)" by (simp add: max_line_def)
  moreover have "fileSize (storage t) < 2 ^ 63"
    using wf_but_dest(1) [OF assms] by (simp add: wf_map_def)
  moreover have "card (active (storage t)) \<le> freeId t"
    using card_mono [OF _ wf_but_dest(5) [OF assms]] by simp
  ultimately show "activePlaces t < SIZE_MOD - 1" "freeId t < SIZE_MOD - 1"
    using wf_but_dest(6,10) [OF assms] by simp_all
qed

lemma erase_wf:
  assumes "wf_table t" and "i \<in> active (storage t)"
  shows "erase i t = (Inr i, t\<lparr>storage := put_cell i 0 (enc_bool False) (storage t),
           stack_freeId := i # stack_freeId t, activePlaces := activePlaces t - 1\<rparr>)"
proof -
  have wf: "wf_but {} t" using assms(1) by (simp add: wf_table_def)
  have "0 < card (active (storage t))" using assms(2) by (auto simp: card_gt_0_iff)
  then have "0 < activePlaces t" using wf_but_dest(9) [OF wf] by simp
  then have sub: "size_sub (activePlaces t) (Suc 0) = activePlaces t - 1"
    using activePlaces_bound(1) [OF wf] by (simp add: size_sub_small)
  have "deactivate i (storage t) = (Inr (), put_cell i 0 (enc_bool False) (storage t))"
    unfolding deactivate_def
    using wf_but_dest(1) [OF wf] active_bound [OF assms(2)]
    by (intro core_write_wf) (auto simp: bool1.width wf_map_def)
  then show ?thesis
    by (simp add: erase_def bnd_def on_storage_apply pushInStack_def sub)
qed

lemma erase_spec:
  assumes "wf_table t" and "i \<in> active (storage t)"
  shows "\<exists>t'. erase i t = (Inr i, t') \<and> wf_table t' \<and> rows t' = (rows t)(i := None) \<and>
     info t' = info t \<and> freeId t' = freeId t \<and> (\<forall>k. room t k \<longrightarrow> room t' k) \<and>
     active (storage t') = active (storage t) - {i} \<and> only_line i (storage t) (storage t')"
proof -
  have wf: "wf_but {} t" using assms(1) by (simp add: wf_table_def)
  note d = wf_but_dest [OF wf]
  let ?m = "put_cell i 0 (enc_bool False) (storage t)"
  let ?t = "t\<lparr>storage := ?m, stack_freeId := i # stack_freeId t, activePlaces := activePlaces t - 1\<rparr>"
  have i: "i < max_line (storage t)" "i < freeId t" using active_bound assms(2) d(5) by auto
  have fit: "0 + length (enc_bool False) \<le> lineLength (storage t)"
    using d(1) by (auto simp: bool1.width wf_map_def)
  have ol: "only_line i (storage t) ?m" by (rule only_line_put_cell [OF d(1) i(1) fit])
  have flag: "cell ?m i 0 1 = enc_bool False"
    using cell_put_cell_same [OF d(1) i(1) fit] by (simp add: bool1.width)
  have act: "active ?m = active (storage t) - {i}"
    using only_line_active [OF ol d(1) i(1)] by (simp only: flag enc_bool_distinct if_False)
  have card: "card (active ?m) = card (active (storage t)) - 1"
    by (simp add: act assms(2))
  have "i \<notin> set (stack_freeId t)" using d(8) assms(2) by simp
  moreover have "0 < card (active (storage t))" using assms(2) by (auto simp: card_gt_0_iff)
  moreover have "set (i # stack_freeId t) = {..<freeId t} - (active (storage t) - {i})"
    using d(8) i(2) by auto
  ultimately have "wf_but {} ?t"
    using d(7,9,10) i ol card flag by (intro wf_but_line [OF wf, of i ?t False]) (simp_all add: act)
  moreover have "rows ?t = (rows t)(i := None)"
    using rows_other_lines [OF wf ol i(1), of _ ?t] by (auto simp: fun_eq_iff rows_def act)
  ultimately show ?thesis
    using erase_wf [OF assms] ol by (auto simp: wf_table_def act room_def)
qed

subsection \<open>allocateId\<close>

lemma active_grown:
  assumes "wf_map m"
  shows "active (grown m) = active m"
proof -
  have one: "0 + 1 \<le> lineLength m" using assms by (simp add: wf_map_def)
  have "enc_bool True \<noteq> replicate 1 NUL" by (simp add: enc_bool_bytes)
  then have "i \<in> active (grown m) \<longleftrightarrow> i \<in> active m" for i
    using cell_grown [OF assms _ one, of i] cell_grown_new [OF assms _ _ one, of i] max_line_grown(1) [of m]
    by (cases "i < max_line m") (auto simp: active_def)
  then show ?thesis by blast
qed

lemma flags_ok_grown:
  assumes "wf_map m" and "flags_ok m"
  shows "flags_ok (grown m)"
  unfolding flags_ok_def
proof (intro allI impI)
  fix i assume i: "i < max_line (grown m)"
  have one: "0 + 1 \<le> lineLength m" using assms(1) by (simp add: wf_map_def)
  have no: "replicate 1 NUL = enc_bool False" by (simp add: enc_bool_bytes)
  show "\<exists>b. cell (grown m) i 0 1 = enc_bool b"
  proof (cases "i < max_line m")
    case True
    then show ?thesis using assms(2) cell_grown [OF assms(1) True one] by (auto simp: flags_ok_def)
  next
    case False
    then show ?thesis using cell_grown_new [OF assms(1) _ i one] no by auto
  qed
qed

lemma column_value_grown:
  assumes "wf_map (storage t)" and "wf_info (info t)" and "i < max_line (storage t)"
    and "lineLength (storage t) = info_lineLength (info t)" and "c \<in> set (columns (info t))"
    and "storage t' = grown (storage t)"
  shows "column_value t' i c = column_value t i c"
  using assms wf_info_column [OF assms(2,5)] by (simp add: column_value_def cell_grown)

text \<open>A table whose file has been doubled holds the same rows.\<close>

lemma grown_table:
  assumes "wf_but S t" and "can_grow (storage t)"
  shows "wf_but S (t\<lparr>storage := grown (storage t)\<rparr>)" and "rows (t\<lparr>storage := grown (storage t)\<rparr>) = rows t"
proof -
  note d = wf_but_dest [OF assms(1)]
  let ?t = "t\<lparr>storage := grown (storage t)\<rparr>"
  have v: "column_value ?t i c = column_value t i c"
    if "i \<in> active (storage t)" "c \<in> set (columns (info t))" for i c
    using d that active_bound by (intro column_value_grown) simp_all
  show "wf_but S ?t"
    using d max_line_grown(1) [of "storage t"] wf_grown [OF d(1) assms(2)]
    by (auto simp: wf_but_def active_grown flags_ok_grown v)
  show "rows ?t = rows t"
  proof
    fix i
    have "i \<in> active (storage t) \<Longrightarrow> row_values ?t i = row_values t i"
      by (rule row_values_cong) (simp_all add: v)
    then show "rows ?t i = rows t i" by (simp add: rows_def active_grown d(1))
  qed
qed

lemma room_can_grow:
  assumes "wf_but S t" and "room t (Suc k)" and "max_line (storage t) \<le> freeId t"
  shows "can_grow (storage t)"
proof -
  have "fileSize (storage t) \<le> freeId t * lineLength (storage t)"
    using assms(3) fileSize_lines [OF wf_but_dest(1) [OF assms(1)]] by (simp add: mult_le_mono1)
  also have "\<dots> \<le> (freeId t + Suc k) * lineLength (storage t)" by (rule mult_le_mono1) simp
  finally have "2 * fileSize (storage t) \<le> 2 * ((freeId t + Suc k) * lineLength (storage t))"
    by (rule mult_le_mono2)
  then have "2 * fileSize (storage t) \<le> 2 * (freeId t + Suc k) * lineLength (storage t)"
    by (simp only: mult.assoc)
  with assms(2) show ?thesis by (auto simp: can_grow_def room_def)
qed

lemma room_Suc: "room t (Suc k) \<Longrightarrow> room t k"
  by (auto simp: room_def intro: order_trans [rotated])

lemma room_mono: "j \<le> k \<Longrightarrow> room t k \<Longrightarrow> room t j"
  by (induction rule: inc_induct) (auto intro: room_Suc)

text \<open>\<open>allocated t cur t'\<close>: \<open>t'\<close> is \<open>t\<close> with the inactive line \<open>cur\<close> taken from the free lines.\<close>

definition allocated :: "table \<Rightarrow> nat \<Rightarrow> table \<Rightarrow> bool" where
  "allocated t cur t' \<longleftrightarrow> wf_but {cur} t' \<and> cur < freeId t' \<and> cur \<notin> active (storage t) \<and>
     active (storage t') = active (storage t) \<and> rows t' = rows t \<and> info t' = info t"

lemma column_value_cong: "storage t' = storage t \<Longrightarrow> column_value t' = column_value t"
  by (simp add: fun_eq_iff column_value_def)

lemma rows_cong: "storage t' = storage t \<Longrightarrow> info t' = info t \<Longrightarrow> rows t' = rows t"
  by (simp add: fun_eq_iff rows_def row_values_def column_value_cong [of t' t])

lemma wf_but_same_storage:
  assumes "wf_but S t" and "storage t' = storage t" and "info t' = info t"
    and "freeId t \<le> freeId t'" "freeId t' \<le> max_line (storage t)" "distinct (stack_freeId t')"
    and "set (stack_freeId t') = {..<freeId t'} - active (storage t) - S'"
    and "card (active (storage t)) \<le> activePlaces t'"
    and "activePlaces t' \<le> card (active (storage t)) + freeId t'"
  shows "wf_but S' t'"
proof -
  note d = wf_but_dest [OF assms(1)]
  have "active (storage t) \<subseteq> {..<freeId t'}" using d(5) assms(4) by auto
  moreover have "\<forall>i\<in>active (storage t). \<forall>c\<in>set (columns (info t)). \<exists>v. column_value t' i c = Inr v"
    using d(11) column_value_cong [OF assms(2)] by simp
  ultimately show ?thesis
    unfolding wf_but_def assms(2,3) using d(1-4) assms(5-9) by (intro conjI)
qed

lemma allocate_fresh:
  assumes "wf_but {} t" and "stack_freeId t = []" and "freeId t < max_line (storage t)"
  shows "allocated t (freeId t) (t\<lparr>activePlaces := activePlaces t + 1, freeId := freeId t + 1\<rparr>)"
proof -
  note d = wf_but_dest [OF assms(1)]
  let ?t = "t\<lparr>activePlaces := activePlaces t + 1, freeId := freeId t + 1\<rparr>"
  have "active (storage t) = {..<freeId t}" using d(5,8) assms(2) by auto
  then have "set (stack_freeId ?t) = {..<freeId ?t} - active (storage ?t) - {freeId t}"
    using assms(2) by auto
  then have "wf_but {freeId t} ?t"
    using d(7,9,10) assms(3) by (intro wf_but_same_storage [OF assms(1), of ?t]) simp_all
  moreover have "freeId t \<notin> active (storage t)" using d(5) by auto
  moreover have "rows ?t = rows t" by (rule rows_cong) simp_all
  ultimately show ?thesis by (simp add: allocated_def)
qed

lemma allocate_reused:
  assumes "wf_but {} t" and "stack_freeId t = i # st"
  shows "allocated t i (t\<lparr>stack_freeId := st\<rparr>)"
proof -
  note d = wf_but_dest [OF assms(1)]
  have "i \<in> set (stack_freeId t)" using assms(2) by simp
  then have i: "i < freeId t" "i \<notin> active (storage t)" using d(8) by auto
  have "set st = set (stack_freeId t) - {i}" using assms(2) d(7) by auto
  then have "set st = {..<freeId t} - active (storage t) - {i}" using d(8) by simp
  then have "wf_but {i} (t\<lparr>stack_freeId := st\<rparr>)"
    using d(6,7,9,10) assms(2) by (intro wf_but_same_storage [OF assms(1), of "t\<lparr>stack_freeId := st\<rparr>"]) simp_all
  moreover have "rows (t\<lparr>stack_freeId := st\<rparr>) = rows t" by (rule rows_cong) simp_all
  ultimately show ?thesis using i by (simp add: allocated_def)
qed

lemma room_after_alloc:
  "room t (Suc k) \<Longrightarrow> freeId t' \<le> freeId t + 1 \<Longrightarrow> lineLength (storage t') = lineLength (storage t) \<Longrightarrow>
   max_file (storage t') = max_file (storage t) \<Longrightarrow> max_map (storage t') = max_map (storage t) \<Longrightarrow> room t' k"
proof -
  assume r: "room t (Suc k)" and f: "freeId t' \<le> freeId t + 1"
    and l: "lineLength (storage t') = lineLength (storage t)"
      "max_file (storage t') = max_file (storage t)" "max_map (storage t') = max_map (storage t)"
  have "2 * (freeId t' + k) * lineLength (storage t) \<le> 2 * (freeId t + Suc k) * lineLength (storage t)"
    using f by (intro mult_le_mono1) simp
  with r l show ?thesis by (auto simp: room_def)
qed

lemma allocateId_spec:
  assumes "wf_table t" and "room t (Suc k)"
  shows "\<exists>cur t'. allocateId t = (Inr cur, t') \<and> allocated t cur t' \<and> room t' k"
proof -
  have wf: "wf_but {} t" using assms(1) by (simp add: wf_table_def)
  note d = wf_but_dest [OF wf]
  have add: "size_add (activePlaces t) (Suc 0) = activePlaces t + 1" "size_add (freeId t) (Suc 0) = freeId t + 1"
    using activePlaces_bound [OF wf] by (simp_all add: size_add_small)
  show ?thesis
  proof (cases "stack_freeId t")
    case (Cons i st)
    then have "allocateId t = (Inr i, t\<lparr>stack_freeId := st\<rparr>)" by (simp add: allocateId_def)
    moreover have "room (t\<lparr>stack_freeId := st\<rparr>) k" using assms(2) by (rule room_after_alloc) simp_all
    ultimately show ?thesis using allocate_reused [OF wf Cons] by blast
  next
    case Nil
    show ?thesis
    proof (cases "max_line (storage t) \<le> freeId t")
      case False
      let ?t = "t\<lparr>activePlaces := activePlaces t + 1, freeId := freeId t + 1\<rparr>"
      have "allocateId t = (Inr (freeId t), ?t)"
        using False d(1) by (simp add: allocateId_def Nil bnd_def add Let_def)
      moreover have "room ?t k" using assms(2) by (rule room_after_alloc) simp_all
      ultimately show ?thesis using allocate_fresh [OF wf Nil] False by auto
    next
      case True
      let ?g = "t\<lparr>storage := grown (storage t)\<rparr>"
      let ?t = "?g\<lparr>activePlaces := activePlaces t + 1, freeId := freeId t + 1\<rparr>"
      have g: "can_grow (storage t)" using room_can_grow [OF wf assms(2) True] .
      have "allocateId t = (Inr (freeId t), ?t)"
        using True d(1) g by (simp add: allocateId_def Nil bnd_def add Let_def on_storage_def zoom_def expand_wf)
      moreover have "freeId t < max_line (grown (storage t))"
        using d(6) max_line_grown(2) [OF d(1)] by simp
      then have "allocated ?g (freeId t) ?t"
        using allocate_fresh [OF grown_table(1) [OF wf g]] Nil by simp
      then have "allocated t (freeId t) ?t"
        using grown_table(2) [OF wf g] by (simp add: allocated_def active_grown d(1))
      moreover have "room ?t k" using assms(2) by (rule room_after_alloc) simp_all
      ultimately show ?thesis by blast
    qed
  qed
qed

end
