(* ===== verification/Table_Rows.thy ===== *)
theory Table_Rows
  imports Table
begin

text \<open>
  The rows of a table under \<open>insert_row\<close> and \<open>update\<close> (\<open>erase\<close> is in
  theory \<open>Table\<close>), and the contract \<open>row_table\<close> that \<open>insert_row\<close> and
  \<open>erase\<close> satisfy.
\<close>

section \<open>insert\<close>

lemma zip_take_length: "zip (map f xs) (take (length xs) ys) = zip (map f xs) ys"
proof (induction xs arbitrary: ys)
  case (Cons x xs)
  then show ?case by (cases ys) simp_all
qed simp

text \<open>Storing a whole row in an allocated line.\<close>

lemma fill_row:
  assumes "allocated t0 cur t" and "list_all2 fits (columns (info t)) vs"
    and "m1 = put_cell cur 0 (enc_bool True) (storage t)"
    and "t' = t\<lparr>storage := snd (mm.store_fields cur (fields_of (columns (info t)) vs) m1),
               activePlaces := activePlaces t + 1\<rparr>"
  shows "wf_but {} t'" and "rows t' = (rows t)(cur \<mapsto> map as_read vs)"
    and "mm.inside m1 (fields_of (columns (info t)) vs)" and "wf_map m1" and "cur < max_line m1"
    and "only_line cur (storage t) (storage t')"
    and "active (storage t') = insert cur (active (storage t))"
proof -
  let ?cs = "columns (info t)" let ?fs = "fields_of ?cs vs"
  have wf: "wf_but {cur} t" and cur: "cur < freeId t" "cur \<notin> active (storage t)"
    using assms(1) by (simp_all add: allocated_def)
  note d = wf_but_dest [OF wf]
  have cm: "cur < max_line (storage t)" using cur(1) d(6) by simp
  have fit: "0 + length (enc_bool True) \<le> lineLength (storage t)"
    using d(1) by (auto simp: bool1.width wf_map_def)
  show m1: "wf_map m1" "cur < max_line m1"
    unfolding assms(3) using wf_put_cell [OF d(1) cm fit] cm by simp_all
  show ins: "mm.inside m1 ?fs"
    by (rule fields_fit [OF m1(1) d(2) _ _ assms(2)]) (use d(3) in \<open>simp_all add: assms(3)\<close>)
  have offs: "\<forall>c\<in>set ?cs. 1 \<le> offset c" using wf_info_column [OF d(2)] by blast
  have ol: "only_line cur (storage t) (storage t')"
    using only_line_trans [OF only_line_put_cell [OF d(1) cm fit]] only_line_store_fields [OF m1 ins]
    by (simp add: assms(3,4))
  then show "only_line cur (storage t) (storage t')" .
  have "cell m1 cur 0 1 = enc_bool True"
    unfolding assms(3) using cell_put_cell_same [OF d(1) cm fit] by (simp add: bool1.width)
  then have flag: "cell (storage t') cur 0 1 = enc_bool True"
    using flag_kept [OF m1 ins offs] by (simp add: assms(4))
  show act: "active (storage t') = insert cur (active (storage t))"
    using only_line_active [OF ol d(1) cm] flag by simp
  have st: "sorted_wrt mm.apart ?fs"
    using d(2) assms(2) by (intro fields_apart) (auto simp: wf_info_def)
  have val: "column_value t' cur (?cs ! j) = Inr (as_read (vs ! j))" if "j < length ?cs" for j
    by (rule column_value_stored [OF m1 ins st assms(2) that]) (simp add: assms(4))
  have "\<exists>v. column_value t' cur c = Inr v" if "c \<in> set ?cs" for c
    using that val by (auto simp: in_set_conv_nth)
  moreover have card: "card (active (storage t')) = card (active (storage t)) + 1"
    using cur(2) by (simp add: act)
  moreover have "set (stack_freeId t') = {..<freeId t} - active (storage t') - {}"
    using d(8) unfolding act by (auto simp: assms(4))
  ultimately show "wf_but {} t'"
    using d(7,9,10) cur(1) ol flag by (intro wf_but_line [OF wf, of cur t' True]) (simp_all add: assms(4))
  have len: "length vs = length ?cs" using assms(2) by (simp add: list_all2_lengthD)
  have "mapE (column_value t' cur) ?cs = Inr (map as_read vs)"
  proof -
    have "mapE (column_value t' cur) ?cs = Inr (map (\<lambda>c. projr (column_value t' cur c)) ?cs)"
      by (rule mapE_Inr) (use val in \<open>auto simp: in_set_conv_nth\<close>)
    moreover have "map (\<lambda>c. projr (column_value t' cur c)) ?cs = map as_read vs"
      by (rule nth_equalityI) (use val len in simp_all)
    ultimately show ?thesis by simp
  qed
  moreover have inf: "info t' = info t" by (simp add: assms(4))
  ultimately have "rows t' cur = Some (map as_read vs)"
    by (simp add: rows_def act row_values_def)
  then show "rows t' = (rows t)(cur \<mapsto> map as_read vs)"
    using rows_other_lines [OF wf ol cm _ refl inf] by (auto simp: fun_eq_iff)
qed

lemma insert_row_spec:
  assumes "wf_table t" and "room t (Suc k)" and "index + length (columns (info t)) \<le> length values"
    and "vs = take (length (columns (info t))) (drop index values)"
    and "list_all2 fits (columns (info t)) vs"
  shows "\<exists>cur t'. insert_row values (columns (info t)) index t = (Inr cur, t') \<and> wf_table t' \<and>
     rows t cur = None \<and> rows t' = (rows t)(cur \<mapsto> map as_read vs) \<and> info t' = info t \<and> room t' k \<and>
     active (storage t') = insert cur (active (storage t))"
proof -
  let ?cs = "columns (info t)"
  obtain cur t1 where al: "allocateId t = (Inr cur, t1)" "allocated t cur t1" "room t1 k"
    using allocateId_spec [OF assms(1,2)] by blast
  have inf: "info t1 = info t" and wf: "wf_but {cur} t1" and c: "cur < freeId t1"
    "cur \<notin> active (storage t)" and r1: "rows t1 = rows t" "active (storage t1) = active (storage t)"
    using al(2) by (simp_all add: allocated_def)
  note d = wf_but_dest [OF wf]
  define m1 where "m1 = put_cell cur 0 (enc_bool True) (storage t1)"
  define t' where "t' = t1\<lparr>storage := snd (mm.store_fields cur (fields_of ?cs vs) m1), activePlaces := activePlaces t1 + 1\<rparr>"
  have f: "list_all2 fits (columns (info t1)) vs" using assms(5) inf by simp
  have t': "t' = t1\<lparr>storage := snd (mm.store_fields cur (fields_of (columns (info t1)) vs) m1),
                     activePlaces := activePlaces t1 + 1\<rparr>"
    by (simp add: t'_def inf)
  note fill = fill_row [OF al(2) f m1_def t']
  have act: "activate cur (storage t1) = (Inr (), m1)"
    unfolding activate_def m1_def using d(1) c(1) d(6)
    by (intro core_write_wf) (auto simp: bool1.width wf_map_def)
  have z: "fields_of ?cs (drop index values) = fields_of ?cs vs"
    by (simp add: fields_of_def assms(4) zip_take_length)
  have upd: "update values ?cs cur index (t1\<lparr>storage := m1\<rparr>) =
      (Inr (), t1\<lparr>storage := snd (mm.store_fields cur (fields_of ?cs vs) m1)\<rparr>)"
    using update_loop_fields [of "t1\<lparr>storage := m1\<rparr>" cur index ?cs "values"] fill(3,4,5) assms(3)
    by (simp add: update_def z inf)
  have add: "size_add (activePlaces t1) (Suc 0) = activePlaces t1 + 1"
    using activePlaces_bound(1) [OF wf] by (simp add: size_add_small)
  have "insert_row values ?cs index t = (Inr cur, t')"
    by (simp add: insert_row_def bnd_def al(1) on_storage_def zoom_def act upd add t'_def)
  moreover have "rows t cur = None" using c(2) by (simp add: rows_def)
  moreover have "room t' k"
    using al(3) fill(6) by (auto simp: room_def only_line_def t'_def)
  ultimately show ?thesis
    using fill(1,2,7) by (auto simp: wf_table_def r1 t'_def inf)
qed

section \<open>update\<close>

text \<open>
  \<^verbatim>\<open>UPDATE\<close> hands over the text of a string as it is: it overwrites the first bytes of the
  field and keeps the others.
\<close>

definition fits_within :: "Column \<Rightarrow> variant_types \<Rightarrow> bool" where
  "fits_within c v \<longleftrightarrow> has_type v (col_type c) \<and> length (value_bytes v) \<le> col_size c"

definition overlay :: "char list \<Rightarrow> char list \<Rightarrow> char list" where
  "overlay bs old = bs @ drop (length bs) old"

definition updated_bytes :: "memory_map \<Rightarrow> nat \<Rightarrow> (Column \<times> variant_types) list \<Rightarrow> Column \<Rightarrow> char list" where
  "updated_bytes m i as c = (case map_of as c of
       Some v \<Rightarrow> overlay (value_bytes v) (cell m i (offset c) (col_size c))
     | None \<Rightarrow> cell m i (offset c) (col_size c))"

definition updated_value :: "table \<Rightarrow> nat \<Rightarrow> (Column \<times> variant_types) list \<Rightarrow> Column \<Rightarrow> exn + variant_types" where
  "updated_value t i as c = stored_value c (updated_bytes (storage t) i as c)"

lemma columns_disjoint:
  assumes "wf_info ti" and "c \<in> set (columns ti)" and "d \<in> set (columns ti)" and "c \<noteq> d"
  shows "before c d \<or> before d c"
proof -
  from assms(2,3) obtain i j where ij: "i < length (columns ti)" "j < length (columns ti)"
    "c = columns ti ! i" "d = columns ti ! j" by (metis in_set_conv_nth)
  have "sorted_wrt before (columns ti)" using assms(1) by (simp add: wf_info_def)
  with ij assms(4) show ?thesis by (metis linorder_neqE_nat sorted_wrt_nth_less)
qed

lemma cell_split:
  "k \<le> n \<Longrightarrow> cell m l off n = cell m l off k @ cell m l (off + k) (n - k)"
  using take_add [of k "n - k" "drop (l * lineLength m + off) (file_bytes m)"]
  by (simp add: cell_def get_bytes_def add.assoc add.commute [of k])

text \<open>Columns of a well-formed table with the same offset are the same column.\<close>

lemma offset_inj:
  assumes "wf_info ti" and "c \<in> set (columns ti)" and "d \<in> set (columns ti)" and "offset c = offset d"
  shows "c = d"
proof (rule ccontr)
  assume "c \<noteq> d"
  then have "before c d \<or> before d c" by (rule columns_disjoint [OF assms(1-3)])
  moreover have "0 < col_size x" if "x \<in> set (columns ti)" for x
    using wf_info_column [OF assms(1) that]
    by (cases "col_type x") (auto simp: wf_column_def split: if_splits)
  ultimately show False using assms(2,3,4) by (fastforce simp: before_def)
qed

lemma fields_within:
  assumes "wf_map m" and "wf_info ti" and "lineLength m = info_lineLength ti"
    and "set cs \<subseteq> set (columns ti)" and "distinct cs" and "list_all2 fits_within cs vs"
  shows "mm.inside m (fields_of cs vs)" and "sorted_wrt mm.apart (fields_of cs vs)"
proof -
  have len: "length vs = length cs" using assms(6) by (simp add: list_all2_lengthD)
  have fw: "length (value_bytes (vs ! j)) \<le> col_size (cs ! j)" if "j < length cs" for j
    using list_all2_nthD [OF assms(6) that] by (simp add: fits_within_def)
  have mem: "cs ! j \<in> set (columns ti)" if "j < length cs" for j using assms(4) that by auto
  show "mm.inside m (fields_of cs vs)"
    using fw mem wf_info_column [OF assms(2)] assms(3)
    by (fastforce simp: mm.inside_def elim!: fields_of_member)
  have "mm.apart (offset (cs ! j), vs ! j) (offset (cs ! k), vs ! k)" if "j < k" "k < length cs" for j k
  proof -
    have "cs ! j \<noteq> cs ! k" using assms(5) that by (simp add: nth_eq_iff_index_eq)
    then have "before (cs ! j) (cs ! k) \<or> before (cs ! k) (cs ! j)"
      using columns_disjoint [OF assms(2)] mem that by auto
    then show ?thesis using fw [of j] fw [of k] that by (auto simp: mm.apart_def before_def)
  qed
  then show "sorted_wrt mm.apart (fields_of cs vs)"
    by (auto simp: sorted_wrt_iff_nth_less fields_of_def len)
qed

text \<open>A field written to another column leaves the bytes of a column.\<close>

lemma field_elsewhere:
  assumes "wf_info ti" and "set cs \<subseteq> set (columns ti)" and "list_all2 fits_within cs vs"
    and "c \<in> set (columns ti)" and "(o1, v) \<in> set (fields_of cs vs)" and "o1 \<noteq> offset c"
  shows "o1 + length (value_bytes v) \<le> offset c \<or> offset c + col_size c \<le> o1"
proof -
  obtain j where j: "j < length cs" "o1 = offset (cs ! j)" "v = vs ! j"
    using assms(5) by (auto elim: fields_of_member)
  have "cs ! j \<in> set (columns ti)" using assms(2) j(1) by auto
  moreover have "cs ! j \<noteq> c" using j(2) assms(6) by auto
  ultimately have "before (cs ! j) c \<or> before c (cs ! j)"
    using columns_disjoint [OF assms(1)] assms(4) by blast
  moreover have "length (value_bytes v) \<le> col_size (cs ! j)"
    using list_all2_nthD [OF assms(3) j(1)] j(3) by (simp add: fits_within_def)
  ultimately show ?thesis using j(2) by (auto simp: before_def)
qed

text \<open>The bytes of a column after the fields have been written.\<close>

lemma cell_not_updated:
  assumes "wf_map m" and "wf_info ti" and "lineLength m = info_lineLength ti" and "l < max_line m"
    and "set cs \<subseteq> set (columns ti)" and "distinct cs" and "list_all2 fits_within cs vs"
    and "c \<in> set (columns ti)" and "c \<notin> set cs"
  shows "cell (snd (mm.store_fields l (fields_of cs vs) m)) l (offset c) (col_size c) =
     cell m l (offset c) (col_size c)"
  using assms(1,4) fields_within(1) [OF assms(1-3,5-7)] assms(4)
proof (rule mm.store_fields_other)
  show "offset c + col_size c \<le> lineLength m"
    using wf_info_column [OF assms(2,8)] assms(3) by simp
  have "o1 \<noteq> offset c" if "(o1, v) \<in> set (fields_of cs vs)" for o1 v
    using that assms(5,8,9) offset_inj [OF assms(2), of _ c]
    by (elim fields_of_member) (metis nth_mem subsetD)
  then show "l \<noteq> l \<or> (\<forall>(o1, v)\<in>set (fields_of cs vs).
      offset c + col_size c \<le> o1 \<or> o1 + length (value_bytes v) \<le> offset c)"
    using field_elsewhere [OF assms(2,5,7,8)] by blast
qed

lemma cell_updated:
  assumes "wf_map m" and "wf_info ti" and "lineLength m = info_lineLength ti" and "l < max_line m"
    and "set cs \<subseteq> set (columns ti)" and "distinct cs" and "list_all2 fits_within cs vs"
    and "j < length cs" and "c = cs ! j" and "v = vs ! j"
  shows "cell (snd (mm.store_fields l (fields_of cs vs) m)) l (offset c) (col_size c) =
     overlay (value_bytes v) (cell m l (offset c) (col_size c))"
proof -
  let ?m = "snd (mm.store_fields l (fields_of cs vs) m)" and ?k = "length (value_bytes v)"
  note fw = fields_within [OF assms(1-3,5-7)]
  have c: "c \<in> set (columns ti)" and len: "length vs = length cs"
    using assms(5,8,9) list_all2_lengthD [OF assms(7)] by auto
  have k: "?k \<le> col_size c" using list_all2_nthD [OF assms(7,8)] assms(9,10) by (simp add: fits_within_def)
  have bnd: "offset c + col_size c \<le> lineLength m" using wf_info_column [OF assms(2) c] assms(3) by simp
  have "(offset c, v) \<in> set (fields_of cs vs)"
    using assms(8-10) len by (auto simp: fields_of_def in_set_zip intro!: exI [of _ j])
  then have "cell ?m l (offset c) ?k = value_bytes v"
    using assms(1,4) fw by (intro mm.store_fields_same)
  moreover have "cell ?m l (offset c + ?k) (col_size c - ?k) = cell m l (offset c + ?k) (col_size c - ?k)"
    using assms(1,4) fw(1) assms(4)
  proof (rule mm.store_fields_other)
    show "offset c + ?k + (col_size c - ?k) \<le> lineLength m" using bnd k by simp
    have "offset c + ?k + (col_size c - ?k) \<le> o1 \<or> o1 + length (value_bytes w) \<le> offset c + ?k"
      if ow: "(o1, w) \<in> set (fields_of cs vs)" for o1 w
    proof (cases "o1 = offset c")
      case False
      then show ?thesis using field_elsewhere [OF assms(2,5,7) c ow] k by auto
    next
      case True
      obtain q where q: "q < length cs" "o1 = offset (cs ! q)" "w = vs ! q"
        using ow by (auto elim: fields_of_member)
      have "cs ! q \<in> set (columns ti)" using assms(5) q(1) by auto
      then have "cs ! q = c" using offset_inj [OF assms(2) _ c] True q(2) by simp
      then have "q = j" using assms(6,8,9) q(1) by (simp add: nth_eq_iff_index_eq)
      then show ?thesis using True q(3) assms(10) by simp
    qed
    then show "l \<noteq> l \<or> (\<forall>(o1, w)\<in>set (fields_of cs vs).
        offset c + ?k + (col_size c - ?k) \<le> o1 \<or> o1 + length (value_bytes w) \<le> offset c + ?k)" by blast
  qed
  ultimately have "cell ?m l (offset c) (col_size c) =
      value_bytes v @ cell m l (offset c + ?k) (col_size c - ?k)"
    using cell_split [OF k, of ?m l "offset c"] by simp
  moreover have "drop ?k (cell m l (offset c) (col_size c)) = cell m l (offset c + ?k) (col_size c - ?k)"
    by (simp add: cell_def get_bytes_def drop_take ac_simps)
  ultimately show ?thesis by (simp add: overlay_def)
qed

lemma map_of_zip_distinct:
  assumes "distinct xs" and "length xs = length ys" and "map_of (zip xs ys) x = Some y"
  obtains j where "j < length xs" "x = xs ! j" "y = ys ! j"
  using map_of_SomeD [OF assms(3)] assms(2) by (auto simp: in_set_zip)

lemma cell_updated_bytes:
  assumes "wf_but S t" and "i < max_line (storage t)" and "set cs \<subseteq> set (columns (info t))"
    and "distinct cs" and "list_all2 fits_within cs vs" and "c \<in> set (columns (info t))"
  shows "cell (snd (mm.store_fields i (fields_of cs vs) (storage t))) i (offset c) (col_size c) =
     updated_bytes (storage t) i (zip cs vs) c"
proof (cases "map_of (zip cs vs) c")
  case None
  note d = wf_but_dest [OF assms(1)]
  have "c \<notin> set cs" using None list_all2_lengthD [OF assms(5)] by (simp add: map_of_zip_is_None)
  then show ?thesis
    using None cell_not_updated [OF d(1-3) assms(2-6)] by (simp add: updated_bytes_def)
next
  case (Some v)
  note d = wf_but_dest [OF assms(1)]
  obtain j where "j < length cs" "c = cs ! j" "v = vs ! j"
    using map_of_zip_distinct [OF assms(4) list_all2_lengthD [OF assms(5)] Some] .
  then show ?thesis
    using Some cell_updated [OF d(1-3) assms(2-5)] by (simp add: updated_bytes_def)
qed

lemma overlay_all: "length old \<le> length bs \<Longrightarrow> overlay bs old = bs"
  by (simp add: overlay_def)

lemma length_cell_le: "length (cell m l off n) \<le> n"
  by (simp add: cell_def get_bytes_def)

text \<open>A value that fills its column replaces the old value.\<close>

lemma updated_value_fits:
  assumes "map_of as c = Some v" and "fits c v"
  shows "updated_value t i as c = Inr (as_read v)"
  using assms overlay_all [of "cell (storage t) i (offset c) (col_size c)" "value_bytes v"]
    length_cell_le [of "storage t" i "offset c" "col_size c"]
  by (simp add: updated_value_def updated_bytes_def fits_def decode_value_bytes)

lemma updated_value_readable:
  assumes "wf_but S t" and "i \<in> active (storage t)" and "c \<in> set (columns (info t))"
    and "distinct cs" and "list_all2 fits_within cs vs"
  shows "\<exists>v. updated_value t i (zip cs vs) c = Inr v"
proof (cases "map_of (zip cs vs) c")
  case None
  then show ?thesis
    using wf_but_dest(11) [OF assms(1-3)] by (simp add: updated_value_def updated_bytes_def column_value_def)
next
  case (Some v)
  obtain j where "j < length cs" "c = cs ! j" "v = vs ! j"
    using map_of_zip_distinct [OF assms(4) list_all2_lengthD [OF assms(5)] Some] .
  then have v: "has_type v (col_type c)" using list_all2_nthD [OF assms(5)] by (simp add: fits_within_def)
  have c: "wf_column c" using wf_info_column [OF wf_but_dest(2) [OF assms(1)] assms(3)] by simp
  show ?thesis
  proof (cases "col_type c = BOOL")
    case True
    then have "fits c v" using v has_type_size [OF c v] by (simp add: fits_def)
    then show ?thesis using updated_value_fits [OF Some] by blast
  next
    case False
    then show ?thesis using decodes_unless_bool [OF c] Some by (simp add: updated_value_def updated_bytes_def)
  qed
qed

lemma update_spec:
  assumes "wf_table t" and "i \<in> active (storage t)" and "set cs \<subseteq> set (columns (info t))"
    and "distinct cs" and "list_all2 fits_within cs vs"
  shows "\<exists>t'. update vs cs i 0 t = (Inr (), t') \<and> wf_table t' \<and> info t' = info t \<and>
     active (storage t') = active (storage t) \<and> freeId t' = freeId t \<and>
     activePlaces t' = activePlaces t \<and> only_line i (storage t) (storage t') \<and>
     (\<forall>c\<in>set (columns (info t)).
        cell (storage t') i (offset c) (col_size c) = updated_bytes (storage t) i (zip cs vs) c)"
proof -
  have wf: "wf_but {} t" using assms(1) by (simp add: wf_table_def)
  note d = wf_but_dest [OF wf]
  have i: "i < max_line (storage t)" "i < freeId t" using active_bound [OF assms(2)] assms(2) d(5) by auto
  note fw = fields_within [OF d(1-3) assms(3-5)]
  let ?m = "snd (mm.store_fields i (fields_of cs vs) (storage t))"
  let ?t = "t\<lparr>storage := ?m\<rparr>"
  have len: "length vs = length cs" using list_all2_lengthD [OF assms(5)] by simp
  have upd: "update vs cs i 0 t = (Inr (), ?t)"
    using update_loop_fields [OF d(1) i(1), of 0 cs vs] fw(1) len by (simp add: update_def)
  have ol: "only_line i (storage t) ?m" by (rule only_line_store_fields [OF d(1) i(1) fw(1)])
  have "\<forall>c\<in>set cs. 1 \<le> offset c" using wf_info_column [OF d(2)] assms(3) by blast
  then have flag: "cell ?m i 0 1 = enc_bool True"
    using flag_kept [OF d(1) i(1) fw(1)] assms(2) by (simp add: active_def)
  have act: "active ?m = active (storage t)"
    using only_line_active [OF ol d(1) i(1)] flag assms(2) by (simp add: insert_absorb)
  have val: "cell ?m i (offset c) (col_size c) = updated_bytes (storage t) i (zip cs vs) c"
    if "c \<in> set (columns (info t))" for c
    using cell_updated_bytes [OF wf i(1) assms(3-5) that] .
  have "\<exists>v. column_value ?t i c = Inr v" if "c \<in> set (columns (info t))" for c
    using updated_value_readable [OF wf assms(2) that assms(4,5)] val [OF that]
    by (simp add: column_value_def updated_value_def)
  then have "wf_but {} ?t"
    using d ol i flag by (intro wf_but_line [OF wf, of i ?t True]) (simp_all add: act)
  then show ?thesis
    using upd ol val act by (auto simp: wf_table_def)
qed

section \<open>The contract of a table\<close>

lemma map_of_zip_notin: "x \<notin> set xs \<Longrightarrow> map_of (zip xs ys) x = None"
  by (auto simp: map_of_eq_None_iff dest: set_zip_leftD)

text \<open>
  A finite map from row numbers to rows: an insertion takes a number that is not in use, a deletion
  removes one row; both keep the schema and leave the other rows alone. \<open>room t k\<close> says that
  \<open>k\<close> insertions will not run out of space.
\<close>

locale row_table =
  fixes ok :: "'t \<Rightarrow> bool" and contents :: "'t \<Rightarrow> nat \<rightharpoonup> 'r" and schema :: "'t \<Rightarrow> 'i"
    and space :: "'t \<Rightarrow> nat \<Rightarrow> bool" and accepts :: "'i \<Rightarrow> 'v \<Rightarrow> bool" and row :: "'i \<Rightarrow> 'v \<Rightarrow> 'r"
    and ins :: "'v \<Rightarrow> ('t, nat) act" and del :: "nat \<Rightarrow> ('t, nat) act"
  assumes ins_law: "ok t \<Longrightarrow> space t (Suc k) \<Longrightarrow> accepts (schema t) v \<Longrightarrow>
      \<exists>i t'. ins v t = (Inr i, t') \<and> ok t' \<and> contents t i = None \<and>
        contents t' = (contents t)(i \<mapsto> row (schema t) v) \<and> schema t' = schema t \<and> space t' k"
    and del_law: "ok t \<Longrightarrow> i \<in> dom (contents t) \<Longrightarrow>
      \<exists>t'. del i t = (Inr i, t') \<and> ok t' \<and> contents t' = (contents t)(i := None) \<and>
        schema t' = schema t \<and> (\<forall>k. space t k \<longrightarrow> space t' k)"
begin

text \<open>A run of insertions, with the numbers of the new rows; a run of deletions.\<close>

fun ins_all :: "'v list \<Rightarrow> ('t, nat list) act" where
  "ins_all [] = ret []"
| "ins_all (v # vs) = bnd (ins v) (\<lambda>i. bnd (ins_all vs) (\<lambda>is. ret (i # is)))"

fun del_all :: "nat list \<Rightarrow> ('t, unit) act" where
  "del_all [] = ret ()"
| "del_all (i # is) = bnd (del i) (\<lambda>_. del_all is)"

lemma ins_all_spec:
  assumes "ok t" and "space t (length vs)" and "\<forall>v\<in>set vs. accepts (schema t) v"
  shows "\<exists>is t'. ins_all vs t = (Inr is, t') \<and> ok t' \<and> length is = length vs \<and> distinct is \<and>
     set is \<inter> dom (contents t) = {} \<and> contents t' = contents t ++ map_of (zip is (map (row (schema t)) vs)) \<and>
     schema t' = schema t"
  using assms
proof (induction vs arbitrary: t)
  case (Cons v vs)
  obtain i t1 where i: "ins v t = (Inr i, t1)" "ok t1" "contents t i = None"
    "contents t1 = (contents t)(i \<mapsto> row (schema t) v)" "schema t1 = schema t" "space t1 (length vs)"
    using ins_law [of t "length vs" v] Cons.prems by auto
  obtain "is" t' where r: "ins_all vs t1 = (Inr is, t')" "ok t'" "length is = length vs" "distinct is"
    "set is \<inter> dom (contents t1) = {}"
    "contents t' = contents t1 ++ map_of (zip is (map (row (schema t1)) vs))" "schema t' = schema t1"
    using Cons.IH [OF i(2,6)] i(5) Cons.prems(3) by auto
  have "i \<notin> set is" "set is \<inter> dom (contents t) = {}" "i \<notin> dom (contents t)"
    using r(5) i(3,4) by auto
  moreover have "contents t' = contents t ++ map_of (zip (i # is) (map (row (schema t)) (v # vs)))"
    using r(6) i(4,5) map_of_zip_notin [OF \<open>i \<notin> set is\<close>, of "map (row (schema t)) vs"]
    by (auto simp: fun_eq_iff map_add_def split: option.splits)
  ultimately show ?case using i r by (auto simp: bnd_def)
qed simp

lemma del_all_spec:
  assumes "ok t" and "distinct is" and "set is \<subseteq> dom (contents t)"
  shows "\<exists>t'. del_all is t = (Inr (), t') \<and> ok t' \<and> contents t' = contents t |` (- set is) \<and>
     schema t' = schema t \<and> (\<forall>k. space t k \<longrightarrow> space t' k)"
  using assms
proof (induction "is" arbitrary: t)
  case (Cons i "is")
  obtain t1 where i: "del i t = (Inr i, t1)" "ok t1" "contents t1 = (contents t)(i := None)"
    "schema t1 = schema t" "\<forall>k. space t k \<longrightarrow> space t1 k"
    using del_law [of t i] Cons.prems by auto
  have "set is \<subseteq> dom (contents t1)" using Cons.prems(2,3) i(3) by auto
  then obtain t' where "del_all is t1 = (Inr (), t')" "ok t'" "contents t' = contents t1 |` (- set is)"
    "schema t' = schema t1" "\<forall>k. space t1 k \<longrightarrow> space t' k"
    using Cons.IH [OF i(2)] Cons.prems(2) by auto
  with i show ?case by (auto simp: bnd_def restrict_map_def fun_eq_iff)
qed (simp add: restrict_map_def)

text \<open>Deleting what has just been inserted gives back the old contents.\<close>

lemma ins_del_all:
  assumes "ok t" and "space t (length vs)" and "\<forall>v\<in>set vs. accepts (schema t) v"
  shows "\<exists>t'. bnd (ins_all vs) del_all t = (Inr (), t') \<and> ok t' \<and> contents t' = contents t"
proof -
  obtain "is" t1 where i: "ins_all vs t = (Inr is, t1)" "ok t1" "length is = length vs" "distinct is"
    "set is \<inter> dom (contents t) = {}"
    "contents t1 = contents t ++ map_of (zip is (map (row (schema t)) vs))"
    using ins_all_spec [OF assms] by blast
  have "set is \<subseteq> dom (contents t1)" using i(3,6) by (auto simp: dom_map_of_zip)
  then obtain t' where t': "del_all is t1 = (Inr (), t')" "ok t'" "contents t' = contents t1 |` (- set is)"
    using del_all_spec [OF i(2,4)] by blast
  have "contents t1 l = contents t l" if "l \<notin> set is" for l
    using i(6) map_of_zip_notin [OF that, of "map (row (schema t)) vs"] by (simp add: map_add_def)
  moreover have "contents t l = None" if "l \<in> set is" for l using that i(5) by auto
  ultimately have "contents t' = contents t" using t'(3) by (auto simp: fun_eq_iff restrict_map_def)
  then show ?thesis using i(1) t' by (auto simp: bnd_def)
qed

end

text \<open>
  The table of the program: a value handed to \<open>insert\<close> is a position in a list of values, from
  which the columns are filled.
\<close>

definition row_at :: "TabbleInfo \<Rightarrow> variant_types list \<times> nat \<Rightarrow> variant_types list" where
  "row_at ti vi = take (length (columns ti)) (drop (snd vi) (fst vi))"

definition insertable :: "TabbleInfo \<Rightarrow> variant_types list \<times> nat \<Rightarrow> bool" where
  "insertable ti vi \<longleftrightarrow> list_all2 fits (columns ti) (row_at ti vi)"

definition insert_at :: "variant_types list \<times> nat \<Rightarrow> (table, nat) act" where
  "insert_at vi t = insert_row (fst vi) (columns (info t)) (snd vi) t"

lemma insertable_length:
  assumes "insertable ti vi" and "columns ti \<noteq> []"
  shows "snd vi + length (columns ti) \<le> length (fst vi)"
proof -
  have "length (columns ti) = min (length (columns ti)) (length (fst vi) - snd vi)"
    using list_all2_lengthD [OF assms(1) [unfolded insertable_def]]
    by (simp add: row_at_def)
  moreover have "0 < length (columns ti)" using assms(2) by simp
  ultimately show ?thesis by linarith
qed

interpretation tab: row_table wf_table rows info room insertable
  "\<lambda>ti vi. map as_read (row_at ti vi)" insert_at erase
proof unfold_locales
  fix t k vi
  assume t: "wf_table t" "room t (Suc k)" "insertable (info t) vi"
  have "columns (info t) \<noteq> []" using t(1) by (auto simp: wf_table_def wf_but_def wf_info_def)
  then have len: "snd vi + length (columns (info t)) \<le> length (fst vi)"
    using insertable_length [OF t(3)] by simp
  show "\<exists>i t'. insert_at vi t = (Inr i, t') \<and> wf_table t' \<and> rows t i = None \<and>
      rows t' = (rows t)(i \<mapsto> map as_read (row_at (info t) vi)) \<and> info t' = info t \<and> room t' k"
    using insert_row_spec [OF t(1,2) len row_at_def] t(3) by (auto simp: insert_at_def insertable_def)
next
  fix t i
  assume t: "wf_table t" "i \<in> dom (rows t)"
  then have "i \<in> active (storage t)" using dom_rows [of "{}" t] by (simp add: wf_table_def)
  then show "\<exists>t'. erase i t = (Inr i, t') \<and> wf_table t' \<and> rows t' = (rows t)(i := None) \<and>
      info t' = info t \<and> (\<forall>k. room t k \<longrightarrow> room t' k)"
    using erase_spec [OF t(1)] by blast
qed

end
