(* ===== verification/Optimizer.thy ===== *)
theory Optimizer
  imports Request_Parser Table_Rows
begin

text \<open>
  \<^verbatim>\<open>src/src/files/Optimizer.h\<close>: the raw words of a query are resolved against the description
  of the table: names become column numbers, texts become values of the column's type. The query
  object is dropped when the optimizer throws, so its partial changes are not kept.

  The conditions of a query come out in a normal form (\<open>wf_conditions\<close>): the conditions on the
  row number first, then the conditions on columns with operands of the columns' types; the values of
  an insertion fill the columns row by row.
\<close>

section \<open>The class\<close>

text \<open>\<^verbatim>\<open>operator[]\<close> and \<^verbatim>\<open>at\<close> of a vector, and \<^verbatim>\<open>at\<close> of a map.\<close>

definition index_vec :: "'a list \<Rightarrow> nat \<Rightarrow> exn + 'a" where
  "index_vec xs i = (if i < length xs then Inr (xs ! i) else Inl (Undefined ''operator[]: index out of range''))"

definition at_vec :: "'a list \<Rightarrow> nat \<Rightarrow> exn + 'a" where
  "at_vec xs i = (if i < length xs then Inr (xs ! i) else Inl (StdOutOfRange ''vector::_M_range_check''))"

definition at_map :: "('k \<rightharpoonup> 'v) \<Rightarrow> 'k \<Rightarrow> exn + 'v" where
  "at_map m k = (case m k of Some v \<Rightarrow> Inr v | None \<Rightarrow> Inl (StdOutOfRange ''unordered_map::at''))"

definition is_id :: "string \<Rightarrow> bool" where
  "is_id s \<longleftrightarrow> s = ''id'' \<or> s = ''ID''"

text \<open>
  A condition on the row number goes to the front of the vector; an operator that is not one of the
  three is passed over, and its operand is not looked at.
\<close>

definition id_condition :: "string \<Rightarrow> string \<Rightarrow> Condition list \<Rightarrow> exn + Condition list" where
  "id_condition oper valueStr acc =
     (let at_front = (\<lambda>ty. bindE (stoul valueStr) (\<lambda>n.
            Inr (\<lparr>cond_type = ty, collumn_id = 0, desired = VInt64 (of_nat n)\<rparr> # acc)))
      in if oper = ''=='' then at_front DIRECT_INDEX
         else if oper = ''>='' then at_front FROM_INDEX
         else if oper = ''<='' then at_front TO_INDEX
         else Inr acc)"

definition column_condition :: "TabbleInfo \<Rightarrow> string \<Rightarrow> string \<Rightarrow> string \<Rightarrow> exn + Condition" where
  "column_condition ti columnName oper valueStr =
     bindE (rethrow_as (IncorrectInputException ''Incorrect column's name'') (at_map (columns_map ti) columnName)) (\<lambda>columnId.
     bindE (index_vec (columns ti) columnId) (\<lambda>column.
     bindE (parse_value valueStr (col_type column)) (\<lambda>desired_value.
     bindE (rethrow_as (IncorrectInputException (''Incorrect opearion: '' @ oper)) (at_map condition_map oper)) (\<lambda>conditionType.
     Inr \<lparr>cond_type = conditionType, collumn_id = columnId, desired = desired_value\<rparr>))))"

fun optimizeConditions :: "TabbleInfo \<Rightarrow> string list \<Rightarrow> Condition list \<Rightarrow> exn + Condition list" where
  "optimizeConditions ti [] acc = Inr acc"
| "optimizeConditions ti (w # ws) acc =
     (if w = ''AND'' \<or> w = ''OR'' then
        optimizeConditions ti ws
          (acc @ [\<lparr>cond_type = (if w = ''AND'' then LOGICAL_AND else LOGICAL_OR), collumn_id = SIZE_MAX, desired = VInt32 0\<rparr>])
      else case ws of
          oper # valueStr # rest \<Rightarrow>
            if is_id w then bindE (id_condition oper valueStr acc) (optimizeConditions ti rest)
            else bindE (column_condition ti w oper valueStr) (\<lambda>c. optimizeConditions ti rest (acc @ [c]))
        | _ \<Rightarrow> Inl (IncorrectInputException ''Incorrect conditions input''))"

fun optimizeColumns :: "TabbleInfo \<Rightarrow> string list \<Rightarrow> nat list \<Rightarrow> exn + nat list" where
  "optimizeColumns ti [] acc = Inr acc"
| "optimizeColumns ti (col # cols) acc =
     (if col \<noteq> ''*''
      then bindE (rethrow_as (IncorrectInputException ''Error during columns comparison'') (at_map (columns_map ti) col))
             (\<lambda>i. optimizeColumns ti cols (acc @ [i]))
      else Inr (acc @ [0..<length (columns ti)]))"

text \<open>The inner loop of \<^verbatim>\<open>optimizeOrdering\<close>: the place of a column among the columns selected.\<close>

fun order_place :: "TabbleInfo \<Rightarrow> string \<Rightarrow> string list \<Rightarrow> nat \<Rightarrow> exn + nat" where
  "order_place ti name [] i = Inl (IncorrectInputException (''This column does not exist: '' @ name))"
| "order_place ti name (col # cols) i =
     (if col = ''*'' then
        rethrow_as (IncorrectInputException (''This column does not exist: '' @ name))
          (bindE (at_map (columns_map ti) name) (\<lambda>c. Inr (size_add c 1)))
      else if col = name then Inr (size_add i 1)
      else order_place ti name cols (Suc i))"

definition optimize_order :: "TabbleInfo \<Rightarrow> string list \<Rightarrow> oderTypeRaw \<Rightarrow> exn + oderTypeOpt" where
  "optimize_order ti columns_raw el =
     bindE (if is_id (rawColumn el) then Inr 0 else order_place ti (rawColumn el) columns_raw 0) (\<lambda>i.
     Inr \<lparr>rawId = i, isGreaterSort = raw_isGreaterSort el\<rparr>)"

definition optimizeOrdering :: "TabbleInfo \<Rightarrow> SelectQuery \<Rightarrow> exn + SelectQuery" where
  "optimizeOrdering ti q =
     bindE (mapE (optimize_order ti (s_columns_raw q)) (oder_columns_raw q)) (\<lambda>os.
     Inr (q\<lparr>order_columns_optimized := order_columns_optimized q @ os\<rparr>))"

text \<open>One value of an insertion, one row of them, all rows.\<close>

definition insert_value :: "Column \<Rightarrow> string \<Rightarrow> exn + variant_types" where
  "insert_value c s = (if col_type c \<noteq> TEXT \<and> col_type c \<noteq> STRING then parse_value s (col_type c)
                       else Inr (VString (str_resize (col_size c) s)))"

fun insert_row_values :: "string list \<Rightarrow> Column list \<Rightarrow> nat \<Rightarrow> exn + variant_types list" where
  "insert_row_values raws [] i = Inr []"
| "insert_row_values raws (c # cs) i =
     bindE (at_vec raws i) (\<lambda>s. bindE (insert_value c s) (\<lambda>v.
     bindE (insert_row_values raws cs (Suc i)) (\<lambda>vs. Inr (v # vs))))"

fun insert_rows_values :: "string list \<Rightarrow> Column list \<Rightarrow> nat \<Rightarrow> nat \<Rightarrow> exn + variant_types list" where
  "insert_rows_values raws cs 0 i = Inr []"
| "insert_rows_values raws cs (Suc n) i =
     bindE (insert_row_values raws cs i) (\<lambda>vs.
     bindE (insert_rows_values raws cs n (i + length cs)) (\<lambda>rest. Inr (vs @ rest)))"

definition optimizeInsertValues :: "TabbleInfo \<Rightarrow> InsertQuery \<Rightarrow> exn + InsertQuery" where
  "optimizeInsertValues ti q =
     (let raws = i_raw_values q; n = length (columns ti) in
      if n = 0 then Inl (Undefined ''division by zero'')
      else if length raws mod n \<noteq> 0 then
        Inl (IncorrectInputException
          (''Number of values ('' @ to_string (length raws) @
           '') must be multiple of number of columns ('' @ to_string n @ '')''))
      else bindE (rethrow_as (IncorrectInputException ''Error during values comparison'')
                    (insert_rows_values raws (columns ti) (length raws div n) 0)) (\<lambda>vs.
        Inr (q\<lparr>i_values := i_values q @ vs\<rparr>)))"

fun update_values :: "TabbleInfo \<Rightarrow> string list \<Rightarrow> nat list \<Rightarrow> nat \<Rightarrow> exn + variant_types list" where
  "update_values ti raws [] i = Inr []"
| "update_values ti raws (c # ids) i =
     bindE (at_vec raws i) (\<lambda>s. bindE (index_vec (columns ti) c) (\<lambda>col.
     bindE (parse_value s (col_type col)) (\<lambda>v.
     bindE (update_values ti raws ids (Suc i)) (\<lambda>vs. Inr (v # vs)))))"

definition optimizeUpdateValues :: "TabbleInfo \<Rightarrow> UpdateQuery \<Rightarrow> exn + UpdateQuery" where
  "optimizeUpdateValues ti q =
     bindE (rethrow_as (IncorrectInputException ''Error during columns comparison'')
              (update_values ti (u_raw_values q) (u_columns_optimized q) 0)) (\<lambda>vs.
     Inr (q\<lparr>u_values := u_values q @ vs\<rparr>))"

text \<open>The member functions on the query types, and the visitor.\<close>

definition query_conditions :: "TabbleInfo \<Rightarrow> 'a QueryBase_scheme \<Rightarrow> exn + 'a QueryBase_scheme" where
  "query_conditions ti q =
     bindE (optimizeConditions ti (raw_conditions q) (conditions q)) (\<lambda>cs. Inr (q\<lparr>conditions := cs\<rparr>))"

definition optimize_select :: "TabbleInfo \<Rightarrow> SelectQuery \<Rightarrow> exn + SelectQuery" where
  "optimize_select ti q =
     bindE (query_conditions ti q) (\<lambda>q.
     bindE (optimizeColumns ti (s_columns_raw q) (s_columns_optimized q)) (\<lambda>cs.
     optimizeOrdering ti (q\<lparr>s_columns_optimized := cs\<rparr>)))"

definition optimize_update :: "TabbleInfo \<Rightarrow> UpdateQuery \<Rightarrow> exn + UpdateQuery" where
  "optimize_update ti q =
     bindE (optimizeColumns ti (u_columns_raw q) (u_columns_optimized q)) (\<lambda>cs.
     bindE (query_conditions ti (q\<lparr>u_columns_optimized := cs\<rparr>)) (\<lambda>q.
     optimizeUpdateValues ti q))"

fun optimize :: "TabbleInfo \<Rightarrow> nat \<Rightarrow> QueryVariant \<Rightarrow> exn + QueryVariant" where
  "optimize ti p (QSelect q) = bindE (optimize_select ti (q\<lparr>table_ptr := Some p\<rparr>)) (\<lambda>q. Inr (QSelect q))"
| "optimize ti p (QInsert q) = bindE (optimizeInsertValues ti (q\<lparr>table_ptr := Some p\<rparr>)) (\<lambda>q. Inr (QInsert q))"
| "optimize ti p (QDelete q) = bindE (query_conditions ti (q\<lparr>table_ptr := Some p\<rparr>)) (\<lambda>q. Inr (QDelete q))"
| "optimize ti p (QUpdate q) = bindE (optimize_update ti (q\<lparr>table_ptr := Some p\<rparr>)) (\<lambda>q. Inr (QUpdate q))"

section \<open>Conditions\<close>

fun index_cond :: "Condition \<Rightarrow> bool" where
  "index_cond c = (cond_type c \<in> {DIRECT_INDEX, FROM_INDEX, TO_INDEX} \<and>
     (case desired c of VInt64 _ \<Rightarrow> True | _ \<Rightarrow> False))"

definition logical_cond :: "Condition \<Rightarrow> bool" where
  "logical_cond c \<longleftrightarrow> cond_type c \<in> {LOGICAL_AND, LOGICAL_OR} \<and> collumn_id c = SIZE_MAX"

definition column_cond :: "TabbleInfo \<Rightarrow> Condition \<Rightarrow> bool" where
  "column_cond ti c \<longleftrightarrow> cond_type c \<in> {EQUAL, NOT_EQUAL, GREATER, LESS, COND_AND, COND_OR} \<and>
     collumn_id c < length (columns ti) \<and> has_type (desired c) (col_type (columns ti ! collumn_id c))"

text \<open>Conditions on the row number first, then logical operators and conditions on columns.\<close>

definition wf_conditions :: "TabbleInfo \<Rightarrow> Condition list \<Rightarrow> bool" where
  "wf_conditions ti cs \<longleftrightarrow> (\<forall>c\<in>set (dropWhile index_cond cs). logical_cond c \<or> column_cond ti c)"

lemma not_index_cond: "logical_cond c \<or> column_cond ti c \<Longrightarrow> \<not> index_cond c"
  by (auto simp: logical_cond_def column_cond_def)

lemma wf_conditions_simps:
  "wf_conditions ti []"
  "index_cond c \<Longrightarrow> wf_conditions ti (c # cs) \<longleftrightarrow> wf_conditions ti cs"
  by (simp_all add: wf_conditions_def)

lemma wf_conditions_snoc:
  "wf_conditions ti cs \<Longrightarrow> logical_cond c \<or> column_cond ti c \<Longrightarrow> wf_conditions ti (cs @ [c])"
  using not_index_cond [of c ti] by (induction cs) (auto simp: wf_conditions_def)

lemma columns_map_bound:
  "wf_info ti \<Longrightarrow> columns_map ti name = Some i \<Longrightarrow> i < length (columns ti) \<and> col_name (columns ti ! i) = name"
  by (auto simp: wf_info_def columns_map_of_def in_set_zip dest!: map_of_SomeD)

lemma at_map_eq_Inr: "at_map m k = Inr v \<longleftrightarrow> m k = Some v"
  by (simp add: at_map_def split: option.splits)

lemma index_vec_eq_Inr: "index_vec xs i = Inr x \<longleftrightarrow> i < length xs \<and> x = xs ! i"
  by (auto simp: index_vec_def)

lemma at_vec_eq_Inr: "at_vec xs i = Inr x \<longleftrightarrow> i < length xs \<and> x = xs ! i"
  by (auto simp: at_vec_def)

lemmas result_simps = bindE_eq_Inr rethrow_as_eq_Inr at_map_eq_Inr index_vec_eq_Inr at_vec_eq_Inr

lemma column_condition_wf: "column_condition ti name oper s = Inr c \<Longrightarrow> column_cond ti c"
  by (auto simp: column_condition_def column_cond_def result_simps condition_map_def
      intro: parse_value_has_type split: if_splits)

lemma id_condition_front:
  "id_condition oper s acc = Inr cs \<Longrightarrow> cs = acc \<or> (\<exists>c. index_cond c \<and> cs = c # acc)"
  by (auto simp: id_condition_def Let_def bindE_eq_Inr split: if_splits)

lemma optimizeConditions_wf:
  "optimizeConditions ti ws acc = Inr cs \<Longrightarrow> wf_conditions ti acc \<Longrightarrow> wf_conditions ti cs"
proof (induction ti ws acc rule: optimizeConditions.induct)
  case (2 ti w ws acc)
  show ?case
  proof (cases "w = ''AND'' \<or> w = ''OR''")
    case True
    then show ?thesis
      using "2.prems" by (intro "2.IH"(1)) (auto intro!: wf_conditions_snoc simp: logical_cond_def)
  next
    case False
    with "2.prems"(1) obtain oper v rest where ws: "ws = oper # v # rest"
      by (auto split: list.splits if_splits)
    show ?thesis
    proof (cases "is_id w")
      case True
      with False "2.prems"(1) obtain acc' where a: "id_condition oper v acc = Inr acc'"
        "optimizeConditions ti rest acc' = Inr cs" by (auto simp: ws bindE_eq_Inr)
      have "wf_conditions ti acc'"
        using id_condition_front [OF a(1)] "2.prems"(2) by (auto simp: wf_conditions_simps(2))
      then show ?thesis using "2.IH"(2) [OF False ws refl True, of acc'] a(2) by blast
    next
      case nid: False
      with False "2.prems"(1) obtain c where c: "column_condition ti w oper v = Inr c"
        "optimizeConditions ti rest (acc @ [c]) = Inr cs" by (auto simp: ws bindE_eq_Inr)
      then show ?thesis
        using "2.IH"(3) [OF False ws refl nid, of c] wf_conditions_snoc [OF "2.prems"(2)]
          column_condition_wf [OF c(1)] by blast
    qed
  qed
qed simp

text \<open>
  The clauses of a \<^verbatim>\<open>WHERE\<close> as a user writes them, the words they are written with, and the
  conditions they stand for.
\<close>

datatype clause = Logic bool | OnId string nat | OnColumn nat string string

fun clause_words :: "TabbleInfo \<Rightarrow> clause \<Rightarrow> string list" where
  "clause_words ti (Logic isAnd) = [if isAnd then ''AND'' else ''OR'']"
| "clause_words ti (OnId oper n) = [''id'', oper, to_string n]"
| "clause_words ti (OnColumn i oper s) = [col_name (columns ti ! i), oper, s]"

fun clause_ok :: "TabbleInfo \<Rightarrow> clause \<Rightarrow> bool" where
  "clause_ok ti (Logic isAnd) = True"
| "clause_ok ti (OnId oper n) = (n < SIZE_MOD)"
| "clause_ok ti (OnColumn i oper s) =
     (i < length (columns ti) \<and> columns_map ti (col_name (columns ti ! i)) = Some i \<and>
      col_name (columns ti ! i) \<notin> {''AND'', ''OR'', ''id'', ''ID''} \<and> condition_map oper \<noteq> None \<and>
      (case parse_value s (col_type (columns ti ! i)) of Inr _ \<Rightarrow> True | Inl _ \<Rightarrow> False))"

fun clause_index :: "clause \<Rightarrow> Condition list" where
  "clause_index (OnId oper n) =
     (case map_of [(''=='', DIRECT_INDEX), (''>='', FROM_INDEX), (''<='', TO_INDEX)] oper of
        Some ty \<Rightarrow> [\<lparr>cond_type = ty, collumn_id = 0, desired = VInt64 (of_nat n)\<rparr>] | None \<Rightarrow> [])"
| "clause_index _ = []"

fun clause_filter :: "TabbleInfo \<Rightarrow> clause \<Rightarrow> Condition list" where
  "clause_filter ti (Logic isAnd) =
     [\<lparr>cond_type = (if isAnd then LOGICAL_AND else LOGICAL_OR), collumn_id = SIZE_MAX, desired = VInt32 0\<rparr>]"
| "clause_filter ti (OnId oper n) = []"
| "clause_filter ti (OnColumn i oper s) =
     [\<lparr>cond_type = the (condition_map oper), collumn_id = i,
       desired = projr (parse_value s (col_type (columns ti ! i)))\<rparr>]"

lemma optimize_clause:
  assumes "clause_ok ti cl"
  shows "optimizeConditions ti (clause_words ti cl @ ws) acc =
     optimizeConditions ti ws (clause_index cl @ acc @ clause_filter ti cl)"
proof (cases cl)
  case (OnId oper n)
  then show ?thesis
    using assms stoul_to_string [of n] by (simp add: is_id_def id_condition_def Let_def)
next
  case (OnColumn i oper s)
  then obtain v ty where "parse_value s (col_type (columns ti ! i)) = Inr v" "condition_map oper = Some ty"
    using assms by (auto split: sum.splits)
  then show ?thesis
    using OnColumn assms by (simp add: is_id_def column_condition_def at_map_def index_vec_def)
qed simp

lemma optimize_clauses:
  assumes "\<forall>cl\<in>set cls. clause_ok ti cl"
  shows "optimizeConditions ti (concat (map (clause_words ti) cls)) acc =
     Inr (concat (map clause_index (rev cls)) @ acc @ concat (map (clause_filter ti) cls))"
  using assms
proof (induction cls arbitrary: acc)
  case (Cons cl cls)
  then show ?case by (simp add: optimize_clause)
qed simp

section \<open>Columns and values\<close>

lemma optimizeColumns_bound:
  assumes "wf_info ti" and "optimizeColumns ti cols acc = Inr ids" and "\<forall>i\<in>set acc. i < length (columns ti)"
  shows "\<forall>i\<in>set ids. i < length (columns ti)"
  using assms
proof (induction ti cols acc rule: optimizeColumns.induct)
  case (2 ti col cols acc)
  then show ?case
    using columns_map_bound [of ti col] by (auto simp: result_simps split: if_splits)
qed simp

text \<open>Named columns, and \<^verbatim>\<open>*\<close>, which stands for all of them and ends the list.\<close>

lemma optimizeColumns_names:
  assumes "''*'' \<notin> set cols" and "\<forall>c\<in>set cols. columns_map ti c = Some (f c)"
  shows "optimizeColumns ti (cols @ rest) acc = optimizeColumns ti rest (acc @ map f cols)"
  using assms by (induction cols arbitrary: acc) (auto simp: at_map_def)

lemma insert_value_fits:
  assumes "wf_column c" and "insert_value c s = Inr v"
  shows "fits c v"
proof (cases "col_type c = TEXT \<or> col_type c = STRING")
  case True
  then show ?thesis using assms(2) by (auto simp: insert_value_def fits_def)
next
  case False
  then have v: "has_type v (col_type c)"
    using assms(2) by (auto simp: insert_value_def intro: parse_value_has_type split: if_splits)
  then show ?thesis using has_type_size [OF assms(1) v] False by (simp add: fits_def)
qed

lemma insert_row_values_spec:
  "insert_row_values raws cs i = Inr vs \<Longrightarrow> length vs = length cs \<and> i + length cs \<le> length raws + (if cs = [] then i else 0) \<and>
   (\<forall>j<length cs. insert_value (cs ! j) (raws ! (i + j)) = Inr (vs ! j))"
proof (induction cs arbitrary: i vs)
  case (Cons c cs)
  then obtain v ws where v: "i < length raws" "insert_value c (raws ! i) = Inr v"
    "insert_row_values raws cs (Suc i) = Inr ws" "vs = v # ws"
    by (auto simp: result_simps)
  note ih = Cons.IH [OF v(3)]
  have "insert_value ((c # cs) ! j) (raws ! (i + j)) = Inr ((v # ws) ! j)" if "j < length (c # cs)" for j
    using that ih v(2) by (cases j) simp_all
  then show ?case using ih v(1,4) by (auto split: if_splits)
qed simp

lemma insert_row_values_fits:
  assumes "\<forall>c\<in>set cs. wf_column c" and "insert_row_values raws cs i = Inr vs"
  shows "list_all2 fits cs vs"
  using insert_row_values_spec [OF assms(2)] assms(1) insert_value_fits
  by (auto simp: list_all2_conv_all_nth)

lemma insert_rows_values_spec:
  assumes "insert_rows_values raws cs n i = Inr vs"
  shows "length vs = n * length cs" and
    "k < n \<Longrightarrow> insert_row_values raws cs (i + k * length cs) = Inr (take (length cs) (drop (k * length cs) vs))"
  using assms
proof (induction n arbitrary: i vs k)
  case (Suc n)
  {
    case 1
    then obtain us ws where r: "insert_row_values raws cs i = Inr us"
      "insert_rows_values raws cs n (i + length cs) = Inr ws" "vs = us @ ws"
      by (auto simp: result_simps)
    show ?case using Suc.IH(1) [OF r(2)] insert_row_values_spec [OF r(1)] r(3) by simp
  next
    case 2
    then obtain us ws where r: "insert_row_values raws cs i = Inr us"
      "insert_rows_values raws cs n (i + length cs) = Inr ws" "vs = us @ ws"
      by (auto simp: result_simps)
    have us: "length us = length cs" using insert_row_values_spec [OF r(1)] by simp
    show ?case
    proof (cases k)
      case 0
      then show ?thesis using r us by simp
    next
      case (Suc k')
      then show ?thesis
        using Suc.IH(2) [of k' "i + length cs" ws] r us "2"(1) by (simp add: add.assoc)
    qed
  }
qed simp_all

text \<open>The values of an insertion: one block per row, each block fitting the columns.\<close>

lemma optimizeInsertValues_spec:
  assumes "wf_info ti" and "optimizeInsertValues ti q = Inr q'" and "i_values q = []"
  shows "length (i_values q') = length (i_raw_values q)" and "length (columns ti) dvd length (i_values q')"
    and "k * length (columns ti) < length (i_values q') \<Longrightarrow> insertable ti (i_values q', k * length (columns ti))"
proof -
  let ?n = "length (columns ti)" and ?r = "i_raw_values q"
  have n: "0 < ?n" "?n dvd length ?r" and v: "insert_rows_values ?r (columns ti) (length ?r div ?n) 0 = Inr (i_values q')"
    using assms(2,3) by (auto simp: optimizeInsertValues_def Let_def result_simps split: if_splits)
  note s = insert_rows_values_spec [OF v]
  show len: "length (i_values q') = length ?r" using s(1) n by simp
  then show "?n dvd length (i_values q')" using n by simp
  assume "k * ?n < length (i_values q')"
  then have "k * ?n < (length ?r div ?n) * ?n" using len n(2) by simp
  then have "k < length ?r div ?n" by simp
  moreover have "\<forall>c\<in>set (columns ti). wf_column c" using wf_info_column [OF assms(1)] by blast
  ultimately show "insertable ti (i_values q', k * ?n)"
    using insert_row_values_fits [OF _ s(2)] by (simp add: insertable_def row_at_def)
qed

lemma update_values_spec:
  "update_values ti raws ids i = Inr vs \<Longrightarrow>
   list_all2 (\<lambda>c v. c < length (columns ti) \<and> has_type v (col_type (columns ti ! c))) ids vs"
  by (induction ids arbitrary: i vs) (auto simp: result_simps intro: parse_value_has_type)

section \<open>What the optimizer delivers\<close>

text \<open>
  The words of a \<^verbatim>\<open>WHERE\<close> clause become conditions in a normal form: the conditions on
  the row number are moved to the front, the last one first, and everything else follows in the order
  it was written.
\<close>

theorem clauses_become_conditions:
  assumes "\<forall>cl\<in>set cls. clause_ok ti cl"
  shows "optimizeConditions ti (concat (map (clause_words ti) cls)) [] =
     Inr (concat (map clause_index (rev cls)) @ concat (map (clause_filter ti) cls))"
  using optimize_clauses [OF assms, of "[]"] by simp

theorem clauses_become_conditions_witness:
  "optimizeConditions (info_of [(''age'', INT32, 4)])
     (concat (map (clause_words (info_of [(''age'', INT32, 4)])) [OnColumn 0 ''>'' ''25'', Logic True, OnId ''>='' 7])) [] =
   Inr (concat (map clause_index (rev [OnColumn 0 ''>'' ''25'', Logic True, OnId ''>='' 7])) @
        concat (map (clause_filter (info_of [(''age'', INT32, 4)])) [OnColumn 0 ''>'' ''25'', Logic True, OnId ''>='' 7]))"
  by (rule clauses_become_conditions)
    (simp add: info_of_def columns_map_of_def condition_map_def stoi_def strto_def c_str_def is_space_def
      is_digit_def digit_value_def signed_value_def)



text \<open>
  The values of an accepted insertion come in whole rows, and each row of them fills the columns
  of the table: the types agree and every text has the size of its column.
\<close>

theorem accepted_values_fill_rows:
  assumes "wf_info ti" and "optimizeInsertValues ti q = Inr q'" and "i_values q = []"
    and "k * length (columns ti) < length (i_values q')"
  shows "length (i_values q') = length (i_raw_values q) \<and> length (columns ti) dvd length (i_values q') \<and>
     list_all2 fits (columns ti) (take (length (columns ti)) (drop (k * length (columns ti)) (i_values q')))"
  using optimizeInsertValues_spec [OF assms(1-3)] assms(4) by (simp add: insertable_def row_at_def)

theorem accepted_values_fill_rows_witness:
  "list_all2 fits (columns (info_of [(''age'', INT32, 4)])) [VInt32 30]"
proof -
  let ?ti = "info_of [(''age'', INT32, 4)]" let ?q = "new_InsertQuery\<lparr>i_raw_values := [''25'', ''30'']\<rparr>"
  have "wf_info ?ti"
    by (rule wf_info_of) (simp_all add: wf_definition_def storable_def total_size_def word_tok_def is_space_def)
  moreover have "optimizeInsertValues ?ti ?q = Inr (?q\<lparr>i_values := [VInt32 25, VInt32 30]\<rparr>)"
    by (simp add: optimizeInsertValues_def info_of_def new_query_defs Let_def numeral_2_eq_2 at_vec_def insert_value_def
        stoi_def strto_def c_str_def is_space_def is_digit_def digit_value_def signed_value_def)
  ultimately show ?thesis
    using accepted_values_fill_rows [of ?ti ?q "?q\<lparr>i_values := [VInt32 25, VInt32 30]\<rparr>" 1]
    by (simp add: info_of_def new_query_defs)
qed

end
