(* ===== verification/Stable_Sort.thy ===== *)
theory Stable_Sort
  imports Prelude "HOL-Library.Multiset"
begin

text \<open>
  \<^verbatim>\<open>std::stable_sort\<close> with a comparison. When the comparison is no strict weak order on the
  elements the behaviour is undefined; otherwise the standard determines the result, the stable
  sorted permutation, which is computed here by insertion. The locale \<open>weak_order\<close> is what a
  comparison owes the algorithm; it is interpreted on the executor's comparison of rows.
\<close>

definition strict_weak_on :: "('a \<Rightarrow> 'a \<Rightarrow> bool) \<Rightarrow> 'a list \<Rightarrow> bool" where
  "strict_weak_on lt xs \<longleftrightarrow> (\<forall>x\<in>set xs. \<not> lt x x) \<and>
     (\<forall>x\<in>set xs. \<forall>y\<in>set xs. \<forall>z\<in>set xs. (lt x y \<longrightarrow> lt y z \<longrightarrow> lt x z) \<and>
        (\<not> lt x y \<longrightarrow> \<not> lt y z \<longrightarrow> \<not> lt x z))"

fun stable_insert :: "('a \<Rightarrow> 'a \<Rightarrow> bool) \<Rightarrow> 'a \<Rightarrow> 'a list \<Rightarrow> 'a list" where
  "stable_insert lt x [] = [x]"
| "stable_insert lt x (y # ys) = (if lt y x then y # stable_insert lt x ys else x # y # ys)"

definition insertion_sort :: "('a \<Rightarrow> 'a \<Rightarrow> bool) \<Rightarrow> 'a list \<Rightarrow> 'a list" where
  "insertion_sort lt xs = foldr (stable_insert lt) xs []"

definition stable_sort :: "('a \<Rightarrow> 'a \<Rightarrow> bool) \<Rightarrow> 'a list \<Rightarrow> exn + 'a list" where
  "stable_sort lt xs = (if strict_weak_on lt xs then Inr (insertion_sort lt xs)
                        else Inl (Undefined ''stable_sort: not a strict weak order''))"

definition tied :: "('a \<Rightarrow> 'a \<Rightarrow> bool) \<Rightarrow> 'a \<Rightarrow> 'a \<Rightarrow> bool" where
  "tied lt x y \<longleftrightarrow> \<not> lt x y \<and> \<not> lt y x"

text \<open>The sorted permutation that keeps the order of tied elements.\<close>

definition stably_sorted :: "('a \<Rightarrow> 'a \<Rightarrow> bool) \<Rightarrow> 'a list \<Rightarrow> 'a list \<Rightarrow> bool" where
  "stably_sorted lt xs ys \<longleftrightarrow> mset ys = mset xs \<and> sorted_wrt (\<lambda>a b. \<not> lt b a) ys \<and>
     (\<forall>x\<in>set xs. filter (tied lt x) ys = filter (tied lt x) xs)"

lemma mset_stable_insert [simp]: "mset (stable_insert lt x ys) = add_mset x (mset ys)"
  by (induction ys) auto

lemma set_stable_insert [simp]: "set (stable_insert lt x ys) = insert x (set ys)"
  by (induction ys) auto

lemma insertion_sort_simps [simp]:
  "insertion_sort lt [] = []" "insertion_sort lt (x # xs) = stable_insert lt x (insertion_sort lt xs)"
  by (simp_all add: insertion_sort_def)

lemma mset_insertion_sort [simp]: "mset (insertion_sort lt xs) = mset xs"
  by (induction xs) auto

lemma set_insertion_sort [simp]: "set (insertion_sort lt xs) = set xs"
  by (induction xs) auto

locale weak_order =
  fixes lt :: "'a \<Rightarrow> 'a \<Rightarrow> bool" and A :: "'a set"
  assumes irrefl: "x \<in> A \<Longrightarrow> \<not> lt x x"
    and trans: "x \<in> A \<Longrightarrow> y \<in> A \<Longrightarrow> z \<in> A \<Longrightarrow> lt x y \<Longrightarrow> lt y z \<Longrightarrow> lt x z"
    and neg_trans: "x \<in> A \<Longrightarrow> y \<in> A \<Longrightarrow> z \<in> A \<Longrightarrow> lt x z \<Longrightarrow> lt x y \<or> lt y z"
begin

lemma strict_weak: "set xs \<subseteq> A \<Longrightarrow> strict_weak_on lt xs"
  unfolding strict_weak_on_def using irrefl trans neg_trans by (meson subsetD)

lemma sorted_stable_insert:
  assumes "x \<in> A" and "set ys \<subseteq> A" and "sorted_wrt (\<lambda>a b. \<not> lt b a) ys"
  shows "sorted_wrt (\<lambda>a b. \<not> lt b a) (stable_insert lt x ys)"
  using assms
proof (induction ys)
  case (Cons y ys)
  show ?case
  proof (cases "lt y x")
    case True
    then have "\<not> lt x y" using Cons.prems(1,2) irrefl trans by (meson list.set_intros(1) subsetD)
    then show ?thesis using True Cons by auto
  next
    case False
    have "\<not> lt z x" if "z \<in> set ys" for z
      using that False Cons.prems neg_trans [of z y x] by auto
    then show ?thesis using False Cons by auto
  qed
qed simp

lemma filter_stable_insert:
  assumes "x \<in> A" and "set ys \<subseteq> A" and "a \<in> A"
  shows "filter (tied lt a) (stable_insert lt x ys) = filter (tied lt a) (x # ys)"
  using assms
proof (induction ys)
  case (Cons y ys)
  have "\<not> (tied lt a x \<and> tied lt a y \<and> lt y x)"
    using Cons.prems neg_trans [of y a x] by (auto simp: tied_def)
  then show ?case using Cons by auto
qed simp

lemma insertion_sort_stably:
  assumes "set xs \<subseteq> A"
  shows "stably_sorted lt xs (insertion_sort lt xs)"
proof -
  have "sorted_wrt (\<lambda>a b. \<not> lt b a) (insertion_sort lt xs)"
    using assms by (induction xs) (auto intro!: sorted_stable_insert)
  moreover have "filter (tied lt a) (insertion_sort lt xs) = filter (tied lt a) xs" if "a \<in> A" for a
    using assms
  proof (induction xs)
    case (Cons x xs)
    then show ?case using filter_stable_insert [of x "insertion_sort lt xs" a] that by auto
  qed simp
  ultimately show ?thesis using assms by (auto simp: stably_sorted_def)
qed

lemma stable_sort_spec: "set xs \<subseteq> A \<Longrightarrow> \<exists>ys. stable_sort lt xs = Inr ys \<and> stably_sorted lt xs ys"
  by (simp add: stable_sort_def strict_weak insertion_sort_stably)

end

end
