(* ===== verification/Executor.thy ===== *)
theory Executor
  imports Optimizer Stable_Sort
begin

text \<open>
  \<^verbatim>\<open>src/src/data_base/Executor.h\<close> and the data of \<^verbatim>\<open>src/src/result/Result.h\<close>: an
  optimized query is run on its table and fills a result. The state of a run is the table together
  with the result, so that the rows changed and reported before an exception are kept.

  A row number in a query is the bit pattern of an \<^verbatim>\<open>int64_t\<close> read as \<^verbatim>\<open>size_t\<close>, which is
  how the loops compare it with \<^verbatim>\<open>max_line\<close> and hand it to the storage.
\<close>

section \<open>Results\<close>

record Result =
  isSucces :: bool
  header :: "string list"
  types :: "string list"
  messeage :: string
  error :: string
  body :: "variant_types list list"

definition new_Result :: Result where
  "new_Result = \<lparr>isSucces = False, header = [], types = [], messeage = [], error = [], body = []\<rparr>"

record exec =
  etable :: table
  eresult :: Result

definition on_table :: "(table, 'a) act \<Rightarrow> (exec, 'a) act" where
  "on_table = zoom etable (\<lambda>t s. s\<lparr>etable := t\<rparr>)"

definition on_result :: "(Result \<Rightarrow> Result) \<Rightarrow> (exec, unit) act" where
  "on_result f = modify (\<lambda>s. s\<lparr>eresult := f (eresult s)\<rparr>)"

definition push_body :: "variant_types list \<Rightarrow> (exec, unit) act" where
  "push_body row = on_result (\<lambda>r. r\<lparr>body := body r @ [row]\<rparr>)"

definition push_column :: "string \<Rightarrow> string \<Rightarrow> (exec, unit) act" where
  "push_column h ty = on_result (\<lambda>r. r\<lparr>header := header r @ [h], types := types r @ [ty]\<rparr>)"

section \<open>Reading rows\<close>

text \<open>A column of a line as \<^verbatim>\<open>satisfiesConditions\<close> and \<^verbatim>\<open>readRecord\<close> read it.\<close>

definition read_column :: "table \<Rightarrow> nat \<Rightarrow> Column \<Rightarrow> exn + variant_types" where
  "read_column t line_id col =
     (if col_type col = TEXT \<or> col_type col = STRING
      then bindE (table_readText t line_id (offset col) (col_size col)) (\<lambda>s. Inr (VString s))
      else table_readNumber t line_id (offset col) (col_type col))"

fun satisfies_loop :: "table \<Rightarrow> nat \<Rightarrow> Column list \<Rightarrow> Condition list \<Rightarrow> bool \<Rightarrow> ConditionType \<Rightarrow> exn + bool" where
  "satisfies_loop t line_id cols [] current_result logic_op = Inr current_result"
| "satisfies_loop t line_id cols (c # cs) current_result logic_op =
     (if collumn_id c = SIZE_MAX then satisfies_loop t line_id cols cs current_result (cond_type c)
      else bindE (index_vec cols (collumn_id c)) (\<lambda>col.
           bindE (read_column t line_id col) (\<lambda>v.
           bindE (condition_result c v) (\<lambda>condition_met.
           satisfies_loop t line_id cols cs
             (if logic_op = LOGICAL_OR then current_result \<or> condition_met else current_result \<and> condition_met)
             logic_op))))"

definition satisfiesConditions :: "table \<Rightarrow> nat \<Rightarrow> Condition list \<Rightarrow> Column list \<Rightarrow> exn + bool" where
  "satisfiesConditions t line_id cs cols = satisfies_loop t line_id cols cs False LOGICAL_OR"

definition readRecord :: "table \<Rightarrow> nat \<Rightarrow> nat list \<Rightarrow> Column list \<Rightarrow> exn + variant_types list" where
  "readRecord t line_id column_ids cols =
     bindE (mapE (\<lambda>i. bindE (index_vec cols i) (read_column t line_id)) column_ids) (\<lambda>vs.
     Inr (VInt64 (of_nat line_id) # vs))"

section \<open>The scan\<close>

text \<open>
  The loop \<^verbatim>\<open>for (; i < max_line && result.body.size() < active_count; ++i)\<close> that the three
  statements share; \<open>work\<close> is what it does with a row that is active and meets the conditions.
  Incrementing the greatest \<^verbatim>\<open>int64_t\<close> is undefined.
\<close>

definition row_matches :: "table \<Rightarrow> Condition list \<Rightarrow> nat \<Rightarrow> exn + bool" where
  "row_matches t cs i =
     bindE (isActive (storage t) i) (\<lambda>a.
     if \<not> a then Inr False
     else if cs = [] then Inr True
     else satisfiesConditions t i cs (columns (info t)))"

definition int64_last :: nat where
  "int64_last = 2 ^ 63 - 1"

function scan :: "(nat \<Rightarrow> (exec, unit) act) \<Rightarrow> Condition list \<Rightarrow> nat \<Rightarrow> nat \<Rightarrow> nat \<Rightarrow> (exec, unit) act" where
  "scan work cs mx active_count i s =
     (if i < mx \<and> length (body (eresult s)) < active_count then
        case bnd (reads (\<lambda>s. row_matches (etable s) cs i)) (\<lambda>m. if m then work i else ret ()) s of
          (Inl e, s') \<Rightarrow> (Inl e, s')
        | (Inr _, s') \<Rightarrow>
            if i = int64_last then (Inl (Undefined ''signed overflow''), s')
            else scan work cs mx active_count (Suc i) s'
      else (Inr (), s))"
  by pat_completeness auto
termination
  by (relation "measure (\<lambda>(work, cs, mx, active_count, i, s). mx - i)") auto

declare scan.simps [simp del]

text \<open>\<^verbatim>\<open>active_count < query.limit ? active_count : query.limit\<close>\<close>

definition scan_count :: "table \<Rightarrow> nat \<Rightarrow> nat" where
  "scan_count t lim = (if getActivePlaces t < lim then getActivePlaces t else lim)"

section \<open>SELECT\<close>

definition select_row :: "nat list \<Rightarrow> nat \<Rightarrow> (exec, unit) act" where
  "select_row column_ids i =
     bnd (reads (\<lambda>s. readRecord (etable s) i column_ids (columns (info (etable s))))) push_body"

text \<open>
  The bounds of the scan and the number of conditions taken off the front: conditions on the row
  number and logical operators, up to the first condition on a column.
\<close>

fun select_bounds :: "Condition list \<Rightarrow> nat \<Rightarrow> nat \<Rightarrow> nat \<Rightarrow> exn + (nat \<times> nat \<times> nat)" where
  "select_bounds [] i mx numOfIdConds = Inr (i, mx, numOfIdConds)"
| "select_bounds (c # cs) i mx numOfIdConds =
     (if cond_type c = TO_INDEX then
        bindE (get_int64 (desired c)) (\<lambda>w. select_bounds cs i (unat w) (numOfIdConds + 1))
      else if cond_type c = FROM_INDEX then
        bindE (get_int64 (desired c)) (\<lambda>w. select_bounds cs (unat w) mx (numOfIdConds + 1))
      else if cond_type c = LOGICAL_AND \<or> cond_type c = LOGICAL_OR then
        select_bounds cs i mx (numOfIdConds + 1)
      else Inr (i, mx, numOfIdConds))"

text \<open>
  The comparison handed to \<^verbatim>\<open>std::stable_sort\<close>, on rows that are long enough for the clauses;
  with fewer than two rows nothing is compared.
\<close>

fun row_before :: "oderTypeOpt list \<Rightarrow> variant_types list \<Rightarrow> variant_types list \<Rightarrow> bool" where
  "row_before [] a b = False"
| "row_before (cl # cls) a b =
     (if \<not> variant_eq (a ! rawId cl) (b ! rawId cl)
      then (if isGreaterSort cl then variant_less (b ! rawId cl) (a ! rawId cl)
            else variant_less (a ! rawId cl) (b ! rawId cl))
      else row_before cls a b)"

definition sort_rows :: "oderTypeOpt list \<Rightarrow> variant_types list list \<Rightarrow> exn + variant_types list list" where
  "sort_rows cls rws =
     (if length rws \<ge> 2 \<and> (\<exists>cl\<in>set cls. \<exists>row\<in>set rws. length row \<le> rawId cl)
      then Inl (Undefined ''operator[]: index out of range'')
      else stable_sort (row_before cls) rws)"

definition executeSelect :: "SelectQuery \<Rightarrow> (exec, unit) act" where
  "executeSelect q =
     bnd (on_result (\<lambda>r. r\<lparr>messeage := ''Selected''\<rparr>)) (\<lambda>_.
     bnd (push_column ''ID'' ''INT64'') (\<lambda>_.
     bnd (seq_all (map (\<lambda>ind. bnd (reads (\<lambda>s. index_vec (columns (info (etable s))) ind)) (\<lambda>c.
            push_column (col_name c) (typeToString (col_type c)))) (s_columns_optimized q))) (\<lambda>_.
     if conditions q \<noteq> [] \<and> cond_type (hd (conditions q)) = DIRECT_INDEX then
       bnd (reads (\<lambda>_. get_int64 (desired (hd (conditions q))))) (\<lambda>w. select_row (s_columns_optimized q) (unat w))
     else
       bnd (reads (\<lambda>s. select_bounds (conditions q) 0 (getMaxActiveLine (etable s)) 0)) (\<lambda>(i, max_line, n).
       bnd (reads (\<lambda>s. Inr (scan_count (etable s) (limit q)))) (\<lambda>active_count.
       bnd (scan (select_row (s_columns_optimized q)) (drop n (conditions q)) max_line active_count i) (\<lambda>_.
       if order_columns_optimized q \<noteq> [] then
         bnd (reads (\<lambda>s. sort_rows (order_columns_optimized q) (body (eresult s)))) (\<lambda>rows.
         on_result (\<lambda>r. r\<lparr>body := rows\<rparr>))
       else ret ()))))))"

section \<open>INSERT\<close>

text \<open>
  \<^verbatim>\<open>for (i = 0; i < values.size(); i += columns.size())\<close>. A table without columns never gets
  here, since the optimizer divides by their number; the loop would not advance.
\<close>

function insert_loop :: "variant_types list \<Rightarrow> nat \<Rightarrow> (exec, unit) act" where
  "insert_loop values i s =
     (let cols = columns (info (etable s)) in
      if i < length values then
        if cols = [] then (Inl Hang, s)
        else case bnd (on_table (insert_row values cols i)) (\<lambda>insertedTo. push_body [VInt64 (of_nat insertedTo)]) s of
            (Inl e, s') \<Rightarrow> (Inl e, s')
          | (Inr _, s') \<Rightarrow> insert_loop values (i + length cols) s'
      else (Inr (), s))"
  by pat_completeness auto
termination
proof (relation "measure (\<lambda>(values, i, s). length values - i)", goal_cases)
  case (2 "values" i s x xa y)
  then have "0 < length (columns (info (etable s)))" by simp
  with 2 show ?case by (simp add: diff_less_mono2)
qed simp

declare insert_loop.simps [simp del]

definition executeInsert :: "InsertQuery \<Rightarrow> (exec, unit) act" where
  "executeInsert q =
     bnd (push_column ''ID'' ''INT64'') (\<lambda>_.
     catch_std
       (bnd (insert_loop (i_values q) 0) (\<lambda>_. on_result (\<lambda>r. r\<lparr>messeage := ''Inserted'', isSucces := True\<rparr>)))
       (\<lambda>e. on_result (\<lambda>r. r\<lparr>error := what e\<rparr>)))"

section \<open>DELETE\<close>

text \<open>
  Bounds of the scan. The lower bound is computed and not used: the loop declares its own \<^verbatim>\<open>i\<close>.
  The conditions on the row number are not taken off the list.
\<close>

fun scan_bound :: "Condition list \<Rightarrow> nat \<Rightarrow> exn + nat" where
  "scan_bound [] mx = Inr mx"
| "scan_bound (c # cs) mx =
     (if cond_type c = TO_INDEX then bindE (get_int64 (desired c)) (\<lambda>w. scan_bound cs (unat w))
      else if cond_type c = FROM_INDEX then bindE (get_int64 (desired c)) (\<lambda>_. scan_bound cs mx)
      else Inr mx)"

definition delete_row :: "nat \<Rightarrow> (exec, unit) act" where
  "delete_row i = bnd (on_table (erase i)) (\<lambda>_. push_body [VInt64 (of_nat i)])"

definition executeDelete :: "DeleteQuery \<Rightarrow> (exec, unit) act" where
  "executeDelete q =
     bnd (push_column ''ID'' ''INT64'') (\<lambda>_.
     if conditions q \<noteq> [] \<and> cond_type (hd (conditions q)) = DIRECT_INDEX then
       bnd (reads (\<lambda>_. get_int64 (desired (hd (conditions q))))) (\<lambda>line_id.
       bnd (reads (\<lambda>s. isActive (storage (etable s)) (unat line_id))) (\<lambda>a.
       bnd (if a then bnd (on_table (erase (unat line_id))) (\<lambda>_. on_result (\<lambda>r. r\<lparr>isSucces := True\<rparr>)) else ret ()) (\<lambda>_.
       push_body [VInt64 line_id])))
     else
       bnd (reads (\<lambda>s. scan_bound (conditions q) (getMaxActiveLine (etable s)))) (\<lambda>max_line.
       bnd (reads (\<lambda>s. Inr (scan_count (etable s) (limit q)))) (\<lambda>active_count.
       bnd (scan delete_row (conditions q) max_line active_count 0) (\<lambda>_.
       on_result (\<lambda>r. r\<lparr>isSucces := True\<rparr>)))))"

section \<open>UPDATE\<close>

definition update_row :: "variant_types list \<Rightarrow> Column list \<Rightarrow> nat \<Rightarrow> (exec, unit) act" where
  "update_row values cols i = bnd (on_table (update values cols i 0)) (\<lambda>_. push_body [VInt64 (of_nat i)])"

definition executeUpdate :: "UpdateQuery \<Rightarrow> (exec, unit) act" where
  "executeUpdate q =
     bnd (push_column ''ID'' ''INT64'') (\<lambda>_.
     bnd (reads (\<lambda>s. mapE (index_vec (columns (info (etable s)))) (u_columns_optimized q))) (\<lambda>columns_to_update.
     if conditions q \<noteq> [] \<and> cond_type (hd (conditions q)) = DIRECT_INDEX then
       bnd (reads (\<lambda>_. get_int64 (desired (hd (conditions q))))) (\<lambda>line_id.
       bnd (reads (\<lambda>s. isActive (storage (etable s)) (unat line_id))) (\<lambda>a.
       if a then bnd (update_row (u_values q) columns_to_update (unat line_id)) (\<lambda>_.
                 on_result (\<lambda>r. r\<lparr>isSucces := True\<rparr>))
       else ret ()))
     else
       bnd (reads (\<lambda>s. scan_bound (conditions q) (getMaxActiveLine (etable s)))) (\<lambda>max_line.
       bnd (reads (\<lambda>s. Inr (scan_count (etable s) (limit q)))) (\<lambda>active_count.
       scan (update_row (u_values q) columns_to_update) (conditions q) max_line active_count 0))))"

fun execute :: "QueryVariant \<Rightarrow> (exec, unit) act" where
  "execute (QSelect q) = bnd (on_result (\<lambda>r. r\<lparr>isSucces := True\<rparr>)) (\<lambda>_. executeSelect q)"
| "execute (QInsert q) = bnd (on_result (\<lambda>r. r\<lparr>isSucces := True\<rparr>)) (\<lambda>_. executeInsert q)"
| "execute (QDelete q) = bnd (on_result (\<lambda>r. r\<lparr>isSucces := True\<rparr>)) (\<lambda>_. executeDelete q)"
| "execute (QUpdate q) = bnd (on_result (\<lambda>r. r\<lparr>isSucces := True\<rparr>)) (\<lambda>_. executeUpdate q)"

section \<open>The order of rows\<close>

definition sortable :: "oderTypeOpt list \<Rightarrow> variant_types list \<Rightarrow> bool" where
  "sortable cls a \<longleftrightarrow> (\<forall>cl\<in>set cls. rawId cl < length a \<and> comparable (a ! rawId cl))"

text \<open>The order of one clause, and \<open>row_before\<close> as the lexicographic order it is.\<close>

definition ahead :: "oderTypeOpt \<Rightarrow> variant_types list \<Rightarrow> variant_types list \<Rightarrow> bool" where
  "ahead cl a b \<longleftrightarrow> (if isGreaterSort cl then variant_less (b ! rawId cl) (a ! rawId cl)
                     else variant_less (a ! rawId cl) (b ! rawId cl))"

definition level :: "oderTypeOpt \<Rightarrow> variant_types list \<Rightarrow> variant_types list \<Rightarrow> bool" where
  "level cl a b \<longleftrightarrow> variant_eq (a ! rawId cl) (b ! rawId cl)"

lemma row_before_Cons: "row_before (cl # cls) a b \<longleftrightarrow> ahead cl a b \<or> level cl a b \<and> row_before cls a b"
  using variant_less_not_eq variant_eq_sym by (auto simp: ahead_def level_def)

lemma ahead_laws:
  "\<not> ahead cl a a" "ahead cl a b \<Longrightarrow> ahead cl b c \<Longrightarrow> ahead cl a c"
  "level cl a b \<Longrightarrow> level cl b c \<Longrightarrow> level cl a c" "level cl a b \<Longrightarrow> level cl b a"
  unfolding ahead_def level_def
  by (auto simp: variant_less_irrefl intro: variant_less_trans variant_eq_trans variant_eq_sym split: if_splits)

lemma ahead_level:
  "ahead cl a b \<Longrightarrow> level cl b c \<Longrightarrow> ahead cl a c" "level cl a b \<Longrightarrow> ahead cl b c \<Longrightarrow> ahead cl a c"
  unfolding ahead_def level_def
  by (metis variant_eq_sym variant_less_eq_trans)+

lemma ahead_total: "sortable (cl # cls) a \<Longrightarrow> sortable (cl # cls) b \<Longrightarrow> ahead cl a b \<or> level cl a b \<or> ahead cl b a"
  using variant_trichotomy [of "a ! rawId cl" "b ! rawId cl"] unfolding sortable_def ahead_def level_def by auto

lemma row_before_irrefl: "\<not> row_before cls a a"
  by (induction cls) (auto simp: variant_less_irrefl)

lemma row_before_trans: "row_before cls a b \<Longrightarrow> row_before cls b c \<Longrightarrow> row_before cls a c"
proof (induction cls)
  case (Cons cl cls)
  then show ?case unfolding row_before_Cons using ahead_laws(2,3) ahead_level by metis
qed simp

lemma row_before_neg_trans:
  "sortable cls a \<Longrightarrow> sortable cls b \<Longrightarrow> sortable cls c \<Longrightarrow> row_before cls a c \<Longrightarrow> row_before cls a b \<or> row_before cls b c"
proof (induction cls)
  case (Cons cl cls)
  have "sortable cls x" if "sortable (cl # cls) x" for x using that by (simp add: sortable_def)
  then have "row_before cls a c \<Longrightarrow> row_before cls a b \<or> row_before cls b c" using Cons by blast
  moreover have "ahead cl a b \<or> level cl a b \<or> ahead cl b a" "ahead cl b c \<or> level cl b c \<or> ahead cl c b"
    using ahead_total Cons.prems by blast+
  ultimately show ?case using Cons.prems(4) unfolding row_before_Cons using ahead_laws ahead_level by metis
qed simp

interpretation rb: weak_order "row_before cls" "{a. sortable cls a}" for cls
  by unfold_locales (auto simp: row_before_irrefl intro: row_before_trans dest: row_before_neg_trans)

lemma sort_rows_spec:
  assumes "\<forall>row\<in>set rws. sortable cls row"
  shows "\<exists>rws'. sort_rows cls rws = Inr rws' \<and> stably_sorted (row_before cls) rws rws'"
proof -
  have "\<not> (\<exists>cl\<in>set cls. \<exists>row\<in>set rws. length row \<le> rawId cl)" using assms by (force simp: sortable_def)
  then show ?thesis using rb.stable_sort_spec [of rws cls] assms by (auto simp: sort_rows_def)
qed

end
