(* ===== verification/Table_Open.thy ===== *)
theory Table_Open
  imports Table_Rows
begin

text \<open>
  What the constructor of a table (\<^verbatim>\<open>Tabble::Tabble\<close> of \<^verbatim>\<open>src/src/files/Tabble.h\<close>)
  makes of the info file and the storage file: the loops of \<^verbatim>\<open>analyzeHoles\<close> recover the
  free lines and the count of rows, so that a table that is opened again has the rows it had.
\<close>

section \<open>The constructor\<close>

text \<open>
  A storage file as it is found: the layout agrees with the table's, the flags are flags and the
  values of the active lines can be read. Whatever is on the free list is forgotten when a table is
  closed; \<open>analyzeHoles\<close> finds it again.
\<close>

definition file_ok :: "TabbleInfo \<Rightarrow> memory_map \<Rightarrow> bool" where
  "file_ok ti m \<longleftrightarrow> wf_map m \<and> wf_info ti \<and> lineLength m = info_lineLength ti \<and> flags_ok m \<and>
     (\<forall>i\<in>active m. \<forall>c\<in>set (columns ti). \<exists>v. stored_value c (cell m i (offset c) (col_size c)) = Inr v)"

definition fresh_table :: "string \<Rightarrow> TabbleInfo \<Rightarrow> memory_map \<Rightarrow> table" where
  "fresh_table base ti m = \<lparr>baseName = base, info = ti, storage = m, stack_freeId = [], freeId = 0, activePlaces = 0\<rparr>"

definition full :: "memory_map \<Rightarrow> bool" where
  "full m \<longleftrightarrow> active m = {..<max_line m}"

lemma first_hole_spec:
  assumes "wf_map m" and "flags_ok m" and "ind \<le> max_line m"
  shows "\<exists>k. first_hole m ind (max_line m) = Inr k \<and> (k = max_line m \<longleftrightarrow> {ind..<max_line m} \<subseteq> active m)"
  using assms(3)
proof (induction "max_line m - ind" arbitrary: ind)
  case 0
  then show ?case by (subst first_hole.simps) simp
next
  case (Suc n)
  then have ind: "ind < max_line m" by simp
  show ?case
  proof (cases "ind \<in> active m")
    case True
    moreover have "{ind..<max_line m} = insert ind {Suc ind..<max_line m}" using ind by auto
    ultimately show ?thesis
      using Suc ind isActive_flags [OF assms(1,2) ind] by (subst first_hole.simps) (auto intro: Suc(1))
  next
    case False
    then show ?thesis
      using ind isActive_flags [OF assms(1,2) ind] by (subst first_hole.simps) auto
  qed
qed

lemma count_active_append:
  "count_active m (xs @ ys) fa = bindE (count_active m xs fa) (count_active m ys)"
proof (induction xs arbitrary: fa)
  case (Cons x xs)
  then show ?case by (cases "isActive m x") simp_all
qed simp

lemma count_active_spec:
  assumes "wf_map m" and "flags_ok m" and "n \<le> max_line m" and "max_line m < SIZE_MOD"
  shows "\<exists>f. count_active m [0..<n] (0, 0) = Inr (f, card (active m \<inter> {..<n})) \<and> f \<le> n \<and>
     active m \<inter> {..<n} \<subseteq> {..<f} \<and> (f = 0 \<or> f - 1 \<in> active m)"
  using assms(3)
proof (induction n)
  case (Suc n)
  then obtain f where f: "count_active m [0..<n] (0, 0) = Inr (f, card (active m \<inter> {..<n}))" "f \<le> n"
    "active m \<inter> {..<n} \<subseteq> {..<f}" "f = 0 \<or> f - 1 \<in> active m" by auto
  have a: "isActive m n = Inr (n \<in> active m)" using isActive_flags [OF assms(1,2)] Suc.prems by simp
  have "card (active m \<inter> {..<n}) \<le> card {..<n}" by (intro card_mono) auto
  then have c: "size_add (card (active m \<inter> {..<n})) (Suc 0) = Suc (card (active m \<inter> {..<n}))"
    using Suc.prems assms(4) by (simp add: size_add_small)
  show ?case
  proof (cases "n \<in> active m")
    case True
    then have "active m \<inter> {..<Suc n} = insert n (active m \<inter> {..<n})" by (auto simp: less_Suc_eq)
    then show ?thesis using True f a c by (auto simp: count_active_append)
  next
    case False
    then have "active m \<inter> {..<Suc n} = active m \<inter> {..<n}" by (auto simp: less_Suc_eq)
    then show ?thesis using False f a by (auto simp: count_active_append)
  qed
qed simp

lemma collect_holes_spec:
  assumes "wf_map m" and "flags_ok m" and "set is \<subseteq> {..<max_line m}"
  shows "collect_holes m is st = Inr (rev (filter (\<lambda>i. i \<notin> active m) is) @ st)"
  using assms(3)
proof (induction "is" arbitrary: st)
  case (Cons i "is")
  then show ?case using isActive_flags [OF assms(1,2), of i] by simp
qed simp

lemma rows_fresh_table: "rows t = rows (fresh_table (baseName t) (info t) (storage t))"
  by (rule rows_cong) (simp_all add: fresh_table_def)

lemma column_value_fresh: "column_value (fresh_table base ti m) i c = stored_value c (cell m i (offset c) (col_size c))"
  by (simp add: column_value_def fresh_table_def)

lemma max_line_small: "wf_map m \<Longrightarrow> max_line m < SIZE_MOD"
  by (metis max_line_def div_le_dividend order_le_less_trans wf_map_size)

text \<open>Counting and collecting the holes of a file with a free line.\<close>

lemma analyzed_wf:
  assumes "file_ok ti m" and "f \<le> max_line m" and "active m \<subseteq> {..<f}"
  shows "wf_table \<lparr>baseName = base, info = ti, storage = m,
      stack_freeId = rev (filter (\<lambda>i. i \<notin> active m) [0..<f]), freeId = f, activePlaces = card (active m)\<rparr>"
  using assms by (auto simp: wf_table_def wf_but_def file_ok_def column_value_def)

lemma file_ok_grown:
  assumes "file_ok ti m" and "can_grow m"
  shows "file_ok ti (grown m)" and "rows (fresh_table base ti (grown m)) = rows (fresh_table base ti m)"
proof -
  let ?t = "fresh_table base ti m"
  have m: "wf_map m" "wf_info ti" "lineLength m = info_lineLength ti" "flags_ok m"
    using assms(1) by (simp_all add: file_ok_def)
  have v: "cell (grown m) i (offset c) (col_size c) = cell m i (offset c) (col_size c)"
    if "i \<in> active m" "c \<in> set (columns ti)" for i c
    using m wf_info_column [OF m(2) that(2)] active_bound [OF that(1)] by (intro cell_grown) simp_all
  then show "file_ok ti (grown m)"
    using assms(1) wf_grown [OF m(1) assms(2)]
    by (simp add: file_ok_def flags_ok_grown active_grown)
  have "row_values (fresh_table base ti (grown m)) i = row_values ?t i" if "i \<in> active m" for i
    by (rule row_values_cong) (use that v in \<open>simp_all add: fresh_table_def column_value_def\<close>)
  then show "rows (fresh_table base ti (grown m)) = rows ?t"
    by (simp add: fun_eq_iff rows_def active_grown m(1) fresh_table_def)
qed

lemma analyze_loops:
  assumes "file_ok ti m"
  shows "\<exists>f. count_active m [0..<max_line m] (0, 0) = Inr (f, card (active m)) \<and>
     collect_holes m [0..<f] [] = Inr (rev (filter (\<lambda>i. i \<notin> active m) [0..<f])) \<and>
     f \<le> max_line m \<and> active m \<subseteq> {..<f} \<and> (f = 0 \<or> f - 1 \<in> active m)"
proof -
  have m: "wf_map m" "flags_ok m" using assms by (simp_all add: file_ok_def)
  have i: "active m \<inter> {..<max_line m} = active m" using active_bound by auto
  obtain f where f: "count_active m [0..<max_line m] (0, 0) = Inr (f, card (active m))" "f \<le> max_line m"
    "active m \<subseteq> {..<f}" "f = 0 \<or> f - 1 \<in> active m"
    using count_active_spec [OF m order_refl max_line_small [OF m(1)]] i by auto
  moreover have "collect_holes m [0..<f] [] = Inr (rev (filter (\<lambda>i. i \<notin> active m) [0..<f]))"
    using collect_holes_spec [OF m, of "[0..<f]" "[]"] f(2) by (simp add: subset_eq)
  ultimately show ?thesis by blast
qed

lemma analyzeHoles_spec:
  assumes "file_ok ti m" and "full m \<Longrightarrow> can_grow m"
  shows "\<exists>t. analyzeHoles (fresh_table base ti m) = (Inr (), t) \<and> wf_table t \<and> info t = ti \<and>
     rows t = rows (fresh_table base ti m) \<and> activePlaces t = card (active m) \<and>
     (freeId t = 0 \<or> freeId t - 1 \<in> active m) \<and> storage t = (if full m then grown m else m)"
proof -
  define m' where "m' = (if full m then grown m else m)"
  have m: "wf_map m" "flags_ok m" using assms(1) by (simp_all add: file_ok_def)
  have ok: "file_ok ti m'" and r: "rows (fresh_table base ti m') = rows (fresh_table base ti m)"
    using assms file_ok_grown [OF assms(1)] by (auto simp: m'_def)
  have act: "active m' = active m" by (simp add: m'_def active_grown m(1))
  have m': "wf_map m'" using ok by (simp add: file_ok_def)
  obtain k where k: "first_hole m 0 (max_line m) = Inr k" "k = max_line m \<longleftrightarrow> {0..<max_line m} \<subseteq> active m"
    using first_hole_spec [OF m, of 0] by auto
  have full: "full m \<longleftrightarrow> k = max_line m" using k(2) active_bound by (auto simp: full_def)
  obtain f where f: "count_active m' [0..<max_line m'] (0, 0) = Inr (f, card (active m'))"
    "collect_holes m' [0..<f] [] = Inr (rev (filter (\<lambda>i. i \<notin> active m') [0..<f]))"
    "f \<le> max_line m'" "active m' \<subseteq> {..<f}" "f = 0 \<or> f - 1 \<in> active m'"
    using analyze_loops [OF ok] by blast
  let ?t = "\<lparr>baseName = base, info = ti, storage = m',
      stack_freeId = rev (filter (\<lambda>i. i \<notin> active m') [0..<f]), freeId = f, activePlaces = card (active m')\<rparr>"
  have "analyzeHoles (fresh_table base ti m) = (Inr (), ?t)"
  proof (cases "full m")
    case True
    then have "expand m = (Inr True, m')" using expand_wf [OF m(1) assms(2)] by (simp add: m'_def)
    then show ?thesis
      using True full k(1) f m' m
      by (simp add: analyzeHoles_def bnd_def fresh_table_def on_storage_def zoom_def)
  next
    case False
    then have "m' = m" by (simp add: m'_def)
    then show ?thesis
      using False full k(1) f m by (simp add: analyzeHoles_def bnd_def fresh_table_def)
  qed
  moreover have "rows ?t = rows (fresh_table base ti m')" using rows_fresh_table [of ?t] by simp
  ultimately show ?thesis using analyzed_wf [OF ok f(3,4)] r act f(5) by (auto simp: m'_def)
qed

section \<open>Opening a table\<close>

lemma new_Tabble_steps:
  assumes "wf_definition ds" and "openFile (makeStorageName base) bs (new_MemoryMap (1 + total_size ds) maxf maxm) = (Inr b, m)"
    and "analyzeHoles (fresh_table base (info_of ds) m) = (Inr (), t)"
  shows "new_Tabble base (Some (info_text ds)) bs maxf maxm = Inr t"
  using load_info_of_text [OF assms(1)] assms(2,3)
  by (auto simp: new_Tabble_def new_InfoLoader_def loadFile_def info_of_def fresh_table_def)

text \<open>A storage file that does not exist yet gets a hundred lines of zero bytes.\<close>

definition blank_map :: "nat \<Rightarrow> nat \<Rightarrow> nat \<Rightarrow> memory_map" where
  "blank_map len maxf maxm =
     \<lparr>mappedData = Mapped, file_bytes = replicate (100 * len) NUL, fileSize = 100 * len, lineLength = len,
      expanding = False, max_file = maxf, max_map = maxm\<rparr>"

lemma openFile_new:
  assumes "0 < len" and "100 * len \<le> maxf" and "100 * len \<le> maxm" and "maxf < 2 ^ 63"
  shows "openFile fn (Some []) (new_MemoryMap len maxf maxm) = (Inr True, blank_map len maxf maxm)"
proof -
  have "size_mul len 100 = 100 * len" using assms by (simp add: size_mul_small)
  then show ?thesis
    using assms by (simp add: openFile_def new_MemoryMap_def close_map_def Let_def blank_map_def str_resize_def)
qed

lemma blank_map_ok:
  assumes "wf_info ti" and "len = info_lineLength ti" and "0 < len" and "100 * len \<le> maxf"
    and "100 * len \<le> maxm" and "maxf < 2 ^ 63"
  shows "file_ok ti (blank_map len maxf maxm)" and "active (blank_map len maxf maxm) = {}"
    and "\<not> full (blank_map len maxf maxm)"
proof -
  let ?m = "blank_map len maxf maxm"
  have wf: "wf_map ?m" using assms by (auto simp: wf_map_def blank_map_def)
  have ml: "max_line ?m = 100" using assms(3) by (simp add: max_line_def blank_map_def)
  have "cell ?m i 0 1 = enc_bool False" if "i < max_line ?m" for i
  proof -
    have "i * len + 0 + 1 \<le> 100 * len" using line_in_file [OF that, of 0 1] assms(3) by (simp add: blank_map_def)
    then show ?thesis by (simp add: cell_def blank_map_def get_bytes_def enc_bool_bytes)
  qed
  then have f: "flags_ok ?m" "active ?m = {}" by (auto simp: flags_ok_def active_def)
  then show "file_ok ti ?m" "active ?m = {}" using wf assms(1,2) by (auto simp: file_ok_def blank_map_def)
  show "\<not> full ?m" using f(2) ml by (simp add: full_def lessThan_empty_iff eq_commute [of "{}"])
qed

lemma new_table_opens:
  assumes "wf_definition ds" and "\<forall>(n, t, z)\<in>set ds. t \<noteq> VOIDA \<and> (t = STRING \<longrightarrow> 0 < z)"
    and "100 * (1 + total_size ds) \<le> maxf" and "100 * (1 + total_size ds) \<le> maxm" and "maxf < 2 ^ 63"
  shows "\<exists>t. new_Tabble base (Some (info_text ds)) (Some []) maxf maxm = Inr t \<and> wf_table t \<and>
     info t = info_of ds \<and> rows t = Map.empty \<and> activePlaces t = 0 \<and> freeId t = 0 \<and>
     storage t = blank_map (1 + total_size ds) maxf maxm"
proof -
  let ?m = "blank_map (1 + total_size ds) maxf maxm"
  have len: "1 + total_size ds = info_lineLength (info_of ds)" by (simp add: info_of_def)
  note b = blank_map_ok [OF wf_info_of [OF assms(1,2)] len _ assms(3-5)]
  obtain t where t: "analyzeHoles (fresh_table base (info_of ds) ?m) = (Inr (), t)" "wf_table t"
    "info t = info_of ds" "rows t = rows (fresh_table base (info_of ds) ?m)" "activePlaces t = card (active ?m)" "freeId t = 0" "storage t = ?m"
    using analyzeHoles_spec [OF b(1)] b(2,3) by auto
  have "rows t = Map.empty" using t(4) b(2) by (simp add: fun_eq_iff rows_def fresh_table_def)
  then show ?thesis
    using new_Tabble_steps [OF assms(1) openFile_new t(1)] assms(3-5) t b(2) by auto
qed

text \<open>A storage file that a table has left is mapped as it was.\<close>

lemma openFile_again:
  assumes "wf_map m" and "lineLength m < fileSize m"
  shows "openFile fn (Some (file_bytes m)) (new_MemoryMap (lineLength m) (max_file m) (max_map m)) = (Inr True, m)"
  using assms by (simp add: openFile_def new_MemoryMap_def close_map_def Let_def wf_map_def)

lemma table_reopens_storage:
  assumes "wf_table t" and "wf_definition ds" and "info t = info_of ds"
    and "lineLength (storage t) < fileSize (storage t)" and "full (storage t) \<Longrightarrow> can_grow (storage t)"
  shows "\<exists>t'. new_Tabble base (Some (info_text ds)) (Some (file_bytes (storage t)))
       (max_file (storage t)) (max_map (storage t)) = Inr t' \<and> wf_table t' \<and> info t' = info t \<and>
     rows t' = rows t \<and> activePlaces t' = card (dom (rows t)) \<and>
     storage t' = (if full (storage t) then grown (storage t) else storage t)"
proof -
  have wf: "wf_but {} t" using assms(1) by (simp add: wf_table_def)
  note d = wf_but_dest [OF wf]
  have ok: "file_ok (info_of ds) (storage t)"
    using d(1-4,11) assms(3) by (simp add: file_ok_def column_value_def)
  have len: "lineLength (storage t) = 1 + total_size ds" using d(3) assms(3) by (simp add: info_of_def)
  obtain t' where t': "analyzeHoles (fresh_table base (info_of ds) (storage t)) = (Inr (), t')" "wf_table t'"
    "info t' = info_of ds" "rows t' = rows (fresh_table base (info_of ds) (storage t))"
    "activePlaces t' = card (active (storage t))" "storage t' = (if full (storage t) then grown (storage t) else storage t)"
    using analyzeHoles_spec [OF ok assms(5)] by blast
  have "rows (fresh_table base (info_of ds) (storage t)) = rows t"
    by (rule rows_cong) (simp_all add: fresh_table_def assms(3))
  moreover have "new_Tabble base (Some (info_text ds)) (Some (file_bytes (storage t)))
      (max_file (storage t)) (max_map (storage t)) = Inr t'"
    using new_Tabble_steps [OF assms(2) _ t'(1)] openFile_again [OF d(1) assms(4)] len by simp
  ultimately show ?thesis using t' assms(3) dom_rows [OF wf] by auto
qed

lemma table_reopens:
  assumes "wf_table t" and "wf_definition ds" and "info t = info_of ds"
    and "lineLength (storage t) < fileSize (storage t)" and "full (storage t) \<Longrightarrow> can_grow (storage t)"
  shows "\<exists>t'. new_Tabble base (Some (info_text ds)) (Some (file_bytes (storage t)))
       (max_file (storage t)) (max_map (storage t)) = Inr t' \<and> wf_table t' \<and> info t' = info t \<and>
     rows t' = rows t \<and> activePlaces t' = card (dom (rows t))"
  using table_reopens_storage [OF assms] by blast

end
