(* ===== verification/Execution.thy ===== *)
theory Execution
  imports Executor Table_Open
begin

text \<open>
  What the executor's statements do to the rows of a well-formed table. A \<^verbatim>\<open>WHERE\<close> clause is
  evaluated on the values of a row, from left to right (\<open>passes\<close>). The locale \<open>scan_work\<close> is
  what the shared scan relies on: work on a row appends one row to the result and touches one line of
  the storage. It is interpreted on the work of \<^verbatim>\<open>SELECT\<close>, \<^verbatim>\<open>DELETE\<close> and
  \<^verbatim>\<open>UPDATE\<close>.
\<close>

section \<open>Conditions on rows\<close>

fun meets :: "Condition \<Rightarrow> variant_types \<Rightarrow> bool" where
  "meets c v = (case cond_type c of
       EQUAL \<Rightarrow> variant_eq v (desired c) | NOT_EQUAL \<Rightarrow> \<not> variant_eq v (desired c)
     | GREATER \<Rightarrow> variant_less (desired c) v | LESS \<Rightarrow> variant_less v (desired c) | _ \<Rightarrow> False)"

text \<open>A logical operator, or a comparison with a column of the table.\<close>

definition plain :: "TabbleInfo \<Rightarrow> Condition \<Rightarrow> bool" where
  "plain ti c \<longleftrightarrow> logical_cond c \<or>
     collumn_id c < length (columns ti) \<and> cond_type c \<in> {EQUAL, NOT_EQUAL, GREATER, LESS}"

text \<open>The operator before a condition combines it with everything to its left; there is no precedence.\<close>

fun eval_from :: "variant_types list \<Rightarrow> Condition list \<Rightarrow> bool \<Rightarrow> ConditionType \<Rightarrow> bool" where
  "eval_from r [] acc op1 = acc"
| "eval_from r (c # cs) acc op1 =
     (if collumn_id c = SIZE_MAX then eval_from r cs acc (cond_type c)
      else eval_from r cs (if op1 = LOGICAL_OR then acc \<or> meets c (r ! collumn_id c)
                           else acc \<and> meets c (r ! collumn_id c)) op1)"

definition passes :: "Condition list \<Rightarrow> variant_types list \<Rightarrow> bool" where
  "passes cs r \<longleftrightarrow> cs = [] \<or> eval_from r cs False LOGICAL_OR"

definition row_passes :: "table \<Rightarrow> Condition list \<Rightarrow> nat \<Rightarrow> bool" where
  "row_passes t cs i \<longleftrightarrow> (case rows t i of None \<Rightarrow> False | Some r \<Rightarrow> passes cs r)"

lemma read_column_wf:
  assumes "wf_but S t" and "i < max_line (storage t)" and "c \<in> set (columns (info t))"
  shows "read_column t i c = column_value t i c"
proof -
  note d = wf_but_dest [OF assms(1)]
  have c: "wf_column c" "offset c + col_size c \<le> lineLength (storage t)"
    using wf_info_column [OF d(2) assms(3)] d(3) by simp_all
  show ?thesis
  proof (cases "col_type c = TEXT \<or> col_type c = STRING")
    case True
    then have "0 < col_size c" using c(1) by (auto simp: wf_column_def)
    then show ?thesis
      using True readText_wf [OF d(1) assms(2) c(2)]
      by (simp add: read_column_def table_readText_def column_value_def stored_value_def)
  next
    case False
    then have "col_size c = type_sizes (col_type c)" "col_type c \<in> {INT32, INT64, DOUBLE, FLOAT, BOOL}"
      using c(1) by (auto simp: wf_column_def intro: Type.exhaust [of "col_type c"])
    then show ?thesis
      using False readNumber_wf [OF d(1) assms(2) c(2)]
      by (simp add: read_column_def table_readNumber_def column_value_def stored_value_def)
  qed
qed

lemma rows_Some:
  assumes "wf_but S t" and "rows t i = Some r"
  shows "i \<in> active (storage t)" and "i < max_line (storage t)" and "i < freeId t" and "length r = length (columns (info t))"
    and "j < length (columns (info t)) \<Longrightarrow> column_value t i (columns (info t) ! j) = Inr (r ! j)"
proof -
  show a: "i \<in> active (storage t)" using assms dom_rows [OF assms(1)] by auto
  then show "i < max_line (storage t)" "i < freeId t"
    using active_bound wf_but_dest(5) [OF assms(1)] by auto
  have r: "mapE (column_value t i) (columns (info t)) = Inr r"
    using assms(2) rows_wf [OF assms(1) a] by (auto simp: row_values_def)
  show "length r = length (columns (info t))" using mapE_length [OF r] .
  show "j < length (columns (info t)) \<Longrightarrow> column_value t i (columns (info t) ! j) = Inr (r ! j)"
    using mapE_nth [OF r] .
qed

lemma read_column_row:
  assumes "wf_but S t" and "rows t i = Some r" and "j < length (columns (info t))"
  shows "read_column t i (columns (info t) ! j) = Inr (r ! j)"
  using rows_Some [OF assms(1,2)] read_column_wf [OF assms(1)] assms(3) by simp

lemma condition_result_meets:
  "cond_type c \<in> {EQUAL, NOT_EQUAL, GREATER, LESS} \<Longrightarrow> condition_result c v = Inr (meets c v)"
  by (auto simp: condition_result_def)

text \<open>The columns of a line do not overlap, so there are fewer of them than \<^verbatim>\<open>SIZE_MAX\<close>.\<close>

lemma column_size_pos: "wf_column c \<Longrightarrow> 0 < col_size c"
  by (cases "col_type c") (auto simp: wf_column_def split: if_splits)

lemma column_offset_ge:
  assumes "wf_info ti" and "j < length (columns ti)"
  shows "j < offset (columns ti ! j)"
  using assms(2)
proof (induction j)
  case 0
  then show ?case using wf_info_column [OF assms(1), of "columns ti ! 0"] by simp
next
  case (Suc j)
  have "sorted_wrt before (columns ti)" using assms(1) by (simp add: wf_info_def)
  then have "before (columns ti ! j) (columns ti ! Suc j)" using Suc.prems by (simp add: sorted_wrt_nth_less)
  moreover have "0 < col_size (columns ti ! j)"
    using column_size_pos wf_info_column [OF assms(1), of "columns ti ! j"] Suc.prems by simp
  ultimately show ?case using Suc by (simp add: before_def)
qed

lemma columns_not_SIZE_MAX:
  assumes "wf_but S t" and "j < length (columns (info t))"
  shows "j \<noteq> SIZE_MAX"
proof -
  note d = wf_but_dest [OF assms(1)]
  have "j < lineLength (storage t)"
    using column_offset_ge [OF d(2) assms(2)] wf_info_column [OF d(2), of "columns (info t) ! j"] assms(2) d(3)
    by simp
  moreover have "lineLength (storage t) < SIZE_MOD" "0 < lineLength (storage t)"
    using wf_map_size [OF d(1)] d(1) by (simp_all add: wf_map_def)
  moreover have "lineLength (storage t) \<le> 2 ^ 63" using d(1) by (simp add: wf_map_def)
  ultimately show ?thesis by (simp add: SIZE_MAX_def)
qed

lemma satisfies_loop_row:
  assumes "wf_but S t" and "rows t i = Some r" and "\<forall>c\<in>set cs. plain (info t) c"
  shows "satisfies_loop t i (columns (info t)) cs acc op1 = Inr (eval_from r cs acc op1)"
  using assms(3)
proof (induction cs arbitrary: acc op1)
  case (Cons c cs)
  show ?case
  proof (cases "collumn_id c = SIZE_MAX")
    case True
    then show ?thesis using Cons by simp
  next
    case False
    then have "collumn_id c < length (columns (info t))" "cond_type c \<in> {EQUAL, NOT_EQUAL, GREATER, LESS}"
      using Cons.prems by (auto simp: plain_def logical_cond_def)
    then show ?thesis
      using False Cons read_column_row [OF assms(1,2)]
      by (simp add: index_vec_def condition_result_meets del: meets.simps)
  qed
qed simp

text \<open>The test of the scan on a line of a well-formed table.\<close>

lemma row_matches_wf:
  assumes "wf_table t" and "i < max_line (storage t)" and "\<forall>c\<in>set cs. plain (info t) c"
  shows "row_matches t cs i = Inr (row_passes t cs i)"
proof -
  have wf: "wf_but {} t" using assms(1) by (simp add: wf_table_def)
  have a: "isActive (storage t) i = Inr (rows t i \<noteq> None)"
    using isActive_table [OF wf assms(2)] dom_rows [OF wf] by auto
  show ?thesis
  proof (cases "rows t i")
    case None
    then show ?thesis using a by (simp add: row_matches_def row_passes_def)
  next
    case (Some r)
    then show ?thesis
      using a satisfies_loop_row [OF wf Some assms(3)]
      by (simp add: row_matches_def row_passes_def passes_def satisfiesConditions_def)
  qed
qed

lemma line_not_last:
  assumes "wf_map m" and "l < max_line m"
  shows "l \<noteq> int64_last"
proof -
  have "l < fileSize m"
    using assms(2) div_le_dividend [of "fileSize m" "lineLength m"] unfolding max_line_def by linarith
  then show ?thesis using assms(1) by (simp add: wf_map_def int64_last_def)
qed

section \<open>Lines that stay the same\<close>

definition same_line :: "nat \<Rightarrow> memory_map \<Rightarrow> memory_map \<Rightarrow> bool" where
  "same_line l m m' \<longleftrightarrow> lineLength m' = lineLength m \<and> max_line m' = max_line m \<and>
     (\<forall>off n. l < max_line m \<longrightarrow> off + n \<le> lineLength m \<longrightarrow> cell m' l off n = cell m l off n)"

lemma same_line_refl [simp]: "same_line l m m"
  by (simp add: same_line_def)

lemma same_line_trans: "same_line l m m' \<Longrightarrow> same_line l m' m'' \<Longrightarrow> same_line l m m''"
  by (simp add: same_line_def)

lemma only_line_same: "only_line i m m' \<Longrightarrow> l \<noteq> i \<Longrightarrow> same_line l m m'"
  using only_line_max_line [of i m m'] by (simp add: only_line_def same_line_def)

lemma same_line_rows:
  assumes "wf_but S t" and "wf_but S t'" and "info t' = info t" and "same_line l (storage t) (storage t')"
  shows "rows t' l = rows t l"
proof (cases "l < max_line (storage t)")
  case True
  note d = wf_but_dest [OF assms(1)]
  have "0 + 1 \<le> lineLength (storage t)" using d(1) by (simp add: wf_map_def)
  then have "cell (storage t') l 0 1 = cell (storage t) l 0 1" using True assms(4) by (auto simp: same_line_def)
  then have "l \<in> active (storage t') \<longleftrightarrow> l \<in> active (storage t)"
    using assms(4) by (simp add: active_def same_line_def)
  moreover have "row_values t' l = row_values t l"
    by (rule row_values_cong [OF assms(3)])
      (use True assms(4) d(3) wf_info_column [OF d(2)] in \<open>auto simp: column_value_def same_line_def\<close>)
  ultimately show ?thesis by (simp add: rows_def)
next
  case False
  then show ?thesis using assms(4) by (simp add: rows_def active_def same_line_def)
qed

section \<open>The scan\<close>

definition add_rows :: "variant_types list list \<Rightarrow> Result \<Rightarrow> Result" where
  "add_rows rs r = r\<lparr>body := body r @ rs\<rparr>"

lemma add_rows_simps [simp]:
  "add_rows [] r = r" "add_rows rs' (add_rows rs r) = add_rows (rs @ rs') r" "body (add_rows rs r) = body r @ rs"
  by (simp_all add: add_rows_def)

text \<open>The rows the scan will work on, given how many may still be added to the result.\<close>

definition chosen :: "table \<Rightarrow> Condition list \<Rightarrow> nat \<Rightarrow> nat \<Rightarrow> nat \<Rightarrow> nat list" where
  "chosen t cs k i mx = take k (filter (row_passes t cs) [i..<mx])"

lemma chosen_simps:
  "i < mx \<Longrightarrow> row_passes t cs i \<Longrightarrow> chosen t cs (Suc k) i mx = i # chosen t cs k (Suc i) mx"
  "i < mx \<Longrightarrow> \<not> row_passes t cs i \<Longrightarrow> chosen t cs k i mx = chosen t cs k (Suc i) mx"
  "mx \<le> i \<or> k = 0 \<Longrightarrow> chosen t cs k i mx = []"
  by (auto simp: chosen_def upt_conv_Cons)

lemma chosen_ge: "l \<in> set (chosen t cs k i mx) \<Longrightarrow> i \<le> l \<and> l < mx \<and> row_passes t cs l"
  by (auto simp: chosen_def dest: in_set_takeD)

lemma chosen_cong:
  "(\<And>l. i \<le> l \<Longrightarrow> rows t' l = rows t l) \<Longrightarrow> chosen t' cs k i mx = chosen t cs k i mx"
  unfolding chosen_def by (intro arg_cong [of _ _ "take k"] filter_cong) (simp_all add: row_passes_def)

text \<open>
  Work on the row with number \<open>i\<close>: allowed by the schema, it succeeds, appends \<open>out i r\<close> to
  the result, keeps the table well-formed and changes line \<open>i\<close> only, in a way that depends on
  that line only.
\<close>

locale scan_work =
  fixes work :: "nat \<Rightarrow> (exec, unit) act" and out :: "nat \<Rightarrow> variant_types list \<Rightarrow> variant_types list"
    and permits :: "TabbleInfo \<Rightarrow> bool" and effect :: "TabbleInfo \<Rightarrow> nat \<Rightarrow> memory_map \<Rightarrow> memory_map \<Rightarrow> bool"
  assumes work_law: "wf_table (etable s) \<Longrightarrow> permits (info (etable s)) \<Longrightarrow> rows (etable s) i = Some r \<Longrightarrow>
      \<exists>t'. work i s = (Inr (), s\<lparr>etable := t', eresult := add_rows [out i r] (eresult s)\<rparr>) \<and> wf_table t' \<and>
        info t' = info (etable s) \<and> only_line i (storage (etable s)) (storage t') \<and>
        effect (info t') i (storage (etable s)) (storage t')"
    and effect_cong: "wf_info ti \<Longrightarrow> lineLength m = info_lineLength ti \<Longrightarrow> i < max_line m \<Longrightarrow>
      max_line m' = max_line m \<Longrightarrow> lineLength m' = lineLength m \<Longrightarrow> effect ti i m m' \<Longrightarrow> same_line i n m \<Longrightarrow> same_line i m' n' \<Longrightarrow> effect ti i n n'"
begin

text \<open>One round of the loop.\<close>

lemma scan_stop: "\<not> (i < mx \<and> length (body (eresult s)) < cnt) \<Longrightarrow> scan work cs mx cnt i s = (Inr (), s)"
  by (subst scan.simps) auto

lemma scan_round:
  assumes "wf_table (etable s)" and "\<forall>c\<in>set cs. plain (info (etable s)) c"
    and "mx \<le> max_line (storage (etable s))" and "i < mx" and "length (body (eresult s)) < cnt"
  shows "row_passes (etable s) cs i \<Longrightarrow> work i s = (Inr (), s1) \<Longrightarrow> scan work cs mx cnt i s = scan work cs mx cnt (Suc i) s1"
    and "\<not> row_passes (etable s) cs i \<Longrightarrow> scan work cs mx cnt i s = scan work cs mx cnt (Suc i) s"
proof -
  have m: "wf_map (storage (etable s))" using assms(1) by (auto simp: wf_table_def dest: wf_but_dest(1))
  have i: "i \<noteq> int64_last" using line_not_last [OF m] assms(3,4) by simp
  have r: "row_matches (etable s) cs i = Inr (row_passes (etable s) cs i)"
    using assms by (intro row_matches_wf) simp_all
  show "row_passes (etable s) cs i \<Longrightarrow> work i s = (Inr (), s1) \<Longrightarrow> scan work cs mx cnt i s = scan work cs mx cnt (Suc i) s1"
    using i r assms(4,5) by (subst scan.simps) (simp add: bnd_def)
  show "\<not> row_passes (etable s) cs i \<Longrightarrow> scan work cs mx cnt i s = scan work cs mx cnt (Suc i) s"
    using i r assms(4,5) by (subst scan.simps) (simp add: bnd_def)
qed

text \<open>What is known of the table when the rows \<open>is\<close> have been worked on.\<close>

definition worked :: "nat list \<Rightarrow> table \<Rightarrow> table \<Rightarrow> bool" where
  "worked is t t' \<longleftrightarrow> wf_table t' \<and> info t' = info t \<and>
     max_line (storage t') = max_line (storage t) \<and> lineLength (storage t') = lineLength (storage t) \<and>
     (\<forall>l\<in>set is. effect (info t') l (storage t) (storage t')) \<and>
     (\<forall>l. l \<notin> set is \<longrightarrow> same_line l (storage t) (storage t'))"

lemma worked_Nil: "wf_table t \<Longrightarrow> worked [] t t"
  by (simp add: worked_def)

lemma worked_Cons:
  assumes "wf_table t" and "rows t i = Some r" and "wf_table t1" and "info t1 = info t"
    and "only_line i (storage t) (storage t1)" and "effect (info t1) i (storage t) (storage t1)"
    and "worked is t1 t'" and "i \<notin> set is" and "\<forall>l\<in>set is. l < max_line (storage t)"
  shows "worked (i # is) t t'"
proof -
  have wf: "wf_but {} t" "wf_but {} t1" using assms(1,3) by (simp_all add: wf_table_def)
  note d = wf_but_dest [OF wf(1)] and d1 = wf_but_dest [OF wf(2)]
  have i: "i < max_line (storage t)" using rows_Some(2) [OF wf(1) assms(2)] .
  have ml: "max_line (storage t1) = max_line (storage t)" "lineLength (storage t1) = lineLength (storage t)"
    using only_line_max_line [OF assms(5)] assms(5) by (simp_all add: only_line_def)
  have w: "info t' = info t1" "max_line (storage t') = max_line (storage t1)"
    "lineLength (storage t') = lineLength (storage t1)" "same_line i (storage t1) (storage t')"
    "\<And>l. l \<in> set is \<Longrightarrow> effect (info t1) l (storage t1) (storage t')"
    using assms(7,8) by (auto simp: worked_def)
  have "effect (info t') i (storage t) (storage t')"
    using effect_cong [OF d1(2) _ i _ _ assms(6) same_line_refl w(4)] ml d1(3) w(1) by simp
  moreover have "effect (info t') l (storage t) (storage t')" if "l \<in> set is" for l
  proof -
    have "same_line l (storage t) (storage t1)"
      by (rule only_line_same [OF assms(5)]) (use that assms(8) in blast)
    then show ?thesis
      using effect_cong [OF d1(2,3) _ w(2,3) w(5) [OF that] _ same_line_refl] that assms(9) ml w(1) by simp
  qed
  moreover have "same_line l (storage t) (storage t')" if "l \<notin> set (i # is)" for l
    using that only_line_same [OF assms(5), of l] assms(7) same_line_trans [of l "storage t" "storage t1"]
    by (simp add: worked_def)
  ultimately show ?thesis using assms(4,7) ml by (simp add: worked_def)
qed

text \<open>
  The scan works on the first rows that pass, as many as may still be added to the result, in the
  order of their numbers.
\<close>

lemma scan_spec:
  assumes "wf_table (etable s)" and "permits (info (etable s))" and "\<forall>c\<in>set cs. plain (info (etable s)) c"
    and "mx \<le> max_line (storage (etable s))"
    and "is = chosen (etable s) cs (cnt - length (body (eresult s))) i mx"
  shows "\<exists>t'. scan work cs mx cnt i s =
      (Inr (), s\<lparr>etable := t', eresult := add_rows (map (\<lambda>l. out l (the (rows (etable s) l))) is) (eresult s)\<rparr>) \<and>
    worked is (etable s) t'"
  using assms
proof (induction "mx - i" arbitrary: i s "is")
  case 0
  then show ?case
    using scan_stop [of i mx s cnt cs] worked_Nil by (intro exI [of _ "etable s"]) (simp add: chosen_simps)
next
  case (Suc n)
  let ?t = "etable s"
  have i: "i < mx" "n = mx - Suc i" using Suc(2) by auto
  show ?case
  proof (cases "length (body (eresult s)) < cnt")
    case False
    then show ?thesis
      using scan_stop [of i mx s cnt cs] worked_Nil Suc(3,7)
      by (intro exI [of _ "etable s"]) (simp add: chosen_simps)
  next
    case more: True
    note round = scan_round [OF Suc(3,5,6) i(1) more]
    show ?thesis
    proof (cases "row_passes ?t cs i")
      case False
      then show ?thesis using Suc(1) [OF i(2) Suc(3-6) refl] round(2) Suc(7) i(1) by (simp add: chosen_simps(2))
    next
      case True
      then obtain r where r: "rows ?t i = Some r" by (auto simp: row_passes_def split: option.splits)
      obtain t1 where w: "work i s = (Inr (), s\<lparr>etable := t1, eresult := add_rows [out i r] (eresult s)\<rparr>)"
        "wf_table t1" "info t1 = info ?t" "only_line i (storage ?t) (storage t1)"
        "effect (info t1) i (storage ?t) (storage t1)"
        using work_law [OF Suc(3,4) r] by blast
      let ?s1 = "s\<lparr>etable := t1, eresult := add_rows [out i r] (eresult s)\<rparr>"
      let ?is = "chosen ?t cs (cnt - length (body (eresult ?s1))) (Suc i) mx"
      have rows: "rows t1 l = rows ?t l" if "l \<noteq> i" for l
        using that only_line_same [OF w(4)] Suc(3) w(2,3) by (intro same_line_rows) (simp_all add: wf_table_def)
      then have "?is = chosen t1 cs (cnt - length (body (eresult ?s1))) (Suc i) mx"
        by (intro chosen_cong [symmetric]) simp
      then obtain t' where t': "scan work cs mx cnt (Suc i) ?s1 = (Inr (), ?s1\<lparr>etable := t',
            eresult := add_rows (map (\<lambda>l. out l (the (rows t1 l))) ?is) (eresult ?s1)\<rparr>)" "worked ?is t1 t'"
        using Suc(1) [OF i(2), of ?s1] w Suc(4-6) only_line_max_line [OF w(4)] by auto
      have eq: "map (\<lambda>l. out l (the (rows t1 l))) ?is = map (\<lambda>l. out l (the (rows ?t l))) ?is"
        by (rule map_cong [OF refl]) (use rows in \<open>fastforce dest: chosen_ge\<close>)
      have cons: "is = i # ?is"
        unfolding Suc(7) Suc_diff_Suc [OF more, symmetric] by (simp add: chosen_simps(1) [OF i(1) True])
      have "worked (i # ?is) ?t t'"
        using worked_Cons [OF Suc(3) r w(2-5) t'(2)] chosen_ge [of _ ?t cs _ "Suc i" mx] Suc(6) by fastforce
      then show ?thesis
        using t'(1) round(1) [OF True w(1)] r unfolding eq cons by (intro exI [of _ t']) simp
    qed
  qed
qed

end

text \<open>A scan whose work leaves the table alone leaves it alone.\<close>

lemma scan_reader:
  assumes "\<And>i s. etable (snd (work i s)) = etable s"
  shows "etable (snd (scan work cs mx cnt i s)) = etable s"
proof (induction "mx - i" arbitrary: i s)
  case 0
  then show ?case by (subst scan.simps) simp
next
  case (Suc n)
  let ?r = "bnd (reads (\<lambda>s. row_matches (etable s) cs i)) (\<lambda>m. if m then work i else ret ()) s"
  obtain r s' where r: "?r = (r, s')" by force
  have "etable (snd ?r) = etable s" using assms by (auto simp: bnd_def split: sum.splits)
  then have "etable s' = etable s" using r by simp
  with Suc r show ?case by (subst scan.simps) (auto split: sum.splits)
qed

section \<open>The work of the statements\<close>

lemma readRecord_row:
  assumes "wf_but S t" and "rows t i = Some r" and "\<forall>j\<in>set ids. j < length (columns (info t))"
  shows "readRecord t i ids (columns (info t)) = Inr (VInt64 (of_nat i) # map ((!) r) ids)"
proof -
  have "mapE (\<lambda>j. bindE (index_vec (columns (info t)) j) (read_column t i)) ids = Inr (map ((!) r) ids)"
    by (rule mapE_Inr) (use assms read_column_row [OF assms(1,2)] in \<open>simp add: index_vec_def\<close>)
  then show ?thesis by (simp add: readRecord_def)
qed

lemma push_body_apply: "push_body row s = (Inr (), s\<lparr>eresult := add_rows [row] (eresult s)\<rparr>)"
  by (simp add: push_body_def on_result_def add_rows_def)

lemma on_table_apply: "on_table m s = (case m (etable s) of (r, t) \<Rightarrow> (r, s\<lparr>etable := t\<rparr>))"
  by (simp add: on_table_def zoom_def)

lemma select_row_table: "etable (snd (select_row ids i s)) = etable s"
  by (auto simp: select_row_def bnd_def push_body_apply split: sum.splits)

interpretation sel: scan_work "select_row ids" "\<lambda>i r. VInt64 (of_nat i) # map ((!) r) ids"
  "\<lambda>ti. \<forall>j\<in>set ids. j < length (columns ti)" "\<lambda>_ i m m'. same_line i m m'" for ids
proof (unfold_locales, goal_cases)
  case (1 s i r)
  have wf: "wf_but {} (etable s)" using 1(1) by (simp add: wf_table_def)
  have "select_row ids i s = (Inr (), s\<lparr>eresult := add_rows [VInt64 (of_nat i) # map ((!) r) ids] (eresult s)\<rparr>)"
    using readRecord_row [OF wf 1(3,2)] by (simp add: select_row_def bnd_def push_body_apply)
  moreover have "only_line i (storage (etable s)) (storage (etable s))"
    using wf_but_dest(1) [OF wf] by (simp add: only_line_def)
  ultimately show ?case using 1(1) by (intro exI [of _ "etable s"]) simp
next
  case (2 ti m i m' n n')
  then show ?case using same_line_trans by blast
qed

text \<open>The line a deletion leaves: its flag is cleared.\<close>

definition line_cleared :: "TabbleInfo \<Rightarrow> nat \<Rightarrow> memory_map \<Rightarrow> memory_map \<Rightarrow> bool" where
  "line_cleared ti i m m' \<longleftrightarrow> cell m' i 0 1 = enc_bool False"

interpretation del: scan_work delete_row "\<lambda>i r. [VInt64 (of_nat i)]" "\<lambda>_. True" line_cleared
proof (unfold_locales, goal_cases)
  case (1 s i r)
  have "i \<in> active (storage (etable s))" using rows_Some(1) 1 by (simp add: wf_table_def)
  then obtain t' where t': "erase i (etable s) = (Inr i, t')" "wf_table t'" "info t' = info (etable s)"
    "active (storage t') = active (storage (etable s)) - {i}" "only_line i (storage (etable s)) (storage t')"
    using erase_spec [OF 1(1)] by blast
  have i: "i < max_line (storage t')"
    using rows_Some(2) [OF _ 1(3)] 1(1) only_line_max_line [OF t'(5)] by (simp add: wf_table_def)
  have "flags_ok (storage t')" using t'(2) by (auto simp: wf_table_def dest: wf_but_dest(4))
  then obtain b where "cell (storage t') i 0 1 = enc_bool b" using i by (auto simp: flags_ok_def)
  then have "cell (storage t') i 0 1 = enc_bool False" using t'(4) i by (cases b) (auto simp: active_def)
  then show ?case
    using t'
    by (intro exI [of _ t']) (simp add: delete_row_def bnd_def on_table_apply push_body_apply line_cleared_def)
next
  case (2 ti m i m' n n')
  have "0 + 1 \<le> lineLength m'" using 2(1,2,5) by (auto simp: wf_info_def neq_Nil_conv)
  then show ?case using 2 by (auto simp: same_line_def line_cleared_def)
qed

text \<open>The line an update leaves: the flag it had, and each column rewritten or kept.\<close>

definition line_updated :: "(Column \<times> variant_types) list \<Rightarrow> TabbleInfo \<Rightarrow> nat \<Rightarrow> memory_map \<Rightarrow> memory_map \<Rightarrow> bool" where
  "line_updated as ti i m m' \<longleftrightarrow> cell m' i 0 1 = cell m i 0 1 \<and>
     (\<forall>c\<in>set (columns ti). cell m' i (offset c) (col_size c) = updated_bytes m i as c)"

definition assignable :: "Column list \<Rightarrow> variant_types list \<Rightarrow> TabbleInfo \<Rightarrow> bool" where
  "assignable cs vs ti \<longleftrightarrow> set cs \<subseteq> set (columns ti) \<and> distinct cs \<and> list_all2 fits_within cs vs"

interpretation upd: scan_work "update_row vs cs" "\<lambda>i r. [VInt64 (of_nat i)]" "assignable cs vs"
  "line_updated (zip cs vs)" for vs cs
proof (unfold_locales, goal_cases)
  case (1 s i r)
  have a: "i \<in> active (storage (etable s))" using rows_Some(1) 1 by (simp add: wf_table_def)
  obtain t' where t': "update vs cs i 0 (etable s) = (Inr (), t')" "wf_table t'" "info t' = info (etable s)"
    "active (storage t') = active (storage (etable s))" "only_line i (storage (etable s)) (storage t')"
    "\<forall>c\<in>set (columns (info (etable s))). cell (storage t') i (offset c) (col_size c) =
        updated_bytes (storage (etable s)) i (zip cs vs) c"
    using update_spec [OF 1(1) a, of cs vs] 1(2) unfolding assignable_def by blast
  have "cell (storage t') i 0 1 = cell (storage (etable s)) i 0 1"
    using a t'(4) by (auto simp: active_def)
  then show ?case
    using t'
    by (intro exI [of _ t']) (simp add: update_row_def bnd_def on_table_apply push_body_apply line_updated_def)
next
  case (2 ti m i m' n n')
  have "0 + 1 \<le> lineLength m" using 2(1,2) by (auto simp: wf_info_def neq_Nil_conv)
  moreover have "offset c + col_size c \<le> lineLength m" if "c \<in> set (columns ti)" for c
    using wf_info_column [OF 2(1) that] 2(2) by simp
  ultimately show ?case using 2 by (auto simp: same_line_def line_updated_def updated_bytes_def split: option.splits)
qed

end
