(* ===== verification/Statements.thy ===== *)
theory Statements
  imports Execution
begin

text \<open>
  The four statements (\<^verbatim>\<open>executeSelect\<close>, \<^verbatim>\<open>executeInsert\<close>, \<^verbatim>\<open>executeDelete\<close>,
  \<^verbatim>\<open>executeUpdate\<close>) on the rows of a well-formed table.
\<close>

section \<open>How many rows a scan may take\<close>

text \<open>
  The scan stops at the lesser of the limit and the count of active places; since the count is never
  below the number of rows, only the limit matters.
\<close>

lemma passing_active:
  assumes "wf_but S t" and "row_passes t cs i"
  shows "i \<in> active (storage t)"
  using assms dom_rows [OF assms(1)] by (auto simp: row_passes_def split: option.splits)

lemma length_passing:
  assumes "wf_but S t"
  shows "length (filter (row_passes t cs) [lo..<hi]) \<le> activePlaces t"
proof -
  have "set (filter (row_passes t cs) [lo..<hi]) \<subseteq> active (storage t)"
    using passing_active [OF assms] by auto
  then have "card (set (filter (row_passes t cs) [lo..<hi])) \<le> card (active (storage t))"
    by (intro card_mono) simp_all
  moreover have "card (set (filter (row_passes t cs) [lo..<hi])) = length (filter (row_passes t cs) [lo..<hi])"
    by (rule distinct_card) simp
  ultimately show ?thesis using wf_but_dest(9) [OF assms] by simp
qed

lemma chosen_scan_count:
  assumes "wf_but S t"
  shows "chosen t cs (scan_count t lim) lo hi = chosen t cs lim lo hi"
  using length_passing [OF assms, of cs lo hi] by (simp add: chosen_def scan_count_def getActivePlaces_def)

section \<open>SELECT\<close>

definition selection :: "table \<Rightarrow> nat list \<Rightarrow> nat list \<Rightarrow> variant_types list list" where
  "selection t ids is = map (\<lambda>i. VInt64 (of_nat i) # map ((!) (the (rows t i))) ids) is"

definition select_header :: "TabbleInfo \<Rightarrow> nat list \<Rightarrow> Result \<Rightarrow> Result" where
  "select_header ti ids r = r\<lparr>messeage := ''Selected'',
     header := header r @ ''ID'' # map (\<lambda>j. col_name (columns ti ! j)) ids,
     types := types r @ ''INT64'' # map (\<lambda>j. typeToString (col_type (columns ti ! j))) ids\<rparr>"

lemma on_result_apply: "on_result f s = (Inr (), s\<lparr>eresult := f (eresult s)\<rparr>)"
  by (simp add: on_result_def)

lemma push_columns:
  assumes "\<forall>j\<in>set ids. j < length (columns (info (etable s)))"
  shows "seq_all (map (\<lambda>ind. bnd (reads (\<lambda>s. index_vec (columns (info (etable s))) ind)) (\<lambda>c.
            push_column (col_name c) (typeToString (col_type c)))) ids) s =
     (Inr (), s\<lparr>eresult := (eresult s)\<lparr>
        header := header (eresult s) @ map (\<lambda>j. col_name (columns (info (etable s)) ! j)) ids,
        types := types (eresult s) @ map (\<lambda>j. typeToString (col_type (columns (info (etable s)) ! j))) ids\<rparr>\<rparr>)"
  using assms
proof (induction ids arbitrary: s)
  case (Cons j ids)
  then show ?case by (simp add: bnd_def index_vec_def push_column_def on_result_apply)
qed simp

definition direct :: "'a QueryBase_scheme \<Rightarrow> bool" where
  "direct q \<longleftrightarrow> conditions q \<noteq> [] \<and> cond_type (hd (conditions q)) = DIRECT_INDEX"

lemma executeSelect_scan:
  assumes "\<forall>j\<in>set (s_columns_optimized q). j < length (columns (info (etable s)))" and "\<not> direct q"
    and "select_bounds (conditions q) 0 (freeId (etable s)) 0 = Inr (lo, hi, n)"
  shows "executeSelect q s =
     bnd (scan (select_row (s_columns_optimized q)) (drop n (conditions q)) hi (scan_count (etable s) (limit q)) lo) (\<lambda>_.
       if order_columns_optimized q \<noteq> [] then
         bnd (reads (\<lambda>s. sort_rows (order_columns_optimized q) (body (eresult s)))) (\<lambda>rows.
         on_result (\<lambda>r. r\<lparr>body := rows\<rparr>))
       else ret ()) (s\<lparr>eresult := select_header (info (etable s)) (s_columns_optimized q) (eresult s)\<rparr>)"
proof -
  let ?s1 = "s\<lparr>eresult := (eresult s)\<lparr>messeage := ''Selected'', header := header (eresult s) @ [''ID''],
                 types := types (eresult s) @ [''INT64'']\<rparr>\<rparr>"
  have d: "(conditions q \<noteq> [] \<and> cond_type (hd (conditions q)) = DIRECT_INDEX) = False"
    using assms(2) by (simp add: direct_def)
  show ?thesis
    unfolding executeSelect_def d if_False
    using push_columns [of "s_columns_optimized q" ?s1] assms(1,3)
    by (simp add: bnd_Inr on_result_apply push_column_def getMaxActiveLine_def select_header_def
        cong del: if_weak_cong)
qed

lemma select_scan:
  assumes "wf_table (etable s)" and "\<forall>j\<in>set ids. j < length (columns (info (etable s)))"
    and "\<forall>c\<in>set cs. plain (info (etable s)) c" and "hi \<le> max_line (storage (etable s))" and "body (eresult s) = []"
  shows "scan (select_row ids) cs hi (scan_count (etable s) lim) lo s =
     (Inr (), s\<lparr>eresult := add_rows (selection (etable s) ids (chosen (etable s) cs lim lo hi)) (eresult s)\<rparr>)"
proof -
  have wf: "wf_but {} (etable s)" using assms(1) by (simp add: wf_table_def)
  obtain t' where t': "scan (select_row ids) cs hi (scan_count (etable s) lim) lo s =
      (Inr (), s\<lparr>etable := t', eresult := add_rows (selection (etable s) ids (chosen (etable s) cs lim lo hi)) (eresult s)\<rparr>)"
    using sel.scan_spec [OF assms(1-4) refl, of "scan_count (etable s) lim" lo] assms(5) chosen_scan_count [OF wf]
    by (auto simp: selection_def)
  moreover have "t' = etable s"
    using scan_reader [of "select_row ids", OF select_row_table, of cs hi "scan_count (etable s) lim" lo s] t'
    by simp
  ultimately show ?thesis by simp
qed

text \<open>
  Conditions as the optimizer leaves them: \<open>lo\<close>, \<open>hi\<close> and \<open>cs\<close> are the bounds the
  conditions on the row number set and the conditions that are left to test.
\<close>

definition select_range :: "'a QueryBase_scheme \<Rightarrow> table \<Rightarrow> nat \<Rightarrow> nat \<Rightarrow> Condition list \<Rightarrow> bool" where
  "select_range q t lo hi cs \<longleftrightarrow> \<not> direct q \<and>
     (\<exists>n. select_bounds (conditions q) 0 (freeId t) 0 = Inr (lo, hi, n) \<and> cs = drop n (conditions q)) \<and>
     hi \<le> max_line (storage t) \<and> (\<forall>c\<in>set cs. plain (info t) c)"

definition selects :: "SelectQuery \<Rightarrow> TabbleInfo \<Rightarrow> bool" where
  "selects q ti \<longleftrightarrow> (\<forall>j\<in>set (s_columns_optimized q). j < length (columns ti))"

lemma select_unordered:
  assumes "wf_table (etable s)" and "body (eresult s) = []" and "selects q (info (etable s))"
    and "select_range q (etable s) lo hi cs" and "order_columns_optimized q = []"
  shows "executeSelect q s = (Inr (), s\<lparr>eresult := add_rows
     (selection (etable s) (s_columns_optimized q) (chosen (etable s) cs (limit q) lo hi))
     (select_header (info (etable s)) (s_columns_optimized q) (eresult s))\<rparr>)"
proof -
  let ?s = "s\<lparr>eresult := select_header (info (etable s)) (s_columns_optimized q) (eresult s)\<rparr>"
  have b: "body (eresult ?s) = []" using assms(2) by (simp add: select_header_def)
  obtain n where n: "select_bounds (conditions q) 0 (freeId (etable s)) 0 = Inr (lo, hi, n)"
    "cs = drop n (conditions q)" "\<not> direct q" and r: "hi \<le> max_line (storage (etable s))"
    "\<forall>c\<in>set cs. plain (info (etable s)) c"
    using assms(4) by (auto simp: select_range_def)
  show ?thesis
    using executeSelect_scan [OF _ n(3,1)] select_scan [of ?s "s_columns_optimized q" cs hi] assms(1,3,5) b r
    by (simp add: selects_def n(2) bnd_Inr)
qed

text \<open>With \<^verbatim>\<open>ORDER BY\<close>, the rows selected are put in order, rows that tie keeping their order.\<close>

lemma select_ordered:
  assumes "wf_table (etable s)" and "body (eresult s) = []" and "selects q (info (etable s))"
    and "select_range q (etable s) lo hi cs" and "order_columns_optimized q \<noteq> []"
    and "rws = selection (etable s) (s_columns_optimized q) (chosen (etable s) cs (limit q) lo hi)"
    and "\<forall>row\<in>set rws. sortable (order_columns_optimized q) row"
  shows "\<exists>rws'. executeSelect q s =
       (Inr (), s\<lparr>eresult := (select_header (info (etable s)) (s_columns_optimized q) (eresult s))\<lparr>body := rws'\<rparr>\<rparr>) \<and>
     stably_sorted (row_before (order_columns_optimized q)) rws rws'"
proof -
  let ?s = "s\<lparr>eresult := select_header (info (etable s)) (s_columns_optimized q) (eresult s)\<rparr>"
  have b: "body (eresult ?s) = []" using assms(2) by (simp add: select_header_def)
  obtain n where n: "select_bounds (conditions q) 0 (freeId (etable s)) 0 = Inr (lo, hi, n)"
    "cs = drop n (conditions q)" "\<not> direct q" and r: "hi \<le> max_line (storage (etable s))"
    "\<forall>c\<in>set cs. plain (info (etable s)) c"
    using assms(4) by (auto simp: select_range_def)
  obtain rws' where w: "sort_rows (order_columns_optimized q) rws = Inr rws'"
    "stably_sorted (row_before (order_columns_optimized q)) rws rws'"
    using sort_rows_spec [OF assms(7)] by blast
  have "scan (select_row (s_columns_optimized q)) cs hi (scan_count (etable s) (limit q)) lo ?s =
      (Inr (), ?s\<lparr>eresult := add_rows rws (eresult ?s)\<rparr>)"
    using select_scan [of ?s "s_columns_optimized q" cs hi "limit q" lo] assms(1,3,6) b r by (simp add: selects_def)
  then have "executeSelect q s = (Inr (), s\<lparr>eresult :=
      (select_header (info (etable s)) (s_columns_optimized q) (eresult s))\<lparr>body := rws'\<rparr>\<rparr>)"
    using executeSelect_scan [OF _ n(3,1)] assms(3,5) b w(1)
    by (simp add: selects_def n(2) bnd_Inr on_result_apply add_rows_def)
  with w(2) show ?thesis by blast
qed

section \<open>INSERT\<close>

text \<open>The loop makes the insertions of the contract, one for each block of values.\<close>

definition blocks :: "TabbleInfo \<Rightarrow> variant_types list \<Rightarrow> nat \<Rightarrow> nat \<Rightarrow> (variant_types list \<times> nat) list" where
  "blocks ti vs k m = map (\<lambda>j. (vs, j * length (columns ti))) [k..<m]"

definition id_rows :: "nat list \<Rightarrow> variant_types list list" where
  "id_rows is = map (\<lambda>i. [VInt64 (of_nat i)]) is"

lemma insert_loop_ins_all:
  assumes "wf_table (etable s)" and "room (etable s) (m - k)" and "length vs = m * length (columns (info (etable s)))"
    and "\<forall>v\<in>set (blocks (info (etable s)) vs k m). insertable (info (etable s)) v" and "k \<le> m"
  shows "\<exists>is t'. tab.ins_all (blocks (info (etable s)) vs k m) (etable s) = (Inr is, t') \<and>
     insert_loop vs (k * length (columns (info (etable s)))) s =
       (Inr (), s\<lparr>etable := t', eresult := add_rows (id_rows is) (eresult s)\<rparr>)"
  using assms
proof (induction "m - k" arbitrary: k s)
  case 0
  then show ?case by (subst insert_loop.simps) (simp add: blocks_def id_rows_def)
next
  case (Suc d)
  let ?ti = "info (etable s)" let ?n = "length (columns ?ti)"
  have k: "k < m" "d = m - Suc k" using Suc(2) by auto
  have b: "blocks ?ti vs k m = (vs, k * ?n) # blocks ?ti vs (Suc k) m"
    using k(1) by (simp add: blocks_def upt_conv_Cons)
  have cols: "columns ?ti \<noteq> []" using Suc(3) by (auto simp: wf_table_def wf_but_def wf_info_def)
  have lt: "k * ?n < length vs" using k(1) cols Suc(5) by simp
  obtain i t1 where i: "insert_at (vs, k * ?n) (etable s) = (Inr i, t1)" "wf_table t1" "info t1 = ?ti" "room t1 (m - Suc k)"
    using tab.ins_law [OF Suc(3), of "m - Suc k" "(vs, k * ?n)"] Suc(4,6) k(1) by (auto simp: b Suc_diff_Suc)
  let ?s1 = "s\<lparr>etable := t1, eresult := add_rows [[VInt64 (of_nat i)]] (eresult s)\<rparr>"
  have step: "insert_loop vs (k * ?n) s = insert_loop vs (Suc k * ?n) ?s1"
    using i(1) lt cols
    by (subst insert_loop.simps) (simp add: Let_def bnd_def on_table_apply insert_at_def push_body_apply add.commute)
  obtain "is" t' where r: "tab.ins_all (blocks ?ti vs (Suc k) m) t1 = (Inr is, t')"
    "insert_loop vs (Suc k * ?n) ?s1 = (Inr (), ?s1\<lparr>etable := t', eresult := add_rows (id_rows is) (eresult ?s1)\<rparr>)"
    using Suc(1) [OF k(2), of ?s1] i(2-4) Suc(5,6) k(1) b by auto
  then show ?case
    using step i(1) by (simp add: b bnd_def id_rows_def)
qed

lemma insert_statement:
  assumes "wf_table (etable s)" and "room (etable s) m" and "length (i_values q) = m * length (columns (info (etable s)))"
    and "\<forall>v\<in>set (blocks (info (etable s)) (i_values q) 0 m). insertable (info (etable s)) v"
  shows "\<exists>is t'. executeInsert q s = (Inr (), s\<lparr>etable := t',
       eresult := (eresult s)\<lparr>isSucces := True, header := header (eresult s) @ [''ID''], types := types (eresult s) @ [''INT64''],
                    messeage := ''Inserted'', body := body (eresult s) @ id_rows is\<rparr>\<rparr>) \<and>
     wf_table t' \<and> info t' = info (etable s) \<and> length is = m \<and> distinct is \<and> set is \<inter> dom (rows (etable s)) = {} \<and>
     rows t' = rows (etable s) ++ map_of (zip is (map (\<lambda>v. map as_read (row_at (info (etable s)) v))
                                                   (blocks (info (etable s)) (i_values q) 0 m)))"
proof -
  let ?s1 = "s\<lparr>eresult := (eresult s)\<lparr>header := header (eresult s) @ [''ID''], types := types (eresult s) @ [''INT64'']\<rparr>\<rparr>"
  let ?bs = "blocks (info (etable s)) (i_values q) 0 m"
  obtain "is" t' where r: "tab.ins_all ?bs (etable s) = (Inr is, t')"
    "insert_loop (i_values q) 0 ?s1 = (Inr (), ?s1\<lparr>etable := t', eresult := add_rows (id_rows is) (eresult ?s1)\<rparr>)"
    using insert_loop_ins_all [of ?s1 m 0 "i_values q"] assms by auto
  have len: "length ?bs = m" by (simp add: blocks_def)
  have "wf_table t' \<and> info t' = info (etable s) \<and> length is = m \<and> distinct is \<and> set is \<inter> dom (rows (etable s)) = {} \<and>
     rows t' = rows (etable s) ++ map_of (zip is (map (\<lambda>v. map as_read (row_at (info (etable s)) v)) ?bs))"
    using tab.ins_all_spec [OF assms(1), of ?bs] assms(2,4) r(1) len by auto
  moreover have "executeInsert q s = (Inr (), s\<lparr>etable := t',
       eresult := (eresult s)\<lparr>isSucces := True, header := header (eresult s) @ [''ID''], types := types (eresult s) @ [''INT64''],
                    messeage := ''Inserted'', body := body (eresult s) @ id_rows is\<rparr>\<rparr>)"
    using r(2) by (simp add: executeInsert_def bnd_Inr push_column_def on_result_apply catch_std_def add_rows_def)
  ultimately show ?thesis by blast
qed

section \<open>DELETE\<close>

definition plain_query :: "'a QueryBase_scheme \<Rightarrow> TabbleInfo \<Rightarrow> bool" where
  "plain_query q ti \<longleftrightarrow> (\<forall>c\<in>set (conditions q). plain ti c)"

lemma plain_type: "plain ti c \<Longrightarrow> cond_type c \<notin> {DIRECT_INDEX, TO_INDEX, FROM_INDEX}"
  by (auto simp: plain_def logical_cond_def)

lemma scan_bound_plain: "\<forall>c\<in>set cs. plain ti c \<Longrightarrow> scan_bound cs mx = Inr mx"
  by (cases cs) (auto dest: plain_type)

lemma plain_not_direct: "plain_query q ti \<Longrightarrow> (conditions q \<noteq> [] \<and> cond_type (hd (conditions q)) = DIRECT_INDEX) = False"
  using plain_type [of ti "hd (conditions q)"] by (auto simp: plain_query_def)

definition id_header :: "Result \<Rightarrow> Result" where
  "id_header r = r\<lparr>header := header r @ [''ID''], types := types r @ [''INT64'']\<rparr>"

lemma push_id_column: "push_column ''ID'' ''INT64'' s = (Inr (), s\<lparr>eresult := id_header (eresult s)\<rparr>)"
  by (simp add: push_column_def on_result_apply id_header_def)

lemma id_header_body [simp]: "body (id_header r) = body r"
  by (simp add: id_header_def)

text \<open>The rows a \<^verbatim>\<open>DELETE\<close> or \<^verbatim>\<open>UPDATE\<close> works on.\<close>

definition affected :: "'a QueryBase_scheme \<Rightarrow> table \<Rightarrow> nat list" where
  "affected q t = chosen t (conditions q) (limit q) 0 (freeId t)"

lemma affected_rows:
  assumes "wf_but S t" and "l \<in> set (affected q t)"
  obtains r where "rows t l = Some r" "passes (conditions q) r"
  using chosen_ge [OF assms(2) [unfolded affected_def]] by (auto simp: row_passes_def split: option.splits)

lemma delete_statement:
  assumes "wf_table (etable s)" and "body (eresult s) = []" and "plain_query q (info (etable s))"
  shows "\<exists>t'. executeDelete q s = (Inr (), s\<lparr>etable := t',
       eresult := (add_rows (id_rows (affected q (etable s))) (id_header (eresult s)))\<lparr>isSucces := True\<rparr>\<rparr>) \<and>
     wf_table t' \<and> info t' = info (etable s) \<and> rows t' = rows (etable s) |` (- set (affected q (etable s)))"
proof -
  let ?t = "etable s" let ?s = "s\<lparr>eresult := id_header (eresult s)\<rparr>" let ?is = "affected q (etable s)"
  have wf: "wf_but {} ?t" using assms(1) by (simp add: wf_table_def)
  note d = wf_but_dest [OF wf]
  have p: "\<forall>c\<in>set (conditions q). plain (info ?t) c" using assms(3) by (simp add: plain_query_def)
  have isq: "?is = chosen ?t (conditions q) (scan_count ?t (limit q) - length (body (eresult ?s))) 0 (freeId ?t)"
    using chosen_scan_count [OF wf] assms(2) by (simp add: affected_def)
  obtain t' where t': "scan delete_row (conditions q) (freeId ?t) (scan_count ?t (limit q)) 0 ?s =
      (Inr (), ?s\<lparr>etable := t', eresult := add_rows (id_rows ?is) (eresult ?s)\<rparr>)" "del.worked ?is ?t t'"
    using del.scan_spec [of ?s "conditions q" "freeId ?t" ?is "scan_count ?t (limit q)" 0] assms(1) p d(6) isq
    by (auto simp: id_rows_def)
  have w: "wf_table t'" "info t' = info ?t" using t'(2) by (simp_all add: del.worked_def)
  have "rows t' l = (rows ?t |` (- set ?is)) l" for l
  proof (cases "l \<in> set ?is")
    case True
    then have "cell (storage t') l 0 1 = enc_bool False" using True t'(2) by (simp add: del.worked_def line_cleared_def)
    then show ?thesis using True by (auto simp: rows_def active_def)
  next
    case False
    then have "same_line l (storage ?t) (storage t')" using False t'(2) by (simp add: del.worked_def)
    then show ?thesis using False same_line_rows [OF wf _ w(2)] w(1) by (simp add: wf_table_def)
  qed
  moreover have "executeDelete q s = (Inr (), s\<lparr>etable := t',
       eresult := (add_rows (id_rows ?is) (id_header (eresult s)))\<lparr>isSucces := True\<rparr>\<rparr>)"
    unfolding executeDelete_def plain_not_direct [OF assms(3)] if_False
    using t'(1) scan_bound_plain [OF p]
    by (simp add: bnd_Inr push_id_column on_result_apply getMaxActiveLine_def)
  ultimately show ?thesis using w by blast
qed

text \<open>\<^verbatim>\<open>WHERE id == k\<close> removes row \<open>k\<close>, whatever other conditions follow.\<close>

lemma delete_direct:
  assumes "wf_table (etable s)" and "conditions q = \<lparr>cond_type = DIRECT_INDEX, collumn_id = 0, desired = VInt64 w\<rparr> # cs"
    and "unat w < max_line (storage (etable s))"
  shows "\<exists>t' b. executeDelete q s = (Inr (), s\<lparr>etable := t',
       eresult := (add_rows [[VInt64 w]] (id_header (eresult s)))\<lparr>isSucces := b\<rparr>\<rparr>) \<and>
     wf_table t' \<and> info t' = info (etable s) \<and> rows t' = (rows (etable s))(unat w := None)"
proof -
  let ?t = "etable s"
  have wf: "wf_but {} ?t" using assms(1) by (simp add: wf_table_def)
  have a: "isActive (storage ?t) (unat w) = Inr (unat w \<in> active (storage ?t))"
    using isActive_table [OF wf assms(3)] .
  show ?thesis
  proof (cases "unat w \<in> active (storage ?t)")
    case True
    then obtain t' where t': "erase (unat w) ?t = (Inr (unat w), t')" "wf_table t'"
      "rows t' = (rows ?t)(unat w := None)" "info t' = info ?t"
      using erase_spec [OF assms(1)] by blast
    then have "executeDelete q s = (Inr (), s\<lparr>etable := t',
        eresult := (add_rows [[VInt64 w]] (id_header (eresult s)))\<lparr>isSucces := True\<rparr>\<rparr>)"
      using True a
      by (simp add: executeDelete_def assms(2) bnd_Inr push_id_column on_table_apply on_result_apply push_body_apply add_rows_def)
    then show ?thesis using t' by blast
  next
    case False
    then have "rows ?t = (rows ?t)(unat w := None)" using dom_rows [OF wf] by auto
    moreover have "executeDelete q s = (Inr (), s\<lparr>etable := ?t,
        eresult := (add_rows [[VInt64 w]] (id_header (eresult s)))\<lparr>isSucces := isSucces (eresult s)\<rparr>\<rparr>)"
      using False a by (simp add: executeDelete_def assms(2) bnd_Inr push_id_column push_body_apply add_rows_def id_header_def)
    ultimately show ?thesis using assms(1) by blast
  qed
qed

section \<open>UPDATE\<close>

lemma update_statement:
  assumes "wf_table (etable s)" and "body (eresult s) = []" and "plain_query q (info (etable s))"
    and "\<forall>j\<in>set (u_columns_optimized q). j < length (columns (info (etable s)))"
    and "cs = map ((!) (columns (info (etable s)))) (u_columns_optimized q)"
    and "assignable cs (u_values q) (info (etable s))"
  shows "\<exists>t'. executeUpdate q s = (Inr (), s\<lparr>etable := t',
       eresult := add_rows (id_rows (affected q (etable s))) (id_header (eresult s))\<rparr>) \<and>
     wf_table t' \<and> info t' = info (etable s) \<and> dom (rows t') = dom (rows (etable s)) \<and>
     (\<forall>l. l \<notin> set (affected q (etable s)) \<longrightarrow> rows t' l = rows (etable s) l) \<and>
     (\<forall>l\<in>set (affected q (etable s)). \<forall>c\<in>set (columns (info (etable s))).
        column_value t' l c = updated_value (etable s) l (zip cs (u_values q)) c)"
proof -
  let ?t = "etable s" let ?s = "s\<lparr>eresult := id_header (eresult s)\<rparr>" let ?is = "affected q (etable s)"
  have wf: "wf_but {} ?t" using assms(1) by (simp add: wf_table_def)
  note d = wf_but_dest [OF wf]
  have p: "\<forall>c\<in>set (conditions q). plain (info ?t) c" using assms(3) by (simp add: plain_query_def)
  have isq: "?is = chosen ?t (conditions q) (scan_count ?t (limit q) - length (body (eresult ?s))) 0 (freeId ?t)"
    using chosen_scan_count [OF wf] assms(2) by (simp add: affected_def)
  obtain t' where t': "scan (update_row (u_values q) cs) (conditions q) (freeId ?t) (scan_count ?t (limit q)) 0 ?s =
      (Inr (), ?s\<lparr>etable := t', eresult := add_rows (id_rows ?is) (eresult ?s)\<rparr>)"
    "upd.worked cs (u_values q) ?is ?t t'"
    using upd.scan_spec [of ?s cs "u_values q" "conditions q" "freeId ?t" ?is "scan_count ?t (limit q)" 0]
      assms(1,6) p d(6) isq by (auto simp: id_rows_def)
  have w: "wf_table t'" "info t' = info ?t" using t'(2) by (simp_all add: upd.worked_def)
  have eff: "line_updated (zip cs (u_values q)) (info ?t) l (storage ?t) (storage t')" if "l \<in> set ?is" for l
    using that t'(2) w(2) by (simp add: upd.worked_def)
  have same: "rows t' l = rows ?t l" if "l \<notin> set ?is" for l
    using that t'(2) same_line_rows [OF wf _ w(2)] w(1) by (simp add: upd.worked_def wf_table_def)
  have "l \<in> dom (rows t') \<longleftrightarrow> l \<in> dom (rows ?t)" for l
  proof (cases "l \<in> set ?is")
    case True
    then have "cell (storage t') l 0 1 = cell (storage ?t) l 0 1" using eff by (simp add: line_updated_def)
    moreover have "max_line (storage t') = max_line (storage ?t)" using t'(2) by (simp add: upd.worked_def)
    ultimately show ?thesis
      using dom_rows [OF wf] dom_rows [of "{}" t'] w(1) by (simp add: wf_table_def active_def)
  next
    case False
    then show ?thesis using same by (simp add: domIff)
  qed
  moreover have "column_value t' l c = updated_value ?t l (zip cs (u_values q)) c"
    if "l \<in> set ?is" "c \<in> set (columns (info ?t))" for l c
    using eff [OF that(1)] that(2) by (simp add: line_updated_def column_value_def updated_value_def)
  moreover have "executeUpdate q s = (Inr (), s\<lparr>etable := t', eresult := add_rows (id_rows ?is) (id_header (eresult s))\<rparr>)"
    unfolding executeUpdate_def plain_not_direct [OF assms(3)] if_False
    using t'(1) scan_bound_plain [OF p] mapE_Inr [of "u_columns_optimized q" "index_vec (columns (info ?t))"] assms(4,5)
    by (simp add: bnd_Inr push_id_column getMaxActiveLine_def index_vec_def)
  ultimately show ?thesis using w same by blast
qed

end
