(* ===== verification/Data_Base.thy ===== *)
theory Data_Base
  imports Files Statements
begin

text \<open>
  \<^verbatim>\<open>src/src/data_base/DataBase.h\<close>: a database, its tables and their names, on the directory
  tree; and the part of \<^verbatim>\<open>src/src/clients/Operator.h\<close> that runs a query on a database. The
  shared mutex only orders threads. The bytes of the storage file of an open table are those of its
  mapping, in the table; a constructor that throws leaves the storage file as it found it (the zero
  bytes it may have been extended with are not recorded).
\<close>

section \<open>DataBase\<close>

record DataBase =
  absoluteWay :: path
  dataBaseName :: string
  tabbles :: "table list"
  tabbles_name :: "(string \<times> nat) list"

record dbs =
  vol :: volume
  base :: DataBase

definition on_vol :: "(volume, 'a) act \<Rightarrow> (dbs, 'a) act" where
  "on_vol = zoom vol (\<lambda>v s. s\<lparr>vol := v\<rparr>)"

definition getTabbleId :: "DataBase \<Rightarrow> string \<Rightarrow> exn + nat" where
  "getTabbleId d name =
     rethrow_as (IncorrectInputException (''Unknown table name: '' @ name)) (at_map (map_of (tabbles_name d)) name)"

text \<open>\<^verbatim>\<open>unordered_map::insert\<close> keeps an entry that is there; the table is pushed in any case.\<close>

definition insertTabble :: "table \<Rightarrow> string \<Rightarrow> DataBase \<Rightarrow> DataBase" where
  "insertTabble t name d =
     d\<lparr>tabbles_name := (if map_of (tabbles_name d) name = None
                        then tabbles_name d @ [(name, length (tabbles d))] else tabbles_name d),
       tabbles := tabbles d @ [t]\<rparr>"

definition table_path :: "DataBase \<Rightarrow> string \<Rightarrow> path" where
  "table_path d name = absoluteWay d @ [name, name]"

definition info_path :: "DataBase \<Rightarrow> string \<Rightarrow> path" where
  "info_path d name = absoluteWay d @ [name, makeLoaderName name]"

definition storage_path :: "DataBase \<Rightarrow> string \<Rightarrow> path" where
  "storage_path d name = absoluteWay d @ [name, makeStorageName name]"

text \<open>
  The info file is opened first, and only a table whose info file can be loaded opens (or creates) its
  storage file.
\<close>

definition openTabble :: "string \<Rightarrow> (dbs, bool) act" where
  "openTabble localName =
     bnd (reads (\<lambda>s. Inr (read_file (vol s) (info_path (base s) localName)))) (\<lambda>info_file.
     bnd (reads (\<lambda>s. new_InfoLoader info_file)) (\<lambda>_.
     bnd (\<lambda>s. on_vol (open_file (storage_path (base s) localName)) s) (\<lambda>storage_file.
     bnd (reads (\<lambda>s. new_Tabble (path_str (vol s) (table_path (base s) localName)) info_file storage_file
                       (vol_max_file (vol s)) (vol_max_map (vol s)))) (\<lambda>cur.
     bnd (modify (\<lambda>s. s\<lparr>base := insertTabble cur localName (base s)\<rparr>)) (\<lambda>_.
     ret True)))))"

fun open_all :: "(string \<times> node) list \<Rightarrow> (dbs, unit) act" where
  "open_all [] = ret ()"
| "open_all ((name, n) # es) =
     bnd (if is_dir (Some n) then bnd (openTabble name) (\<lambda>_. ret ()) else ret ()) (\<lambda>_. open_all es)"

definition loadFoldersAndOpenTabbles :: "(dbs, unit) act" where
  "loadFoldersAndOpenTabbles s =
     (case find_node (root (vol s)) (absoluteWay (base s)) of
        Some (DirN es) \<Rightarrow> open_all es s
      | _ \<Rightarrow> (Inl (FilesystemError (''directory iterator cannot open directory: '' @
                 path_str (vol s) (absoluteWay (base s)))), s))"

definition new_DataBase :: "path \<Rightarrow> string \<Rightarrow> (volume, DataBase) act" where
  "new_DataBase way name v =
     (case loadFoldersAndOpenTabbles
             \<lparr>vol = v, base = \<lparr>absoluteWay = way, dataBaseName = name, tabbles = [], tabbles_name = []\<rparr>\<rparr> of
        (Inl e, s) \<Rightarrow> (Inl e, vol s) | (Inr _, s) \<Rightarrow> (Inr (base s), vol s))"

fun query_table :: "QueryVariant \<Rightarrow> string" where
  "query_table (QSelect q) = tabble_name q"
| "query_table (QUpdate q) = tabble_name q"
| "query_table (QInsert q) = tabble_name q"
| "query_table (QDelete q) = tabble_name q"

definition optimizing :: "DataBase \<Rightarrow> QueryVariant \<Rightarrow> exn + QueryVariant" where
  "optimizing d q =
     bindE (getTabbleId d (query_table q)) (\<lambda>i.
     bindE (index_vec (tabbles d) i) (\<lambda>t.
     optimize (info t) i q))"

text \<open>
  \<^verbatim>\<open>createTable\<close>: the definition is read (theory \<open>Info_Loader\<close>), the directory made, the
  two files written and the table opened.
\<close>

definition createTable :: "istr \<Rightarrow> (dbs, unit) act" where
  "createTable stream =
     bnd (reads (\<lambda>s. parse_definition (\<lambda>n. map_of (tabbles_name (base s)) n \<noteq> None) stream)) (\<lambda>(table_name, defs).
     bnd (\<lambda>s. on_vol (create_directory (absoluteWay (base s) @ [table_name])) s) (\<lambda>made.
     if \<not> made then
       (\<lambda>s. (Inl (IncorrectInputException (''Failed to create table directory: '' @
                     path_str (vol s) (absoluteWay (base s) @ [table_name]))), s))
     else
       bnd (\<lambda>s. on_vol (write_file (info_path (base s) table_name) (info_text defs)) s) (\<lambda>_.
       bnd (\<lambda>s. on_vol (write_file (storage_path (base s) table_name) []) s) (\<lambda>_.
       bnd (openTabble table_name) (\<lambda>_. ret ())))))"

definition getBaseNameAndTablesNames :: "DataBase \<Rightarrow> string" where
  "getBaseNameAndTablesNames d =
     dataBaseName d @ '': ['' @ concat (map (\<lambda>(name, _). '' '' @ name) (tabbles_name d)) @ '' ] ''"

section \<open>Running a query\<close>

fun query_ptr :: "QueryVariant \<Rightarrow> nat option" where
  "query_ptr (QSelect q) = table_ptr q"
| "query_ptr (QUpdate q) = table_ptr q"
| "query_ptr (QInsert q) = table_ptr q"
| "query_ptr (QDelete q) = table_ptr q"

text \<open>\<^verbatim>\<open>Executor::execute\<close> on the table the query points to; the table is changed in place.\<close>

definition execute_query :: "QueryVariant \<Rightarrow> (DataBase \<times> Result, unit) act" where
  "execute_query q dr =
     (case query_ptr q of
        None \<Rightarrow> (Inl (Undefined ''null table pointer''), dr)
      | Some i \<Rightarrow>
          if i < length (tabbles (fst dr)) then
            (case execute q \<lparr>etable = tabbles (fst dr) ! i, eresult = snd dr\<rparr> of
               (r, s) \<Rightarrow> (r, ((fst dr)\<lparr>tabbles := (tabbles (fst dr))[i := etable s]\<rparr>, eresult s)))
          else (Inl (Undefined ''dangling table pointer''), dr))"

fun caught_by_operator :: "exn \<Rightarrow> bool" where
  "caught_by_operator (IncorrectInputException msg) = True"
| "caught_by_operator (ExecutionException msg) = True"
| "caught_by_operator _ = False"

text \<open>
  \<^verbatim>\<open>Operator::execute\<close> on the database of the client. Other exceptions than the two of the
  program leave the function, and the thread of the client with them.
\<close>

definition operator_execute :: "string \<Rightarrow> (DataBase, Result) act" where
  "operator_execute command d =
     (case bnd (reads (\<lambda>dr. bindE (parse command) (optimizing (fst dr)))) execute_query (d, new_Result) of
        (Inr _, (d', r)) \<Rightarrow> (Inr (r\<lparr>isSucces := True\<rparr>), d')
      | (Inl e, (d', r)) \<Rightarrow> if caught_by_operator e then (Inr (r\<lparr>error := what e, isSucces := False\<rparr>), d')
                           else (Inl e, d'))"

end
