(* ===== verification/Requests.thy ===== *)
theory Requests
  imports Data_Base
begin

text \<open>
  A request as a client sends it: text in, result out. The theorems follow a request through the
  parser, the optimizer and the executor on a database whose tables are well-formed.
\<close>

section \<open>Databases\<close>

definition wf_db :: "DataBase \<Rightarrow> bool" where
  "wf_db d \<longleftrightarrow> (\<forall>t\<in>set (tabbles d). wf_table t) \<and> (\<forall>(n, i)\<in>set (tabbles_name d). i < length (tabbles d))"

text \<open>The table a name stands for.\<close>

definition table_at :: "DataBase \<Rightarrow> string \<Rightarrow> nat \<Rightarrow> table \<Rightarrow> bool" where
  "table_at d name i t \<longleftrightarrow> map_of (tabbles_name d) name = Some i \<and> i < length (tabbles d) \<and> t = tabbles d ! i"

definition set_table :: "nat \<Rightarrow> table \<Rightarrow> DataBase \<Rightarrow> DataBase" where
  "set_table i t d = d\<lparr>tabbles := (tabbles d)[i := t]\<rparr>"

lemma wf_db_table: "wf_db d \<Longrightarrow> table_at d name i t \<Longrightarrow> wf_table t"
  by (auto simp: wf_db_def table_at_def)

lemma wf_db_set_table: "wf_db d \<Longrightarrow> wf_table t \<Longrightarrow> wf_db (set_table i t d)"
  by (auto simp: wf_db_def set_table_def dest!: set_update_subset_insert [THEN subsetD])

lemma table_at_set_table:
  "table_at d name i t \<Longrightarrow> table_at (set_table i t' d) name i t'"
  "table_at d name i t \<Longrightarrow> table_at d name' j u \<Longrightarrow> j \<noteq> i \<Longrightarrow> table_at (set_table i t' d) name' j u"
  by (auto simp: table_at_def set_table_def)

lemma set_table_same: "table_at d name i t \<Longrightarrow> set_table i t d = d"
  by (simp add: table_at_def set_table_def)

lemma optimizing_at:
  "table_at d (query_table q) i t \<Longrightarrow> optimizing d q = optimize (info t) i q"
  by (simp add: optimizing_def getTabbleId_def table_at_def at_map_def index_vec_def)

lemma operator_execute_ok:
  assumes "parse command = Inr q" and "table_at d (query_table q) i t" and "optimize (info t) i q = Inr q'"
    and "query_ptr q' = Some i" and "execute q' \<lparr>etable = t, eresult = new_Result\<rparr> = (Inr (), s)"
  shows "operator_execute command d = (Inr ((eresult s)\<lparr>isSucces := True\<rparr>), set_table i (etable s) d)"
  using assms optimizing_at [OF assms(2)]
  by (simp add: operator_execute_def bnd_Inr execute_query_def table_at_def set_table_def)

text \<open>A request the parser or the optimizer rejects changes nothing and is answered with the error.\<close>

lemma operator_execute_rejected:
  assumes "bindE (parse command) (optimizing d) = Inl e" and "caught_by_operator e"
  shows "operator_execute command d = (Inr (new_Result\<lparr>error := what e, isSucces := False\<rparr>), d)"
  using assms by (simp add: operator_execute_def bnd_def)

section \<open>INSERT\<close>

lemma query_ptr_optimized: "optimize ti i q = Inr q' \<Longrightarrow> query_ptr q' = Some i"
  by (cases q) (auto simp: bindE_eq_Inr optimize_select_def optimize_update_def optimizeInsertValues_def
      query_conditions_def optimizeOrdering_def optimizeUpdateValues_def Let_def split: if_splits)

definition insert_rows_of :: "TabbleInfo \<Rightarrow> variant_types list \<Rightarrow> nat \<Rightarrow> variant_types list list" where
  "insert_rows_of ti vs m = map (\<lambda>k. map as_read (take (length (columns ti)) (drop (k * length (columns ti)) vs))) [0..<m]"

lemma insert_request:
  assumes "wf_db d" and "table_at d name i t" and "word_tok name" and "\<forall>v\<in>set vals. word_tok v"
    and "length vals = m * length (columns (info t))" and "room t m"
    and "insert_rows_values vals (columns (info t)) m 0 = Inr vs"
  shows "\<exists>is r t'. operator_execute (show_insert name vals) d = (Inr r, set_table i t' d) \<and> isSucces r \<and>
     body r = id_rows is \<and> length is = m \<and> distinct is \<and> set is \<inter> dom (rows t) = {} \<and> wf_table t' \<and>
     info t' = info t \<and> rows t' = rows t ++ map_of (zip is (insert_rows_of (info t) vs m))"
proof -
  let ?q = "new_InsertQuery\<lparr>tabble_name := name, i_raw_values := vals\<rparr>"
  let ?q' = "?q\<lparr>table_ptr := Some i, i_values := vs\<rparr>"
  have t: "wf_table t" using wf_db_table [OF assms(1,2)] .
  have ti: "wf_info (info t)" "columns (info t) \<noteq> []" using t by (auto simp: wf_table_def wf_but_def wf_info_def)
  have p: "parse (show_insert name vals) = Inr (QInsert ?q)" by (rule insert_text [OF assms(3,4)])
  have opt: "optimizeInsertValues (info t) (?q\<lparr>table_ptr := Some i\<rparr>) = Inr ?q'"
    using ti(2) assms(5,7) by (simp add: optimizeInsertValues_def new_query_defs)
  note sp = optimizeInsertValues_spec [OF ti(1) opt]
  have iv: "length (i_values ?q') = m * length (columns (info t))" using sp(1) assms(5) by (simp add: new_query_defs)
  have "\<forall>v\<in>set (blocks (info t) (i_values ?q') 0 m). insertable (info t) v"
    using sp(3) iv ti(2) by (auto simp: blocks_def new_query_defs)
  then obtain "is" t' where r: "executeInsert ?q' \<lparr>etable = t, eresult = new_Result\<lparr>isSucces := True\<rparr>\<rparr> =
      (Inr (), \<lparr>etable = t', eresult = new_Result\<lparr>isSucces := True, header := [''ID''], types := [''INT64''],
         messeage := ''Inserted'', body := id_rows is\<rparr>\<rparr>)"
    "wf_table t'" "info t' = info t" "length is = m" "distinct is" "set is \<inter> dom (rows t) = {}"
    "rows t' = rows t ++ map_of (zip is (map (\<lambda>v. map as_read (row_at (info t) v)) (blocks (info t) (i_values ?q') 0 m)))"
    using insert_statement [of "\<lparr>etable = t, eresult = new_Result\<lparr>isSucces := True\<rparr>\<rparr>" m ?q'] t assms(6) iv
    by (auto simp: new_Result_def)
  have "map (\<lambda>v. map as_read (row_at (info t) v)) (blocks (info t) (i_values ?q') 0 m) = insert_rows_of (info t) vs m"
    by (simp add: blocks_def insert_rows_of_def row_at_def new_query_defs)
  moreover have "operator_execute (show_insert name vals) d =
      (Inr (new_Result\<lparr>isSucces := True, header := [''ID''], types := [''INT64''],
         messeage := ''Inserted'', body := id_rows is\<rparr>), set_table i t' d)"
    using operator_execute_ok [OF p, of d i t "QInsert ?q'"] assms(2) opt r(1)
    by (simp add: bnd_Inr on_result_apply new_query_defs)
  ultimately show ?thesis using r by (intro exI) auto
qed

section \<open>Clauses without row numbers\<close>

text \<open>
  Comparisons with columns, joined by \<^verbatim>\<open>AND\<close> and \<^verbatim>\<open>OR\<close>; the first one is a comparison.
\<close>

fun comparison :: "TabbleInfo \<Rightarrow> clause \<Rightarrow> bool" where
  "comparison ti (OnColumn i oper s) = (clause_ok ti (OnColumn i oper s) \<and> oper \<in> {''=='', ''!='', ''>'', ''<''})"
| "comparison ti (Logic isAnd) = True"
| "comparison ti (OnId oper n) = False"

fun begins_with_column :: "clause list \<Rightarrow> bool" where
  "begins_with_column [] = True"
| "begins_with_column (OnColumn i oper s # cls) = True"
| "begins_with_column _ = False"

definition where_clause :: "TabbleInfo \<Rightarrow> clause list \<Rightarrow> bool" where
  "where_clause ti cls \<longleftrightarrow> (\<forall>cl\<in>set cls. comparison ti cl) \<and> begins_with_column cls \<and>
     (\<forall>w\<in>set (concat (map (clause_words ti) cls)). word_tok w \<and> w \<noteq> ''LIMIT'' \<and> w \<noteq> ''ORDER'')"

definition filters :: "TabbleInfo \<Rightarrow> clause list \<Rightarrow> Condition list" where
  "filters ti cls = concat (map (clause_filter ti) cls)"

lemma comparison_clause:
  "comparison ti cl \<Longrightarrow> clause_ok ti cl \<and> clause_index cl = [] \<and> (\<forall>c\<in>set (clause_filter ti cl). plain ti c)"
  by (cases cl) (auto simp: plain_def logical_cond_def condition_map_def)

lemma where_clause_conditions:
  assumes "where_clause ti cls"
  shows "optimizeConditions ti (concat (map (clause_words ti) cls)) [] = Inr (filters ti cls)"
    and "\<forall>c\<in>set (filters ti cls). plain ti c"
proof -
  have c: "\<forall>cl\<in>set cls. clause_ok ti cl \<and> clause_index cl = [] \<and> (\<forall>c\<in>set (clause_filter ti cl). plain ti c)"
    using assms comparison_clause by (auto simp: where_clause_def)
  then have "concat (map clause_index (rev cls)) = []" by simp
  then show "optimizeConditions ti (concat (map (clause_words ti) cls)) [] = Inr (filters ti cls)"
    using optimize_clauses [of cls ti "[]"] c by (simp add: filters_def)
  show "\<forall>c\<in>set (filters ti cls). plain ti c" using c by (auto simp: filters_def)
qed

lemma filters_bounds:
  assumes "where_clause ti cls"
  shows "select_bounds (filters ti cls) 0 mx 0 = Inr (0, mx, 0)"
    and "filters ti cls \<noteq> [] \<Longrightarrow> cond_type (hd (filters ti cls)) \<noteq> DIRECT_INDEX"
proof -
  have "filters ti cls = [] \<or> (\<exists>c cs. filters ti cls = c # cs \<and> cond_type c \<in> {EQUAL, NOT_EQUAL, GREATER, LESS})"
    using assms by (cases cls rule: begins_with_column.cases) (auto simp: where_clause_def filters_def condition_map_def)
  then show "select_bounds (filters ti cls) 0 mx 0 = Inr (0, mx, 0)"
    "filters ti cls \<noteq> [] \<Longrightarrow> cond_type (hd (filters ti cls)) \<noteq> DIRECT_INDEX"
    by auto
qed

text \<open>The numbers of the rows that meet a clause, in order, at most \<open>lim\<close> of them.\<close>

definition meeting :: "table \<Rightarrow> clause list \<Rightarrow> nat \<Rightarrow> nat list" where
  "meeting t cls lim = take lim (filter (row_passes t (filters (info t) cls)) [0..<freeId t])"

lemma meeting_chosen: "meeting t cls lim = chosen t (filters (info t) cls) lim 0 (freeId t)"
  by (simp add: meeting_def chosen_def)

section \<open>SELECT\<close>

lemma selection_all:
  assumes "wf_but S t" and "\<forall>l\<in>set is. rows t l \<noteq> None"
  shows "selection t [0..<length (columns (info t))] is = map (\<lambda>l. VInt64 (of_nat l) # the (rows t l)) is"
  unfolding selection_def
proof (rule map_cong [OF refl])
  fix l assume "l \<in> set is"
  then obtain r where r: "rows t l = Some r" using assms(2) by auto
  then have "length r = length (columns (info t))" by (rule rows_Some(4) [OF assms(1)])
  then show "VInt64 (of_nat l) # map ((!) (the (rows t l))) [0..<length (columns (info t))] =
      VInt64 (of_nat l) # the (rows t l)"
    using r map_nth [of r] by simp
qed

lemma meeting_rows: "l \<in> set (meeting t cls lim) \<Longrightarrow> rows t l \<noteq> None"
  unfolding meeting_chosen by (auto dest!: chosen_ge simp: row_passes_def split: option.splits)

lemma select_request:
  assumes "wf_db d" and "table_at d name i t" and "word_tok name" and "where_clause (info t) cls"
    and "\<forall>n\<in>set_option lim. n < SIZE_MOD"
  shows "\<exists>r. operator_execute (show_select [''*''] name (concat (map (clause_words (info t)) cls)) lim []) d = (Inr r, d) \<and>
     isSucces r \<and> header r = ''ID'' # map col_name (columns (info t)) \<and>
     body r = map (\<lambda>l. VInt64 (of_nat l) # the (rows t l)) (meeting t cls (limit_or_max lim))"
proof -
  let ?ws = "concat (map (clause_words (info t)) cls)" let ?n = "length (columns (info t))"
  let ?q = "new_SelectQuery\<lparr>tabble_name := name, s_columns_raw := [''*''], raw_conditions := ?ws,
      limit := limit_or_max lim, oder_columns_raw := []\<rparr>"
  let ?q' = "?q\<lparr>table_ptr := Some i, conditions := filters (info t) cls, s_columns_optimized := [0..<?n]\<rparr>"
  let ?s = "\<lparr>etable = t, eresult = new_Result\<lparr>isSucces := True\<rparr>\<rparr>"
  have t: "wf_table t" "wf_but {} t" using wf_db_table [OF assms(1,2)] by (simp_all add: wf_table_def)
  have p: "parse (show_select [''*''] name ?ws lim []) = Inr (QSelect ?q)"
    using assms(3-5) by (intro select_text) (auto simp: where_clause_def word_tok_def is_space_def)
  have opt: "optimize_select (info t) (?q\<lparr>table_ptr := Some i\<rparr>) = Inr ?q'"
    using where_clause_conditions(1) [OF assms(4)]
    by (simp add: optimize_select_def query_conditions_def optimizeOrdering_def new_query_defs)
  have "select_range ?q' t 0 (freeId t) (filters (info t) cls)"
    using filters_bounds [OF assms(4)] where_clause_conditions(2) [OF assms(4)] wf_but_dest(6) [OF t(2)]
    by (auto simp: select_range_def direct_def)
  moreover have "order_columns_optimized ?q' = []" "selects ?q' (info t)"
    by (simp_all add: new_query_defs selects_def)
  ultimately have "executeSelect ?q' ?s = (Inr (), ?s\<lparr>eresult := add_rows
      (selection t [0..<?n] (meeting t cls (limit_or_max lim))) (select_header (info t) [0..<?n] (eresult ?s))\<rparr>)"
    using select_unordered [of ?s ?q' 0 "freeId t" "filters (info t) cls"] t(1)
    by (simp add: meeting_chosen new_Result_def)
  moreover have "selection t [0..<?n] (meeting t cls (limit_or_max lim)) =
      map (\<lambda>l. VInt64 (of_nat l) # the (rows t l)) (meeting t cls (limit_or_max lim))"
    using selection_all [OF t(2)] meeting_rows by blast
  ultimately have "operator_execute (show_select [''*''] name ?ws lim []) d =
      (Inr ((add_rows (map (\<lambda>l. VInt64 (of_nat l) # the (rows t l)) (meeting t cls (limit_or_max lim)))
         (select_header (info t) [0..<?n] (eresult ?s)))\<lparr>isSucces := True\<rparr>), set_table i t d)"
    using operator_execute_ok [OF p, of d i t "QSelect ?q'"] assms(2) opt
    by (simp add: bnd_Inr on_result_apply new_query_defs)
  moreover have "map (\<lambda>j. col_name (columns (info t) ! j)) [0..<?n] = map col_name (columns (info t))"
    by (rule nth_equalityI) simp_all
  ultimately show ?thesis
    using set_table_same [OF assms(2)] by (simp add: add_rows_def select_header_def new_Result_def)
qed

section \<open>DELETE\<close>

lemma delete_request:
  assumes "wf_db d" and "table_at d name i t" and "word_tok name" and "where_clause (info t) cls"
    and "\<forall>n\<in>set_option lim. n < SIZE_MOD"
  shows "\<exists>r t'. operator_execute (show_delete name (concat (map (clause_words (info t)) cls)) lim) d = (Inr r, set_table i t' d) \<and>
     isSucces r \<and> body r = id_rows (meeting t cls (limit_or_max lim)) \<and> wf_table t' \<and> info t' = info t \<and>
     rows t' = rows t |` (- set (meeting t cls (limit_or_max lim)))"
proof -
  let ?ws = "concat (map (clause_words (info t)) cls)"
  let ?q = "new_QueryBase\<lparr>tabble_name := name, raw_conditions := ?ws, limit := limit_or_max lim\<rparr>"
  let ?q' = "?q\<lparr>table_ptr := Some i, conditions := filters (info t) cls\<rparr>"
  let ?s = "\<lparr>etable = t, eresult = new_Result\<lparr>isSucces := True\<rparr>\<rparr>"
  have t: "wf_table t" using wf_db_table [OF assms(1,2)] .
  have p: "parse (show_delete name ?ws lim) = Inr (QDelete ?q)"
    using assms(3-5) by (intro delete_text) (auto simp: where_clause_def)
  have opt: "query_conditions (info t) (?q\<lparr>table_ptr := Some i\<rparr>) = Inr ?q'"
    using where_clause_conditions(1) [OF assms(4)] by (simp add: query_conditions_def new_query_defs)
  have m: "affected ?q' t = meeting t cls (limit_or_max lim)" by (simp add: affected_def meeting_chosen)
  have "plain_query ?q' (info t)" using where_clause_conditions(2) [OF assms(4)] by (simp add: plain_query_def)
  then obtain t' where t': "executeDelete ?q' ?s = (Inr (), ?s\<lparr>etable := t',
       eresult := (add_rows (id_rows (meeting t cls (limit_or_max lim))) (id_header (eresult ?s)))\<lparr>isSucces := True\<rparr>\<rparr>)"
    "wf_table t'" "info t' = info t" "rows t' = rows t |` (- set (meeting t cls (limit_or_max lim)))"
    using delete_statement [of ?s ?q'] t m by (auto simp: new_Result_def)
  then have "operator_execute (show_delete name ?ws lim) d = (Inr ((add_rows (id_rows (meeting t cls (limit_or_max lim)))
      (id_header (eresult ?s)))\<lparr>isSucces := True\<rparr>), set_table i t' d)"
    using operator_execute_ok [OF p, of d i t "QDelete ?q'"] assms(2) opt
    by (simp add: bnd_Inr on_result_apply new_query_defs)
  then show ?thesis using t' by (auto simp: add_rows_def id_header_def new_Result_def)
qed

section \<open>UPDATE\<close>

text \<open>Columns that can be named on the left of an assignment.\<close>

definition assigned_columns :: "TabbleInfo \<Rightarrow> nat list \<Rightarrow> bool" where
  "assigned_columns ti js \<longleftrightarrow> distinct js \<and> (\<forall>j\<in>set js. j < length (columns ti) \<and>
     columns_map ti (col_name (columns ti ! j)) = Some j \<and> word_tok (col_name (columns ti ! j)) \<and>
     col_name (columns ti ! j) \<notin> {''WHERE'', ''LIMIT'', ''*''})"

lemma optimizeColumns_assigned:
  assumes "assigned_columns ti js"
  shows "optimizeColumns ti (map (\<lambda>j. col_name (columns ti ! j)) js) acc = Inr (acc @ js)"
  using assms by (induction js arbitrary: acc) (auto simp: assigned_columns_def at_map_def)

lemma columns_distinct:
  assumes "wf_info ti"
  shows "distinct (columns ti)"
proof -
  have "columns ti ! i \<noteq> columns ti ! j" if "i < j" "j < length (columns ti)" for i j
  proof -
    have "before (columns ti ! i) (columns ti ! j)"
      using assms that by (simp add: wf_info_def sorted_wrt_nth_less)
    moreover have "0 < col_size (columns ti ! i)"
      using column_size_pos wf_info_column [OF assms, of "columns ti ! i"] that by simp
    ultimately show ?thesis by (auto simp: before_def)
  qed
  then show ?thesis by (auto simp: distinct_conv_nth) (metis linorder_neqE_nat)
qed

lemma assignable_columns:
  assumes "wf_info ti" and "assigned_columns ti js" and "list_all2 fits_within (map ((!) (columns ti)) js) vs"
  shows "assignable (map ((!) (columns ti)) js) vs ti"
  using assms columns_distinct [OF assms(1)]
  by (auto simp: assignable_def assigned_columns_def distinct_map inj_on_def nth_eq_iff_index_eq)

lemma update_request:
  assumes "wf_db d" and "table_at d name i t" and "word_tok name" and "where_clause (info t) cls"
    and "\<forall>n\<in>set_option lim. n < SIZE_MOD" and "assigned_columns (info t) js"
    and "length ss = length js" and "\<forall>x\<in>set ss. word_tok x"
    and "update_values (info t) ss js 0 = Inr vs" and "list_all2 fits_within (map ((!) (columns (info t))) js) vs"
    and "as = zip (map (\<lambda>j. col_name (columns (info t) ! j)) js) ss"
    and "is = meeting t cls (limit_or_max lim)"
  shows "\<exists>r t'. operator_execute (show_update name as (concat (map (clause_words (info t)) cls)) lim) d = (Inr r, set_table i t' d) \<and>
     isSucces r \<and> body r = id_rows is \<and> wf_table t' \<and> info t' = info t \<and> dom (rows t') = dom (rows t) \<and>
     (\<forall>l. l \<notin> set is \<longrightarrow> rows t' l = rows t l) \<and>
     (\<forall>l\<in>set is. \<forall>c\<in>set (columns (info t)).
        column_value t' l c = updated_value t l (zip (map ((!) (columns (info t))) js) vs) c)"
proof -
  let ?ws = "concat (map (clause_words (info t)) cls)"
  let ?q = "new_UpdateQuery\<lparr>tabble_name := name, u_columns_raw := map fst as, u_raw_values := map snd as,
      raw_conditions := ?ws, limit := limit_or_max lim\<rparr>"
  let ?q' = "?q\<lparr>table_ptr := Some i, u_columns_optimized := js, conditions := filters (info t) cls, u_values := vs\<rparr>"
  let ?s = "\<lparr>etable = t, eresult = new_Result\<lparr>isSucces := True\<rparr>\<rparr>"
  have t: "wf_table t" using wf_db_table [OF assms(1,2)] .
  have ti: "wf_info (info t)" using t by (simp add: wf_table_def wf_but_def)
  have as: "map fst as = map (\<lambda>j. col_name (columns (info t) ! j)) js" "map snd as = ss"
    using assms(7,11) by simp_all
  have "\<forall>(c, v)\<in>set as. word_tok c \<and> word_tok v \<and> c \<noteq> ''WHERE'' \<and> c \<noteq> ''LIMIT''"
    using assms(6,8,11) by (auto simp: assigned_columns_def dest!: set_zip_leftD set_zip_rightD [rotated] simp: set_zip)
  then have p: "parse (show_update name as ?ws lim) = Inr (QUpdate ?q)"
    using assms(3-5) by (intro update_text) (auto simp: where_clause_def)
  have opt: "optimize_update (info t) (?q\<lparr>table_ptr := Some i\<rparr>) = Inr ?q'"
    using where_clause_conditions(1) [OF assms(4)] optimizeColumns_assigned [OF assms(6), of "[]"] assms(9)
    by (simp add: optimize_update_def query_conditions_def optimizeUpdateValues_def as new_query_defs)
  have m: "affected ?q' t = is" by (simp add: affected_def meeting_chosen assms(12))
  have "plain_query ?q' (info t)" using where_clause_conditions(2) [OF assms(4)] by (simp add: plain_query_def)
  moreover have "\<forall>j\<in>set js. j < length (columns (info t))" using assms(6) by (simp add: assigned_columns_def)
  ultimately obtain t' where t': "executeUpdate ?q' ?s = (Inr (), ?s\<lparr>etable := t',
       eresult := add_rows (id_rows is) (id_header (eresult ?s))\<rparr>)"
    "wf_table t'" "info t' = info t" "dom (rows t') = dom (rows t)" "\<forall>l. l \<notin> set is \<longrightarrow> rows t' l = rows t l"
    "\<forall>l\<in>set is. \<forall>c\<in>set (columns (info t)).
        column_value t' l c = updated_value t l (zip (map ((!) (columns (info t))) js) vs) c"
    using update_statement [of ?s ?q'] t m assignable_columns [OF ti assms(6,10)] by (auto simp: new_Result_def)
  then have "operator_execute (show_update name as ?ws lim) d =
      (Inr ((add_rows (id_rows is) (id_header (eresult ?s)))\<lparr>isSucces := True\<rparr>), set_table i t' d)"
    using operator_execute_ok [OF p, of d i t "QUpdate ?q'"] assms(2) opt
    by (simp add: bnd_Inr on_result_apply new_query_defs)
  then show ?thesis using t'(2-6) by (intro exI conjI) (assumption | simp add: add_rows_def id_header_def new_Result_def)+
qed

end
