(* ===== verification/Sample.thy ===== *)
theory Sample
  imports Requests
begin

text \<open>
  A concrete table \<open>people\<close> with a string column and an integer column, opened on an empty
  storage file and filled by a request, in a database of its own: the inputs at which the theorems
  are instantiated.
\<close>

definition sample_defs :: "(string \<times> Type \<times> nat) list" where
  "sample_defs = [(''name'', STRING, 8), (''age'', INT32, 4)]"

definition sample_info :: TabbleInfo where
  "sample_info = info_of sample_defs"

definition sample_db :: "table \<Rightarrow> DataBase" where
  "sample_db t = \<lparr>absoluteWay = [''default''], dataBaseName = ''default'', tabbles = [t],
     tabbles_name = [(''people'', 0)]\<rparr>"

lemma total_sample: "total_size sample_defs = 12"
  by (simp add: sample_defs_def total_size_def)

lemma wf_sample_defs: "wf_definition sample_defs"
  by (simp add: wf_definition_def sample_defs_def storable_def total_size_def word_tok_def is_space_def)

lemma storable_sample: "\<forall>(n, t, z)\<in>set sample_defs. t \<noteq> VOIDA \<and> (t = STRING \<longrightarrow> 0 < z)"
  by (simp add: sample_defs_def)

lemma sample_columns [simp]: "columns sample_info =
    [\<lparr>col_name = ''name'', offset = 1, col_type = STRING, col_size = 8\<rparr>,
     \<lparr>col_name = ''age'', offset = 9, col_type = INT32, col_size = 4\<rparr>]"
  by (simp add: sample_info_def info_of_def sample_defs_def)

lemma sample_columns_map:
  "columns_map sample_info ''name'' = Some 0" "columns_map sample_info ''age'' = Some 1"
  by (simp_all add: sample_info_def info_of_def sample_defs_def columns_map_of_def)

lemma sample_opens:
  "\<exists>t. new_Tabble ''people'' (Some (info_text sample_defs)) (Some []) 100000 100000 = Inr t \<and> wf_table t \<and>
     info t = sample_info \<and> rows t = Map.empty \<and> room t 100 \<and> freeId t = 0 \<and>
     storage t = blank_map 13 100000 100000"
  using new_table_opens [OF wf_sample_defs storable_sample, of 100000 100000 "''people''"]
  by (auto simp: total_sample sample_info_def room_def blank_map_def)

lemma wf_sample_db: "wf_table t \<Longrightarrow> wf_db (sample_db t) \<and> table_at (sample_db t) ''people'' 0 t"
  by (simp add: wf_db_def sample_db_def table_at_def)

lemma sample_values:
  "insert_rows_values [''Ann'', ''30'', ''Bob'', ''20''] (columns sample_info) 2 0 =
   Inr [VString (str_resize 8 ''Ann''), VInt32 30, VString (str_resize 8 ''Bob''), VInt32 20]"
  by (simp add: numeral_2_eq_2 at_vec_def insert_value_def stoi_def strto_def c_str_def is_space_def
      is_digit_def digit_value_def signed_value_def)

lemma sample_words: "\<forall>v\<in>set [''Ann'', ''30'', ''Bob'', ''20'']. word_tok v" "word_tok ''people''"
  by (simp_all add: word_tok_def is_space_def)

lemma sample_rows_of:
  "insert_rows_of sample_info [VString (str_resize 8 ''Ann''), VInt32 30, VString (str_resize 8 ''Bob''), VInt32 20] 2 =
   [[VString ''Ann'', VInt32 30], [VString ''Bob'', VInt32 20]]"
  by (simp add: insert_rows_of_def numeral_2_eq_2 c_str_str_resize) (simp add: c_str_def)

text \<open>Two people, Ann who is 30 and Bob who is 20.\<close>

lemma sample_filled:
  "\<exists>t i j. wf_table t \<and> info t = sample_info \<and> i \<noteq> j \<and>
     rows t = [i \<mapsto> [VString ''Ann'', VInt32 30], j \<mapsto> [VString ''Bob'', VInt32 20]]"
proof -
  obtain t where t: "wf_table t" "info t = sample_info" "rows t = Map.empty" "room t 100"
    using sample_opens by blast
  have "room t 2" using room_mono [OF _ t(4), of 2] by simp
  then obtain "is" t' where i: "length is = 2" "distinct is" "wf_table t'" "info t' = info t"
    "rows t' = rows t ++ map_of (zip is [[VString ''Ann'', VInt32 30], [VString ''Bob'', VInt32 20]])"
    using insert_request [OF conjunct1 [OF wf_sample_db [OF t(1)]] conjunct2 [OF wf_sample_db [OF t(1)]]
        sample_words(2,1), of 2 "[VString (str_resize 8 ''Ann''), VInt32 30, VString (str_resize 8 ''Bob''), VInt32 20]"]
      sample_values sample_rows_of t(2) by auto
  then obtain a b where "is = [a, b]" "a \<noteq> b" by (auto simp: numeral_2_eq_2 length_Suc_conv)
  then show ?thesis using i t(2,3) by (intro exI [of _ t'] exI [of _ a] exI [of _ b]) (auto simp: fun_eq_iff)
qed

end
