(* ===== verification/Guarantees.thy ===== *)
theory Guarantees
  imports Sample
begin

text \<open>
  What a client can rely on: requests on a well-formed database, from their text to the rows of the
  table and the rows of the result, and what happens to requests that are refused.
\<close>

section \<open>Requests\<close>

text \<open>
  (C1) An \<^verbatim>\<open>INSERT\<close> whose values parse, on a table with room for them, succeeds: it adds one
  row for each group of values under a number that was not in use, leaves the other rows and the
  other tables alone, keeps the table well-formed and answers with the new numbers in order.
\<close>

theorem insert_request_adds_rows:
  assumes "wf_db d" and "table_at d name i t" and "word_tok name" and "\<forall>v\<in>set vals. word_tok v"
    and "length vals = m * length (columns (info t))" and "room t m"
    and "insert_rows_values vals (columns (info t)) m 0 = Inr vs"
  shows "\<exists>is r t'. operator_execute (show_insert name vals) d = (Inr r, set_table i t' d) \<and> isSucces r \<and>
     body r = id_rows is \<and> length is = m \<and> distinct is \<and> set is \<inter> dom (rows t) = {} \<and> wf_table t' \<and>
     info t' = info t \<and> rows t' = rows t ++ map_of (zip is (insert_rows_of (info t) vs m))"
  using assms by (rule insert_request)

theorem insert_request_adds_rows_witness:
  "\<exists>t is r t'. operator_execute (show_insert ''people'' [''Ann'', ''30'', ''Bob'', ''20'']) (sample_db t) =
       (Inr r, set_table 0 t' (sample_db t)) \<and> isSucces r \<and> body r = id_rows is \<and> length is = 2 \<and> distinct is \<and>
     rows t' = map_of (zip is [[VString ''Ann'', VInt32 30], [VString ''Bob'', VInt32 20]])"
proof -
  obtain t where t: "wf_table t" "info t = sample_info" "rows t = Map.empty" "room t 100"
    using sample_opens by blast
  have "room t 2" using room_mono [OF _ t(4), of 2] by simp
  then show ?thesis
    using insert_request_adds_rows [OF conjunct1 [OF wf_sample_db [OF t(1)]] conjunct2 [OF wf_sample_db [OF t(1)]]
        sample_words(2,1), of 2 "[VString (str_resize 8 ''Ann''), VInt32 30, VString (str_resize 8 ''Bob''), VInt32 20]"]
      sample_values sample_rows_of t by (auto intro: exI [of _ t])
qed

text \<open>
  (C2) A \<^verbatim>\<open>SELECT *\<close> with comparisons of columns joined by \<^verbatim>\<open>AND\<close> and \<^verbatim>\<open>OR\<close> returns the
  rows that meet them, each with its number in front, in the order of the numbers, at most the limit;
  it changes nothing.
\<close>

theorem select_request_returns_rows:
  assumes "wf_db d" and "table_at d name i t" and "word_tok name" and "where_clause (info t) cls"
    and "\<forall>n\<in>set_option lim. n < SIZE_MOD"
  shows "\<exists>r. operator_execute (show_select [''*''] name (concat (map (clause_words (info t)) cls)) lim []) d = (Inr r, d) \<and>
     isSucces r \<and> header r = ''ID'' # map col_name (columns (info t)) \<and>
     body r = map (\<lambda>l. VInt64 (of_nat l) # the (rows t l)) (meeting t cls (limit_or_max lim))"
  using assms by (rule select_request)

lemma sample_where: "where_clause sample_info [OnColumn 1 ''>'' ''25'']"
  by (simp add: where_clause_def sample_columns_map word_tok_def is_space_def condition_map_def
      stoi_def strto_def c_str_def is_digit_def digit_value_def signed_value_def)

theorem select_request_returns_rows_witness:
  "\<exists>t r. rows t \<noteq> Map.empty \<and>
     operator_execute (show_select [''*''] ''people'' [''age'', ''>'', ''25''] (Some 10) []) (sample_db t) = (Inr r, sample_db t) \<and>
     isSucces r \<and> header r = [''ID'', ''name'', ''age''] \<and>
     body r = map (\<lambda>l. VInt64 (of_nat l) # the (rows t l)) (meeting t [OnColumn 1 ''>'' ''25''] 10)"
proof -
  obtain t i j where t: "wf_table t" "info t = sample_info"
    "rows t = [i \<mapsto> [VString ''Ann'', VInt32 30], j \<mapsto> [VString ''Bob'', VInt32 20]]"
    using sample_filled by blast
  have "rows t \<noteq> Map.empty" using t(3) by (auto simp: fun_eq_iff)
  then show ?thesis
    using select_request_returns_rows [OF conjunct1 [OF wf_sample_db [OF t(1)]] conjunct2 [OF wf_sample_db [OF t(1)]]
        sample_words(2), of "[OnColumn 1 ''>'' ''25'']" "Some 10"] sample_where t(2)
    by (intro exI [of _ t]) auto
qed

text \<open>
  (C3) A \<^verbatim>\<open>DELETE\<close> with such comparisons removes exactly the rows that meet them, up to the
  limit, and answers with their numbers.
\<close>

theorem delete_request_removes_rows:
  assumes "wf_db d" and "table_at d name i t" and "word_tok name" and "where_clause (info t) cls"
    and "\<forall>n\<in>set_option lim. n < SIZE_MOD"
  shows "\<exists>r t'. operator_execute (show_delete name (concat (map (clause_words (info t)) cls)) lim) d = (Inr r, set_table i t' d) \<and>
     isSucces r \<and> body r = id_rows (meeting t cls (limit_or_max lim)) \<and> wf_table t' \<and> info t' = info t \<and>
     rows t' = rows t |` (- set (meeting t cls (limit_or_max lim)))"
  using assms by (rule delete_request)

theorem delete_request_removes_rows_witness:
  "\<exists>t r t'. rows t \<noteq> Map.empty \<and>
     operator_execute (show_delete ''people'' [''age'', ''>'', ''25''] None) (sample_db t) = (Inr r, set_table 0 t' (sample_db t)) \<and>
     isSucces r \<and> rows t' = rows t |` (- set (meeting t [OnColumn 1 ''>'' ''25''] SIZE_MAX))"
proof -
  obtain t i j where t: "wf_table t" "info t = sample_info"
    "rows t = [i \<mapsto> [VString ''Ann'', VInt32 30], j \<mapsto> [VString ''Bob'', VInt32 20]]"
    using sample_filled by blast
  have "rows t \<noteq> Map.empty" using t(3) by (auto simp: fun_eq_iff)
  then show ?thesis
    using delete_request_removes_rows [OF conjunct1 [OF wf_sample_db [OF t(1)]] conjunct2 [OF wf_sample_db [OF t(1)]]
        sample_words(2), of "[OnColumn 1 ''>'' ''25'']" None] sample_where t(2)
    by (intro exI [of _ t]) auto
qed


lemma sample_assigned: "assigned_columns sample_info [1]"
  by (simp add: assigned_columns_def sample_columns_map word_tok_def is_space_def)

lemma sample_update_values: "update_values sample_info [''31''] [1] 0 = Inr [VInt32 31]"
  by (simp add: at_vec_def index_vec_def stoi_def strto_def c_str_def is_space_def
      is_digit_def digit_value_def signed_value_def)


section \<open>Requests after requests\<close>

lemma meeting_all:
  assumes "wf_table t" and "rows t l = Some r" and "passes (filters (info t) cls) r"
  shows "l \<in> set (meeting t cls SIZE_MAX)"
proof -
  have wf: "wf_but {} t" using assms(1) by (simp add: wf_table_def)
  have "length (filter (row_passes t (filters (info t) cls)) [0..<freeId t]) \<le> SIZE_MAX"
    using length_filter_le [of "row_passes t (filters (info t) cls)" "[0..<freeId t]"] activePlaces_bound(2) [OF wf]
    by (simp add: SIZE_MAX_def)
  then show ?thesis using rows_Some(3) [OF wf assms(2)] assms(2,3) by (simp add: meeting_def row_passes_def)
qed

text \<open>
  (C9) A row that has been inserted is returned by a \<^verbatim>\<open>SELECT *\<close> that follows, under the number
  the insertion answered with and with the values that were given (a text up to its first NUL byte
  and the size of its column).
\<close>

theorem insert_then_select:
  assumes "wf_db d" and "table_at d name i t" and "word_tok name" and "\<forall>v\<in>set vals. word_tok v"
    and "length vals = length (columns (info t))" and "room t 1"
    and "insert_row_values vals (columns (info t)) 0 = Inr vs"
  shows "\<exists>l r1 d1 r2. operator_execute (show_insert name vals) d = (Inr r1, d1) \<and> isSucces r1 \<and>
     body r1 = [[VInt64 (of_nat l)]] \<and>
     operator_execute (show_select [''*''] name [] None []) d1 = (Inr r2, d1) \<and> isSucces r2 \<and>
     (VInt64 (of_nat l) # map as_read vs) \<in> set (body r2)"
proof -
  have "insert_rows_values vals (columns (info t)) 1 0 = Inr vs" using assms(7) by simp
  then obtain "is" r1 t' where ins: "operator_execute (show_insert name vals) d = (Inr r1, set_table i t' d)"
    "isSucces r1" "body r1 = id_rows is" "length is = 1" "wf_table t'" "info t' = info t"
    "rows t' = rows t ++ map_of (zip is (insert_rows_of (info t) vs 1))"
    using insert_request [OF assms(1-4), of 1 vs] assms(5,6) by auto
  obtain l where l: "is = [l]" using ins(4) by (auto simp: length_Suc_conv)
  have "length vs = length (columns (info t))" using insert_row_values_spec [OF assms(7)] by simp
  then have r: "rows t' l = Some (map as_read vs)" using ins(7) l by (simp add: insert_rows_of_def)
  let ?d = "set_table i t' d"
  have d: "wf_db ?d" "table_at ?d name i t'"
    using wf_db_set_table [OF assms(1) ins(5)] table_at_set_table(1) [OF assms(2)] by simp_all
  obtain r2 where r2: "operator_execute (show_select [''*''] name [] None []) ?d = (Inr r2, ?d)" "isSucces r2"
    "body r2 = map (\<lambda>l. VInt64 (of_nat l) # the (rows t' l)) (meeting t' [] SIZE_MAX)"
    using select_request [OF d assms(3), of "[]" None] by (auto simp: where_clause_def)
  have "l \<in> set (meeting t' [] SIZE_MAX)"
    by (rule meeting_all [OF ins(5) r]) (simp add: filters_def passes_def)
  then have "(VInt64 (of_nat l) # map as_read vs) \<in> set (body r2)" using r r2(3) by force
  then show ?thesis using ins(1-3) l r2(1,2) by (intro exI [of _ l] exI) (auto simp: id_rows_def)
qed

theorem insert_then_select_witness:
  "\<exists>t l r1 d1 r2. operator_execute (show_insert ''people'' [''Eve'', ''41'']) (sample_db t) = (Inr r1, d1) \<and>
     body r1 = [[VInt64 (of_nat l)]] \<and>
     operator_execute (show_select [''*''] ''people'' [] None []) d1 = (Inr r2, d1) \<and>
     [VInt64 (of_nat l), VString ''Eve'', VInt32 41] \<in> set (body r2)"
proof -
  obtain t where t: "wf_table t" "info t = sample_info" "room t 100" using sample_opens by blast
  have "room t 1" using room_mono [OF _ t(3), of 1] by simp
  moreover have "insert_row_values [''Eve'', ''41''] (columns sample_info) 0 = Inr [VString (str_resize 8 ''Eve''), VInt32 41]"
    by (simp add: at_vec_def insert_value_def stoi_def strto_def c_str_def is_space_def is_digit_def digit_value_def
        signed_value_def)
  moreover have "\<forall>v\<in>set [''Eve'', ''41'']. word_tok v" by (simp add: word_tok_def is_space_def)
  moreover have "c_str (take 8 ''Eve'') = ''Eve''" by (simp add: c_str_def)
  ultimately show ?thesis
    using insert_then_select [OF conjunct1 [OF wf_sample_db [OF t(1)]] conjunct2 [OF wf_sample_db [OF t(1)]]
        sample_words(2), of "[''Eve'', ''41'']" "[VString (str_resize 8 ''Eve''), VInt32 41]"] t(2)
    by (intro exI [of _ t]) (auto simp: c_str_str_resize)
qed

text \<open>
  After a \<^verbatim>\<open>DELETE\<close> without limit, a \<^verbatim>\<open>SELECT *\<close> with the same comparisons returns no
  row.
\<close>

theorem delete_then_select:
  assumes "wf_db d" and "table_at d name i t" and "word_tok name" and "where_clause (info t) cls"
  shows "\<exists>r1 d1 r2. operator_execute (show_delete name (concat (map (clause_words (info t)) cls)) None) d = (Inr r1, d1) \<and>
     isSucces r1 \<and> operator_execute (show_select [''*''] name (concat (map (clause_words (info t)) cls)) None []) d1 = (Inr r2, d1) \<and>
     isSucces r2 \<and> body r2 = []"
proof -
  obtain r1 t' where del: "operator_execute (show_delete name (concat (map (clause_words (info t)) cls)) None) d =
      (Inr r1, set_table i t' d)" "isSucces r1" "wf_table t'" "info t' = info t"
    "rows t' = rows t |` (- set (meeting t cls SIZE_MAX))"
    using delete_request [OF assms, of None] by auto
  let ?d = "set_table i t' d"
  have d: "wf_db ?d" "table_at ?d name i t'"
    using wf_db_set_table [OF assms(1) del(3)] table_at_set_table(1) [OF assms(2)] by simp_all
  obtain r2 where r2: "operator_execute (show_select [''*''] name (concat (map (clause_words (info t)) cls)) None []) ?d = (Inr r2, ?d)"
    "isSucces r2" "body r2 = map (\<lambda>l. VInt64 (of_nat l) # the (rows t' l)) (meeting t' cls SIZE_MAX)"
    using select_request [OF d assms(3), of cls None] assms(4) del(4) by auto
  have "\<not> row_passes t' (filters (info t') cls) l" for l
    using meeting_all [OF wf_db_table [OF assms(1,2)], of l _ cls] del(4,5)
    by (auto simp: row_passes_def restrict_map_def split: option.splits if_splits)
  then have "meeting t' cls SIZE_MAX = []" by (simp add: meeting_def)
  then show ?thesis using del(1,2) r2 by (intro exI) auto
qed

theorem delete_then_select_witness:
  "\<exists>t r1 d1 r2. rows t \<noteq> Map.empty \<and>
     operator_execute (show_delete ''people'' [''age'', ''>'', ''25''] None) (sample_db t) = (Inr r1, d1) \<and>
     operator_execute (show_select [''*''] ''people'' [''age'', ''>'', ''25''] None []) d1 = (Inr r2, d1) \<and> body r2 = []"
proof -
  obtain t i j where t: "wf_table t" "info t = sample_info"
    "rows t = [i \<mapsto> [VString ''Ann'', VInt32 30], j \<mapsto> [VString ''Bob'', VInt32 20]]"
    using sample_filled by blast
  have "rows t \<noteq> Map.empty" using t(3) by (auto simp: fun_eq_iff)
  then show ?thesis
    using delete_then_select [OF conjunct1 [OF wf_sample_db [OF t(1)]] conjunct2 [OF wf_sample_db [OF t(1)]]
        sample_words(2), of "[OnColumn 1 ''>'' ''25'']"] sample_where t(2)
    by (intro exI [of _ t]) auto
qed

section \<open>Requests that are refused\<close>



text \<open>
  Values whose number is no multiple of the number of columns, or that do not parse, are refused:
  the insertion adds no row at all.
\<close>

theorem bad_values_are_refused:
  assumes "table_at d name i t" and "columns (info t) \<noteq> []" and "word_tok name" and "\<forall>v\<in>set vals. word_tok v"
    and "length vals mod length (columns (info t)) \<noteq> 0 \<or>
         (\<exists>e. insert_rows_values vals (columns (info t)) (length vals div length (columns (info t))) 0 = Inl e \<and> catchable e)"
  shows "\<exists>r. operator_execute (show_insert name vals) d = (Inr r, d) \<and> \<not> isSucces r \<and> body r = []"
proof -
  let ?q = "new_InsertQuery\<lparr>tabble_name := name, i_raw_values := vals, table_ptr := Some i\<rparr>"
  obtain msg where "optimizeInsertValues (info t) ?q = Inl (IncorrectInputException msg)"
    using assms(2,5)
    by (cases "length vals mod length (columns (info t)) = 0")
      (auto simp: optimizeInsertValues_def Let_def new_query_defs rethrow_as_Inl)
  then have "bindE (parse (show_insert name vals)) (optimizing d) = Inl (IncorrectInputException msg)"
    using insert_text [OF assms(3,4)] optimizing_at [of d "QInsert (?q\<lparr>table_ptr := None\<rparr>)" i t] assms(1)
    by (simp add: new_query_defs)
  then show ?thesis
    using operator_execute_rejected [of "show_insert name vals" d] by (simp add: new_Result_def)
qed

theorem bad_values_are_refused_witness:
  "\<exists>t r. info t = sample_info \<and> operator_execute (show_insert ''people'' [''Ann'']) (sample_db t) = (Inr r, sample_db t) \<and>
     \<not> isSucces r \<and> body r = []"
proof -
  obtain t where t: "wf_table t" "info t = sample_info" using sample_opens by blast
  have "\<forall>v\<in>set [''Ann'']. word_tok v" by (simp add: word_tok_def is_space_def)
  then show ?thesis
    using bad_values_are_refused [OF conjunct2 [OF wf_sample_db [OF t(1)]] _ sample_words(2), of "[''Ann'']"] t(2)
    by (intro exI [of _ t]) auto
qed

end
