(* ===== verification/Table_Guarantees.thy ===== *)
theory Table_Guarantees
  imports Sample
begin

text \<open>
  What the table and its storage guarantee to the layers above: opening and reopening, the reuse of
  row numbers, the storage of values, and what happens when the volume is full.
\<close>

section \<open>Opening\<close>

text \<open>
  A table whose files are made from a definition opens as an empty, well-formed table with the
  columns of the definition.
\<close>

theorem new_table_is_empty:
  assumes "wf_definition ds" and "\<forall>(n, t, z)\<in>set ds. t \<noteq> VOIDA \<and> (t = STRING \<longrightarrow> 0 < z)"
    and "100 * (1 + total_size ds) \<le> maxf" and "100 * (1 + total_size ds) \<le> maxm" and "maxf < 2 ^ 63"
  shows "\<exists>t. new_Tabble name (Some (info_text ds)) (Some []) maxf maxm = Inr t \<and> wf_table t \<and>
     info t = info_of ds \<and> rows t = Map.empty \<and> activePlaces t = 0"
  using new_table_opens [OF assms, of name] by blast

theorem new_table_is_empty_witness:
  "\<exists>t. new_Tabble ''people'' (Some (info_text sample_defs)) (Some []) 100000 100000 = Inr t \<and> wf_table t \<and>
     rows t = Map.empty"
  using new_table_is_empty [OF wf_sample_defs storable_sample, of 100000 100000 "''people''"]
  by (auto simp: total_sample)

text \<open>
  (C10) A table that is closed and opened again on the same files has the rows it had: the free lines
  and the number of active rows are recovered from the file.
\<close>

theorem reopened_table_has_its_rows:
  assumes "wf_table t" and "wf_definition ds" and "info t = info_of ds"
    and "lineLength (storage t) < fileSize (storage t)" and "full (storage t) \<Longrightarrow> can_grow (storage t)"
  shows "\<exists>t'. new_Tabble name (Some (info_text ds)) (Some (file_bytes (storage t)))
       (max_file (storage t)) (max_map (storage t)) = Inr t' \<and> wf_table t' \<and> info t' = info t \<and>
     rows t' = rows t \<and> activePlaces t' = card (dom (rows t))"
  using assms by (rule table_reopens)

theorem reopened_table_has_its_rows_witness:
  "\<exists>t t'. new_Tabble ''people'' (Some (info_text sample_defs)) (Some []) 100000 100000 = Inr t \<and>
     new_Tabble ''people'' (Some (info_text sample_defs)) (Some (file_bytes (storage t))) 100000 100000 = Inr t' \<and>
     rows t' = rows t"
proof -
  obtain t where t: "new_Tabble ''people'' (Some (info_text sample_defs)) (Some []) 100000 100000 = Inr t" "wf_table t"
    "info t = info_of sample_defs" "rows t = Map.empty" "storage t = blank_map 13 100000 100000"
    using sample_opens by (auto simp: sample_info_def)
  have "\<not> full (storage t)"
    using blank_map_ok(3) [OF wf_info_of [OF wf_sample_defs storable_sample], of 13 100000 100000] t(5)
    by (simp add: info_of_def total_sample)
  then show ?thesis
    using reopened_table_has_its_rows [OF t(2) wf_sample_defs t(3), of "''people''"] t(1,5) by (auto simp: blank_map_def)
qed

section \<open>Row numbers\<close>

text \<open>
  The line of a row that has been erased is the next one to be used: an insertion that follows
  gets its number.
\<close>

theorem erased_line_is_reused:
  assumes "wf_table t" and "i \<in> dom (rows t)"
  shows "\<exists>t1 t2. erase i t = (Inr i, t1) \<and> rows t1 = (rows t)(i := None) \<and> allocateId t1 = (Inr i, t2) \<and>
     rows t2 = rows t1"
proof -
  have a: "i \<in> active (storage t)" using assms dom_rows [of "{}" t] by (simp add: wf_table_def)
  note e = erase_wf [OF assms(1) a]
  let ?t1 = "snd (erase i t)"
  have "rows ?t1 = (rows t)(i := None)" using erase_spec [OF assms(1) a] by auto
  moreover have "allocateId ?t1 = (Inr i, ?t1\<lparr>stack_freeId := stack_freeId t\<rparr>)"
    by (simp add: e allocateId_def)
  moreover have "rows (?t1\<lparr>stack_freeId := stack_freeId t\<rparr>) = rows ?t1" by (rule rows_cong) simp_all
  moreover have "erase i t = (Inr i, ?t1)" by (simp add: e)
  ultimately show ?thesis by blast
qed

theorem erased_line_is_reused_witness:
  "\<exists>t i t1 t2. i \<in> dom (rows t) \<and> erase i t = (Inr i, t1) \<and> allocateId t1 = (Inr i, t2)"
proof -
  obtain t i j where t: "wf_table t" "rows t = [i \<mapsto> [VString ''Ann'', VInt32 30], j \<mapsto> [VString ''Bob'', VInt32 20]]"
    using sample_filled by blast
  have "i \<in> dom (rows t)" using t(2) by simp
  then show ?thesis using erased_line_is_reused [OF t(1), of i] by blast
qed

text \<open>
  (C26) The number \<^verbatim>\<open>allocateId\<close> hands out is the number of no row, and no row is lost by it,
  also when the file has to grow.
\<close>

theorem allocated_number_is_free:
  assumes "wf_table t" and "room t (Suc k)"
  shows "\<exists>cur t'. allocateId t = (Inr cur, t') \<and> rows t cur = None \<and> rows t' = rows t \<and>
     cur \<notin> set (stack_freeId t') \<and> cur < max_line (storage t') \<and> room t' k"
proof -
  obtain cur t' where c: "allocateId t = (Inr cur, t')" "allocated t cur t'" "room t' k"
    using allocateId_spec [OF assms] by blast
  have d: "wf_but {cur} t'" "cur < freeId t'" "cur \<notin> active (storage t)" "rows t' = rows t"
    using c(2) by (simp_all add: allocated_def)
  then show ?thesis
    using c(1,3) wf_but_dest(6,8) [OF d(1)] by (auto simp: rows_def)
qed

theorem allocated_number_is_free_witness:
  "\<exists>t cur t'. allocateId t = (Inr cur, t') \<and> rows t cur = None \<and> rows t' = rows t"
proof -
  obtain t where t: "wf_table t" "room t 100" using sample_opens by blast
  then show ?thesis using allocated_number_is_free [OF t(1), of 99] by auto
qed

section \<open>Storage\<close>

text \<open>
  (C32) A value written inside a line of the storage is read back, and the bytes of every other field
  and of every other line are the same as before.
\<close>

theorem written_field_is_read_back:
  assumes "wf_map m" and "l < max_line m" and "off + length (value_bytes v) \<le> lineLength m"
  shows "\<exists>m'. writeInfo l off v m = (Inr (), m') \<and> wf_map m' \<and>
     readNumber_bytes m' l off (length (value_bytes v)) = Inr (value_bytes v) \<and>
     (\<forall>l' off' n. l' < max_line m \<longrightarrow> off' + n \<le> lineLength m \<longrightarrow>
        l' \<noteq> l \<or> off' + n \<le> off \<or> off + length (value_bytes v) \<le> off' \<longrightarrow>
        readNumber_bytes m' l' off' n = readNumber_bytes m l' off' n)"
  using assms
  by (intro exI [of _ "put_cell l off (value_bytes v) m"])
    (auto simp: writeInfo_wf wf_put_cell readNumber_wf cell_put_cell_same cell_put_cell_other)

theorem written_field_is_read_back_witness:
  "\<exists>m'. writeInfo 3 9 (VInt32 30) (blank_map 13 100000 100000) = (Inr (), m') \<and>
     readNumber_bytes m' 3 9 4 = Inr (enc_int32 30) \<and> readNumber_bytes m' 3 0 1 = readNumber_bytes (blank_map 13 100000 100000) 3 0 1"
proof -
  have "wf_map (blank_map 13 100000 100000)" "max_line (blank_map 13 100000 100000) = 100"
    "lineLength (blank_map 13 100000 100000) = 13"
    by (simp_all add: wf_map_def blank_map_def max_line_def)
  then show ?thesis
    using written_field_is_read_back [of "blank_map 13 100000 100000" 3 9 "VInt32 30"]
    by (auto simp: int32.width)
qed

section \<open>A full volume\<close>

lemma insert_refused:
  assumes "wf_table t" and "stack_freeId t = []" and "freeId t = max_line (storage t)"
    and "max_file (storage t) < 2 * fileSize (storage t)"
  shows "insert_row vs cols k t = (Inl (RuntimeError ''ftruncate failed''),
     t\<lparr>storage := (storage t)\<lparr>mappedData := Unmapped, expanding := True\<rparr>\<rparr>)"
proof -
  have m: "wf_map (storage t)" using assms(1) by (auto simp: wf_table_def dest: wf_but_dest(1))
  then have "allocateId t = (Inl (RuntimeError ''ftruncate failed''),
     t\<lparr>storage := (storage t)\<lparr>mappedData := Unmapped, expanding := True\<rparr>\<rparr>)"
    using assms by (simp add: allocateId_def bnd_def on_storage_def zoom_def expand_refused Let_def)
  then show ?thesis by (simp add: insert_row_def bnd_def)
qed

text \<open>
  (C33) When the file of a full table cannot be extended, \<^verbatim>\<open>INSERT\<close> catches the exception and
  still reports success, with the message in \<^verbatim>\<open>error\<close>; the mapping is gone, so the next read of
  the table is undefined, and the next insertion waits for ever for the \<^verbatim>\<open>expanding\<close> flag.
\<close>

theorem insert_on_full_volume:
  assumes "wf_table t" and "stack_freeId t = []" and "freeId t = max_line (storage t)"
    and "max_file (storage t) < 2 * fileSize (storage t)" and "i_values q \<noteq> []"
  shows "\<exists>t'. execute (QInsert q) \<lparr>etable = t, eresult = new_Result\<rparr> =
       (Inr (), \<lparr>etable = t', eresult = new_Result\<lparr>isSucces := True, header := [''ID''], types := [''INT64''],
          error := ''ftruncate failed''\<rparr>\<rparr>) \<and>
     (\<forall>l<max_line (storage t). isActive (storage t') l = Inl (Undefined ''memcpy: outside the mapping'')) \<and>
     fst (insert_row vs cols k t') = Inl Hang"
proof -
  let ?m = "(storage t)\<lparr>mappedData := Unmapped, expanding := True\<rparr>" let ?t = "t\<lparr>storage := ?m\<rparr>"
  have wf: "wf_but {} t" using assms(1) by (simp add: wf_table_def)
  note d = wf_but_dest [OF wf]
  have cols: "columns (info t) \<noteq> []" using d(2) by (simp add: wf_info_def)
  let ?s = "\<lparr>etable = t, eresult = new_Result\<lparr>isSucces := True, header := [''ID''], types := [''INT64'']\<rparr>\<rparr>"
  have loop: "insert_loop (i_values q) 0 ?s = (Inl (RuntimeError ''ftruncate failed''), ?s\<lparr>etable := ?t\<rparr>)"
    using cols assms(5) insert_refused [OF assms(1-4)]
    by (subst insert_loop.simps) (simp add: Let_def bnd_def on_table_apply)
  have "execute (QInsert q) \<lparr>etable = t, eresult = new_Result\<rparr> =
       (Inr (), \<lparr>etable = ?t, eresult = new_Result\<lparr>isSucces := True, header := [''ID''], types := [''INT64''],
          error := ''ftruncate failed''\<rparr>\<rparr>)"
    using loop
    by (simp add: executeInsert_def bnd_def push_column_def on_result_apply catch_std_def new_Result_def)
  moreover have "isActive ?m l = Inl (Undefined ''memcpy: outside the mapping'')" if "l < max_line (storage t)" for l
  proof -
    have "findLine (storage t) l = Some (l * lineLength (storage t))" using findLine_wf [OF d(1) that] .
    then have "findLine ?m l = Some (l * lineLength (storage t))"
      using d(1) by (simp add: findLine_def Let_def wf_map_def split: if_splits)
    then show ?thesis by (simp add: isActive_def core_readNumber_def memcpy_from_def accessible_def)
  qed
  moreover have "getMaxLines ?m = Inr (max_line (storage t))"
    using d(1) by (simp add: getMaxLines_def getMaxLine_def wf_map_def max_line_def)
  then have "fst (insert_row vs cols k ?t) = Inl Hang"
    using assms(2,3) by (simp add: insert_row_def allocateId_def bnd_def on_storage_def zoom_def expand_def Let_def)
  ultimately show ?thesis by (intro exI [of _ ?t]) simp
qed

text \<open>A table of one line, in use, on a volume with no more space.\<close>

definition sample_full :: table where
  "sample_full = \<lparr>baseName = ''people'', info = sample_info,
     storage = \<lparr>mappedData = Mapped, file_bytes = CHR 0x01 # replicate 12 NUL, fileSize = 13, lineLength = 13,
       expanding = False, max_file = 13, max_map = 13\<rparr>,
     stack_freeId = [], freeId = 1, activePlaces = 1\<rparr>"

lemma wf_sample_full: "wf_table sample_full"
proof -
  have "max_line (storage sample_full) = 1" by (simp add: sample_full_def max_line_def)
  moreover have "cell (storage sample_full) 0 0 1 = enc_bool True"
    by (simp add: sample_full_def cell_def get_bytes_def enc_bool_bytes)
  ultimately have act: "active (storage sample_full) = {0}" "flags_ok (storage sample_full)"
    by (auto simp: active_def flags_ok_def)
  have "wf_info (info sample_full)" using wf_info_of [OF wf_sample_defs storable_sample]
    by (simp add: sample_full_def sample_info_def)
  moreover have "wf_map (storage sample_full)" by (simp add: sample_full_def wf_map_def)
  moreover have "\<exists>v. column_value sample_full i c = Inr v" if "c \<in> set (columns sample_info)" for i c
    using that by (auto simp: column_value_def stored_value_def decode_number_def dec_int32_def)
  ultimately show ?thesis
    using act by (auto simp: wf_table_def wf_but_def sample_full_def max_line_def sample_info_def info_of_def total_sample)
qed

theorem insert_on_full_volume_witness:
  "\<exists>t'. execute (QInsert (new_InsertQuery\<lparr>i_values := [VString ''Ann'', VInt32 30]\<rparr>))
       \<lparr>etable = sample_full, eresult = new_Result\<rparr> =
       (Inr (), \<lparr>etable = t', eresult = new_Result\<lparr>isSucces := True, header := [''ID''], types := [''INT64''],
          error := ''ftruncate failed''\<rparr>\<rparr>) \<and>
     fst (insert_row [VString ''Ann'', VInt32 30] (columns sample_info) 0 t') = Inl Hang"
  using insert_on_full_volume [OF wf_sample_full, of "new_InsertQuery\<lparr>i_values := [VString ''Ann'', VInt32 30]\<rparr>"
      "[VString ''Ann'', VInt32 30]" "columns sample_info" 0]
  by (auto simp: sample_full_def max_line_def simp del: execute.simps)

end
