(* ===== verification/Row_Numbers.thy ===== *)
theory Row_Numbers
  imports Sample
begin

text \<open>
  Requests that name the row number (\<^verbatim>\<open>id\<close>), requests with \<^verbatim>\<open>ORDER BY\<close>, and the meaning
  of a chain of \<^verbatim>\<open>AND\<close> and \<^verbatim>\<open>OR\<close>. Several of the theorems state behaviour that a reader of
  \<^verbatim>\<open>documentary.md\<close> would not expect.
\<close>

section \<open>Chains of conditions\<close>

definition connective :: "bool \<Rightarrow> Condition" where
  "connective isAnd = \<lparr>cond_type = (if isAnd then LOGICAL_AND else LOGICAL_OR), collumn_id = SIZE_MAX, desired = VInt32 0\<rparr>"

definition chain :: "Condition \<Rightarrow> (bool \<times> Condition) list \<Rightarrow> Condition list" where
  "chain c rest = c # concat (map (\<lambda>(isAnd, c). [connective isAnd, c]) rest)"

lemma set_chain: "set (chain c rest) \<subseteq> range connective \<union> set (c # map snd rest)"
  by (force simp: chain_def)

lemma plain_connective: "plain ti (connective b)"
  by (cases b) (simp_all add: plain_def logical_cond_def connective_def)

lemma eval_chain:
  assumes "\<forall>(isAnd, c)\<in>set rest. collumn_id c \<noteq> SIZE_MAX"
  shows "eval_from r (concat (map (\<lambda>(isAnd, c). [connective isAnd, c]) rest)) acc op1 =
     foldl (\<lambda>acc (isAnd, c). if isAnd then acc \<and> meets c (r ! collumn_id c) else acc \<or> meets c (r ! collumn_id c)) acc rest"
  using assms
proof (induction rest arbitrary: acc op1)
  case (Cons x rest)
  obtain isAnd c where x: "x = (isAnd, c)" by force
  have c: "collumn_id c \<noteq> SIZE_MAX" using Cons.prems by (simp add: x)
  show ?case using Cons c by (simp add: x connective_def del: meets.simps)
qed simp

text \<open>
  \<^verbatim>\<open>AND\<close> and \<^verbatim>\<open>OR\<close> have the same precedence: on a row of a well-formed table
  \<^verbatim>\<open>satisfiesConditions\<close> returns the left-to-right combination of the comparisons.
\<close>

theorem conditions_left_to_right:
  assumes "wf_table t" and "rows t l = Some r" and "\<forall>x\<in>set (c # map snd rest). plain (info t) x \<and> \<not> logical_cond x"
  shows "satisfiesConditions t l (chain c rest) (columns (info t)) =
     Inr (foldl (\<lambda>acc (isAnd, c). if isAnd then acc \<and> meets c (r ! collumn_id c) else acc \<or> meets c (r ! collumn_id c))
            (meets c (r ! collumn_id c)) rest)"
proof -
  have wf: "wf_but {} t" using assms(1) by (simp add: wf_table_def)
  have pl: "plain (info t) x \<and> collumn_id x \<noteq> SIZE_MAX" if "x \<in> set (c # map snd rest)" for x
  proof
    show pl: "plain (info t) x" using that assms(3) by blast
    have "collumn_id x < length (columns (info t))" using pl that assms(3) by (auto simp: plain_def)
    then show "collumn_id x \<noteq> SIZE_MAX" by (rule columns_not_SIZE_MAX [OF wf])
  qed
  have "plain (info t) x" if "x \<in> set (chain c rest)" for x
  proof (cases "x \<in> range connective")
    case True
    then show ?thesis using plain_connective by auto
  next
    case False
    then have "x \<in> set (c # map snd rest)" using that set_chain [of c rest] by auto
    then show ?thesis using pl by blast
  qed
  then have "\<forall>x\<in>set (chain c rest). plain (info t) x" by blast
  then have "satisfiesConditions t l (chain c rest) (columns (info t)) = Inr (eval_from r (chain c rest) False LOGICAL_OR)"
    unfolding satisfiesConditions_def by (rule satisfies_loop_row [OF wf assms(2)])
  moreover have "collumn_id x \<noteq> SIZE_MAX" if "(b, x) \<in> set rest" for b x
    using pl [of x] that by force
  then have "\<forall>(isAnd, c)\<in>set rest. collumn_id c \<noteq> SIZE_MAX" by blast
  then have "eval_from r (chain c rest) False LOGICAL_OR = foldl (\<lambda>acc (isAnd, c). if isAnd then acc \<and> meets c (r ! collumn_id c)
      else acc \<or> meets c (r ! collumn_id c)) (meets c (r ! collumn_id c)) rest"
    using eval_chain [of rest r "meets c (r ! collumn_id c)" LOGICAL_OR] pl [of c] by (simp add: chain_def del: meets.simps)
  ultimately show ?thesis by simp
qed

theorem conditions_left_to_right_witness:
  "\<exists>t l. satisfiesConditions t l
     (chain \<lparr>cond_type = EQUAL, collumn_id = 0, desired = VString ''Ann''\<rparr>
        [(False, \<lparr>cond_type = LESS, collumn_id = 1, desired = VInt32 25\<rparr>),
         (True, \<lparr>cond_type = GREATER, collumn_id = 1, desired = VInt32 40\<rparr>)]) (columns sample_info) = Inr False"
proof -
  obtain t i j where t: "wf_table t" "info t = sample_info" "i \<noteq> j"
    "rows t = [i \<mapsto> [VString ''Ann'', VInt32 30], j \<mapsto> [VString ''Bob'', VInt32 20]]"
    using sample_filled by blast
  have "rows t i = Some [VString ''Ann'', VInt32 30]" using t(3,4) by simp
  then show ?thesis
    using conditions_left_to_right [OF t(1), of i "[VString ''Ann'', VInt32 30]"
        "\<lparr>cond_type = EQUAL, collumn_id = 0, desired = VString ''Ann''\<rparr>"
        "[(False, \<lparr>cond_type = LESS, collumn_id = 1, desired = VInt32 25\<rparr>),
         (True, \<lparr>cond_type = GREATER, collumn_id = 1, desired = VInt32 40\<rparr>)]"] t(2)
    by (intro exI [of _ t] exI [of _ i]) (simp add: plain_def logical_cond_def)
qed

section \<open>Row numbers in conditions\<close>

lemma number_word: "word_tok (to_string n) \<and> to_string n \<noteq> ''LIMIT'' \<and> to_string n \<noteq> ''ORDER''"
  using to_string_digits [of "CHR ''L''" n] to_string_digits [of "CHR ''O''" n]
  by (auto simp: is_digit_def digit_value_def)

lemma unat_index: "n < SIZE_MOD \<Longrightarrow> unat (of_nat n :: 64 word) = n"
  by (simp add: unsigned_of_nat take_bit_nat_eq_self)

lemma select_star:
  assumes "wf_db d" and "table_at d name i t" and "word_tok name" and "\<forall>w\<in>set ws. word_tok w \<and> w \<noteq> ''LIMIT'' \<and> w \<noteq> ''ORDER''"
    and "optimizeConditions (info t) ws [] = Inr cs"
    and "select_range \<lparr>tabble_name = name, table_ptr = Some i, conditions = cs, raw_conditions = ws, limit = SIZE_MAX\<rparr> t lo hi cs'"
  shows "\<exists>r. operator_execute (show_select [''*''] name ws None []) d = (Inr r, d) \<and> isSucces r \<and>
     body r = map (\<lambda>l. VInt64 (of_nat l) # the (rows t l)) (chosen t cs' SIZE_MAX lo hi)"
proof -
  let ?n = "length (columns (info t))"
  let ?q = "new_SelectQuery\<lparr>tabble_name := name, s_columns_raw := [''*''], raw_conditions := ws,
      limit := SIZE_MAX, oder_columns_raw := []\<rparr>"
  let ?q' = "?q\<lparr>table_ptr := Some i, conditions := cs, s_columns_optimized := [0..<?n]\<rparr>"
  let ?s = "\<lparr>etable = t, eresult = new_Result\<lparr>isSucces := True\<rparr>\<rparr>"
  have t: "wf_table t" "wf_but {} t" using wf_db_table [OF assms(1,2)] by (simp_all add: wf_table_def)
  have p: "parse (show_select [''*''] name ws None []) = Inr (QSelect ?q)"
    using assms(3,4) select_text [of "[''*'']" name ws None "[]"] by (simp add: word_tok_def is_space_def)
  have opt: "optimize_select (info t) (?q\<lparr>table_ptr := Some i\<rparr>) = Inr ?q'"
    using assms(5) by (simp add: optimize_select_def query_conditions_def optimizeOrdering_def new_query_defs)
  have "select_range ?q' t lo hi cs'" using assms(6) by (simp add: select_range_def direct_def)
  moreover have "order_columns_optimized ?q' = []" "selects ?q' (info t)" by (simp_all add: new_query_defs selects_def)
  ultimately have "executeSelect ?q' ?s = (Inr (), ?s\<lparr>eresult := add_rows
      (selection t [0..<?n] (chosen t cs' SIZE_MAX lo hi)) (select_header (info t) [0..<?n] (eresult ?s))\<rparr>)"
    using select_unordered [of ?s ?q' lo hi cs'] t(1) by (simp add: new_Result_def)
  moreover have "selection t [0..<?n] (chosen t cs' SIZE_MAX lo hi) =
      map (\<lambda>l. VInt64 (of_nat l) # the (rows t l)) (chosen t cs' SIZE_MAX lo hi)"
    by (rule selection_all [OF t(2)]) (auto dest!: chosen_ge simp: row_passes_def split: option.splits)
  ultimately have "operator_execute (show_select [''*''] name ws None []) d =
      (Inr ((add_rows (map (\<lambda>l. VInt64 (of_nat l) # the (rows t l)) (chosen t cs' SIZE_MAX lo hi))
         (select_header (info t) [0..<?n] (eresult ?s)))\<lparr>isSucces := True\<rparr>), set_table i t d)"
    using operator_execute_ok [OF p, of d i t "QSelect ?q'"] assms(2) opt
    by (simp add: bnd_Inr on_result_apply new_query_defs)
  then show ?thesis
    using set_table_same [OF assms(2)] by (simp add: add_rows_def select_header_def new_Result_def)
qed

text \<open>
  \<^verbatim>\<open>WHERE id >= a AND id <= b\<close> returns the rows from \<open>a\<close> up to \<open>b\<close> without
  \<open>b\<close> itself, in order: the bound of \<^verbatim>\<open><=\<close> is exclusive.
\<close>

theorem id_range_excludes_upper_bound:
  assumes "wf_db d" and "table_at d name i t" and "word_tok name" and "a < SIZE_MOD" and "b \<le> max_line (storage t)"
  shows "\<exists>r. operator_execute (show_select [''*''] name [''id'', ''>='', to_string a, ''AND'', ''id'', ''<='', to_string b] None []) d =
       (Inr r, d) \<and> isSucces r \<and>
     body r = map (\<lambda>l. VInt64 (of_nat l) # the (rows t l)) (filter (\<lambda>l. rows t l \<noteq> None) [a..<b])"
proof -
  let ?cls = "[OnId ''>='' a, Logic True, OnId ''<='' b]"
  let ?ws = "[''id'', ''>='', to_string a, ''AND'', ''id'', ''<='', to_string b]"
  have wf: "wf_table t" "wf_but {} t" using wf_db_table [OF assms(1,2)] by (simp_all add: wf_table_def)
  have b: "b < SIZE_MOD" using assms(5) max_line_small [OF wf_but_dest(1) [OF wf(2)]] by simp
  let ?cs = "[\<lparr>cond_type = TO_INDEX, collumn_id = 0, desired = VInt64 (of_nat b)\<rparr>,
     \<lparr>cond_type = FROM_INDEX, collumn_id = 0, desired = VInt64 (of_nat a)\<rparr>,
     \<lparr>cond_type = LOGICAL_AND, collumn_id = SIZE_MAX, desired = VInt32 0\<rparr>]"
  have cs: "optimizeConditions (info t) ?ws [] = Inr ?cs"
    using optimize_clauses [of ?cls "info t" "[]"] assms(4) b by simp
  have ws: "\<forall>w\<in>set ?ws. word_tok w \<and> w \<noteq> ''LIMIT'' \<and> w \<noteq> ''ORDER''"
    using number_word [of a] number_word [of b] by (simp add: word_tok_def is_space_def)
  have rng: "select_range \<lparr>tabble_name = name, table_ptr = Some i, conditions = ?cs, raw_conditions = ?ws, limit = SIZE_MAX\<rparr> t a b []"
    using assms(4,5) b by (simp add: select_range_def direct_def unat_index)
  have "row_passes t [] = (\<lambda>l. rows t l \<noteq> None)"
    by (auto simp: fun_eq_iff row_passes_def passes_def split: option.splits)
  moreover have "length (filter (\<lambda>l. rows t l \<noteq> None) [a..<b]) \<le> SIZE_MAX"
    using length_filter_le [of "\<lambda>l. rows t l \<noteq> None" "[a..<b]"] b by (simp add: SIZE_MAX_def)
  ultimately have "chosen t [] SIZE_MAX a b = filter (\<lambda>l. rows t l \<noteq> None) [a..<b]" by (simp add: chosen_def)
  then show ?thesis using select_star [OF assms(1-3) ws cs rng] by simp
qed

theorem id_range_excludes_upper_bound_witness:
  "\<exists>t r. rows t \<noteq> Map.empty \<and> operator_execute (show_select [''*''] ''people''
       [''id'', ''>='', to_string 0, ''AND'', ''id'', ''<='', to_string 1] None []) (sample_db t) = (Inr r, sample_db t) \<and>
     body r = map (\<lambda>l. VInt64 (of_nat l) # the (rows t l)) (filter (\<lambda>l. rows t l \<noteq> None) [0..<1])"
proof -
  obtain t i j where t: "wf_table t" "info t = sample_info"
    "rows t = [i \<mapsto> [VString ''Ann'', VInt32 30], j \<mapsto> [VString ''Bob'', VInt32 20]]"
    using sample_filled by blast
  have "rows t \<noteq> Map.empty" using t(3) by (auto simp: fun_eq_iff)
  moreover have "1 \<le> max_line (storage t)"
    using t(1) max_line_pos [of "storage t"] by (auto simp: wf_table_def dest: wf_but_dest(1))
  ultimately show ?thesis
    using id_range_excludes_upper_bound [OF conjunct1 [OF wf_sample_db [OF t(1)]] conjunct2 [OF wf_sample_db [OF t(1)]]
        sample_words(2), of 0 1] by (intro exI [of _ t]) auto
qed

text \<open>The record of a line that was erased is still in the file.\<close>

lemma erased_record:
  assumes "wf_table t" and "rows t l = Some r" and "erase l t = (Inr l, t1)"
  shows "readRecord t1 l [0..<length (columns (info t))] (columns (info t)) = Inr (VInt64 (of_nat l) # r)"
proof -
  let ?cs = "columns (info t)"
  have wf: "wf_but {} t" using assms(1) by (simp add: wf_table_def)
  note d = wf_but_dest [OF wf]
  have l: "l \<in> active (storage t)" "l < max_line (storage t)" using rows_Some(1,2) [OF wf assms(2)] .
  have one: "0 + length (enc_bool False) \<le> lineLength (storage t)" using d(1) by (auto simp: bool1.width wf_map_def)
  have t1: "storage t1 = put_cell l 0 (enc_bool False) (storage t)" "info t1 = info t"
    using erase_wf [OF assms(1) l(1)] assms(3) by auto
  have "wf_table t1" using erase_spec [OF assms(1) l(1)] assms(3) by auto
  then have wf1: "wf_but {} t1" by (simp add: wf_table_def)
  have v: "read_column t1 l (?cs ! j) = Inr (r ! j)" if "j < length ?cs" for j
  proof -
    have c: "1 \<le> offset (?cs ! j)" "offset (?cs ! j) + col_size (?cs ! j) \<le> lineLength (storage t)"
      using wf_info_column [OF d(2), of "?cs ! j"] that d(3) by simp_all
    have "cell (storage t1) l (offset (?cs ! j)) (col_size (?cs ! j)) = cell (storage t) l (offset (?cs ! j)) (col_size (?cs ! j))"
      unfolding t1(1) using c by (intro cell_put_cell_other [OF d(1) l(2) one l(2)]) (simp_all add: bool1.width)
    then have "column_value t1 l (?cs ! j) = column_value t l (?cs ! j)" by (simp add: column_value_def)
    moreover have "read_column t1 l (?cs ! j) = column_value t1 l (?cs ! j)"
      using read_column_wf [OF wf1] l(2) that t1 by simp
    ultimately show ?thesis using rows_Some(5) [OF wf assms(2) that] by simp
  qed
  have "mapE (\<lambda>i. bindE (index_vec ?cs i) (read_column t1 l)) [0..<length ?cs] = Inr (map ((!) r) [0..<length ?cs])"
    using v by (intro mapE_Inr) (simp add: index_vec_def)
  moreover have "map ((!) r) [0..<length ?cs] = r" using map_nth [of r] rows_Some(4) [OF wf assms(2)] by simp
  ultimately show ?thesis by (simp add: readRecord_def)
qed

abbreviation by_number :: "nat \<Rightarrow> string list" where
  "by_number l \<equiv> [''id'', ''=='', to_string l]"

lemma by_number_words: "\<forall>w\<in>set (by_number l). word_tok w \<and> w \<noteq> ''LIMIT'' \<and> w \<noteq> ''ORDER''"
  using number_word [of l] by (simp add: word_tok_def is_space_def)

lemma by_number_condition: "l < SIZE_MOD \<Longrightarrow>
  optimizeConditions ti (by_number l) [] = Inr [\<lparr>cond_type = DIRECT_INDEX, collumn_id = 0, desired = VInt64 (of_nat l)\<rparr>]"
  using optimize_clauses [of "[OnId ''=='' l]" ti "[]"] by simp

text \<open>\<^verbatim>\<open>DELETE ... WHERE id == l\<close> erases line \<open>l\<close>.\<close>

lemma delete_by_number:
  assumes "wf_db d" and "table_at d name i t" and "word_tok name" and "l \<in> active (storage t)" and "erase l t = (Inr l, t')"
  shows "\<exists>r. operator_execute (show_delete name (by_number l) None) d = (Inr r, set_table i t' d)"
proof -
  let ?s = "\<lparr>etable = t, eresult = new_Result\<lparr>isSucces := True\<rparr>\<rparr>"
  let ?q = "new_QueryBase\<lparr>tabble_name := name, raw_conditions := by_number l, limit := SIZE_MAX\<rparr>"
  let ?q' = "?q\<lparr>table_ptr := Some i, conditions := [\<lparr>cond_type = DIRECT_INDEX, collumn_id = 0, desired = VInt64 (of_nat l)\<rparr>]\<rparr>"
  have t: "wf_but {} t" using wf_db_table [OF assms(1,2)] by (simp add: wf_table_def)
  have l: "l < max_line (storage t)" by (rule active_bound [OF assms(4)])
  have lt: "l < SIZE_MOD" using l max_line_small [OF wf_but_dest(1) [OF t]] by simp
  have p: "parse (show_delete name (by_number l) None) = Inr (QDelete ?q)"
    using delete_text [OF assms(3), of "by_number l" None] by_number_words [of l] by simp
  have opt: "query_conditions (info t) (?q\<lparr>table_ptr := Some i\<rparr>) = Inr ?q'"
    using by_number_condition [OF lt] by (simp add: query_conditions_def new_query_defs)
  have "\<exists>s. executeDelete ?q' ?s = (Inr (), s) \<and> etable s = t'"
    using isActive_table [OF t l] assms(4,5) unat_index [OF lt]
    by (simp add: executeDelete_def bnd_Inr push_column_def on_result_apply on_table_apply push_body_apply new_query_defs)
  then obtain s where s: "executeDelete ?q' ?s = (Inr (), s)" "etable s = t'" by blast
  show ?thesis
    using operator_execute_ok [OF p, of d i t "QDelete ?q'"] assms(2) opt s
    by (simp add: bnd_Inr on_result_apply new_query_defs)
qed

text \<open>\<^verbatim>\<open>SELECT * ... WHERE id == l\<close> returns the record of line \<open>l\<close>, whatever its flag.\<close>

lemma select_by_number:
  assumes "table_at d name i t" and "word_tok name" and "l < SIZE_MOD"
    and "readRecord t l [0..<length (columns (info t))] (columns (info t)) = Inr rec"
  shows "\<exists>r. operator_execute (show_select [''*''] name (by_number l) None []) d = (Inr r, d) \<and> isSucces r \<and> body r = [rec]"
proof -
  let ?n = "length (columns (info t))"
  let ?s = "\<lparr>etable = t, eresult = new_Result\<lparr>isSucces := True\<rparr>\<rparr>"
  let ?q = "new_SelectQuery\<lparr>tabble_name := name, s_columns_raw := [''*''], raw_conditions := by_number l,
      limit := SIZE_MAX, oder_columns_raw := []\<rparr>"
  let ?q' = "?q\<lparr>table_ptr := Some i, conditions := [\<lparr>cond_type = DIRECT_INDEX, collumn_id = 0, desired = VInt64 (of_nat l)\<rparr>],
      s_columns_optimized := [0..<?n]\<rparr>"
  have p: "parse (show_select [''*''] name (by_number l) None []) = Inr (QSelect ?q)"
    using assms(2) by_number_words [of l] select_text [of "[''*'']" name "by_number l" None "[]"]
    by (simp add: word_tok_def is_space_def)
  have opt: "optimize_select (info t) (?q\<lparr>table_ptr := Some i\<rparr>) = Inr ?q'"
    using by_number_condition [OF assms(3)]
    by (simp add: optimize_select_def query_conditions_def optimizeOrdering_def new_query_defs)
  have row: "select_row [0..<?n] l s = (Inr (), s\<lparr>eresult := add_rows [rec] (eresult s)\<rparr>)" if "etable s = t" for s
    using assms(4) that by (simp add: select_row_def bnd_def push_body_apply)
  have "\<exists>res. executeSelect ?q' ?s = (Inr (), \<lparr>etable = t, eresult = res\<rparr>) \<and> body res = [rec]"
    using push_columns [of "[0..<?n]"] row unat_index [OF assms(3)]
    by (simp add: executeSelect_def bnd_Inr push_column_def on_result_apply new_query_defs add_rows_def new_Result_def)
  then obtain res where res: "executeSelect ?q' ?s = (Inr (), \<lparr>etable = t, eresult = res\<rparr>)" "body res = [rec]" by blast
  have "operator_execute (show_select [''*''] name (by_number l) None []) d = (Inr (res\<lparr>isSucces := True\<rparr>), set_table i t d)"
    using operator_execute_ok [OF p, of d i t "QSelect ?q'"] assms(1) opt res(1)
    by (simp add: bnd_Inr on_result_apply new_query_defs)
  then show ?thesis using res(2) set_table_same [OF assms(1)] by simp
qed

text \<open>
  (C40) \<^verbatim>\<open>SELECT * ... WHERE id == n\<close> does not look whether line \<open>n\<close> is active: after
  \<^verbatim>\<open>DELETE ... WHERE id == n\<close> it returns the deleted row.
\<close>

theorem deleted_row_is_selected_by_number:
  assumes "wf_db d" and "table_at d name i t" and "word_tok name" and "rows t l = Some r"
  shows "\<exists>r1 r2 t'. operator_execute (show_delete name [''id'', ''=='', to_string l] None) d = (Inr r1, set_table i t' d) \<and>
     rows t' l = None \<and>
     operator_execute (show_select [''*''] name [''id'', ''=='', to_string l] None []) (set_table i t' d) = (Inr r2, set_table i t' d) \<and>
     isSucces r2 \<and> body r2 = [VInt64 (of_nat l) # r]"
proof -
  have t: "wf_table t" "wf_but {} t" using wf_db_table [OF assms(1,2)] by (simp_all add: wf_table_def)
  have l: "l \<in> active (storage t)" "l < max_line (storage t)" using rows_Some(1,2) [OF t(2) assms(4)] .
  have lt: "l < SIZE_MOD" using l(2) max_line_small [OF wf_but_dest(1) [OF t(2)]] by simp
  obtain t' where t': "erase l t = (Inr l, t')" "rows t' = (rows t)(l := None)" "info t' = info t"
    using erase_spec [OF t(1) l(1)] by blast
  have "readRecord t' l [0..<length (columns (info t'))] (columns (info t')) = Inr (VInt64 (of_nat l) # r)"
    using erased_record [OF t(1) assms(4) t'(1)] t'(3) by simp
  then show ?thesis
    using delete_by_number [OF assms(1-3) l(1) t'(1)] t'(2)
      select_by_number [OF table_at_set_table(1) [OF assms(2)] assms(3) lt] by (metis fun_upd_same)
qed

theorem deleted_row_is_selected_by_number_witness:
  "\<exists>t t' l r2. rows t' l = None \<and>
     operator_execute (show_select [''*''] ''people'' [''id'', ''=='', to_string l] None []) (set_table 0 t' (sample_db t)) =
       (Inr r2, set_table 0 t' (sample_db t)) \<and>
     body r2 = [[VInt64 (of_nat l), VString ''Ann'', VInt32 30]]"
proof -
  obtain t i j where t: "wf_table t" "i \<noteq> j" "rows t = [i \<mapsto> [VString ''Ann'', VInt32 30], j \<mapsto> [VString ''Bob'', VInt32 20]]"
    using sample_filled by blast
  have "rows t i = Some [VString ''Ann'', VInt32 30]" using t(2,3) by simp
  then show ?thesis
    using deleted_row_is_selected_by_number [OF conjunct1 [OF wf_sample_db [OF t(1)]] conjunct2 [OF wf_sample_db [OF t(1)]]
        sample_words(2)] by blast
qed

text \<open>
  (C39) An operator on the row number other than the three the optimizer knows is passed over in
  silence: \<^verbatim>\<open>DELETE FROM t WHERE id > n\<close> removes every row of the table.
\<close>

theorem delete_ignores_other_id_operators:
  assumes "wf_db d" and "table_at d name i t" and "word_tok name" and "word_tok oper"
    and "oper \<notin> {''=='', ''>='', ''<='', ''LIMIT''}" and "n < SIZE_MOD"
  shows "\<exists>r t'. operator_execute (show_delete name [''id'', oper, to_string n] None) d = (Inr r, set_table i t' d) \<and>
     isSucces r \<and> wf_table t' \<and> rows t' = Map.empty"
proof -
  let ?ws = "[''id'', oper, to_string n]"
  let ?q = "new_QueryBase\<lparr>tabble_name := name, raw_conditions := ?ws, limit := SIZE_MAX\<rparr>"
  let ?q' = "?q\<lparr>table_ptr := Some i\<rparr>"
  let ?s = "\<lparr>etable = t, eresult = new_Result\<lparr>isSucces := True\<rparr>\<rparr>"
  have t: "wf_table t" using wf_db_table [OF assms(1,2)] .
  have p: "parse (show_delete name ?ws None) = Inr (QDelete ?q)"
    using assms(3-5) number_word [of n] delete_text [of name ?ws None] by (simp add: word_tok_def is_space_def)
  have opt: "query_conditions (info t) ?q' = Inr ?q'"
    using optimize_clauses [of "[OnId oper n]" "info t" "[]"] assms(5,6)
    by (simp add: query_conditions_def new_query_defs)
  have "plain_query ?q' (info t)" by (simp add: plain_query_def new_query_defs)
  then obtain t' where t': "executeDelete ?q' ?s = (Inr (), ?s\<lparr>etable := t',
       eresult := (add_rows (id_rows (affected ?q' t)) (id_header (eresult ?s)))\<lparr>isSucces := True\<rparr>\<rparr>)"
    "wf_table t'" "rows t' = rows t |` (- set (affected ?q' t))"
    using delete_statement [of ?s ?q'] t by (auto simp: new_Result_def)
  have wf: "wf_but {} t" using t by (simp add: wf_table_def)
  have "length (filter (row_passes t []) [0..<freeId t]) \<le> SIZE_MAX"
    using length_filter_le [of "row_passes t []" "[0..<freeId t]"] activePlaces_bound(2) [OF wf] by (simp add: SIZE_MAX_def)
  then have "set (affected ?q' t) = {l. l < freeId t \<and> rows t l \<noteq> None}"
    by (auto simp: affected_def chosen_def new_query_defs row_passes_def passes_def split: option.splits)
  then have "dom (rows t) \<subseteq> set (affected ?q' t)" using rows_Some(3) [OF wf] by auto
  then have "rows t' = Map.empty" using t'(3) by (auto simp: fun_eq_iff restrict_map_def domIff)
  moreover have "operator_execute (show_delete name ?ws None) d = (Inr ((add_rows (id_rows (affected ?q' t))
      (id_header (eresult ?s)))\<lparr>isSucces := True\<rparr>), set_table i t' d)"
    using operator_execute_ok [OF p, of d i t "QDelete ?q'"] assms(2) opt t'(1)
    by (simp add: bnd_Inr on_result_apply new_query_defs)
  ultimately show ?thesis using t'(2) by (intro exI) auto
qed

theorem delete_ignores_other_id_operators_witness:
  "\<exists>t r t'. rows t \<noteq> Map.empty \<and>
     operator_execute (show_delete ''people'' [''id'', ''>'', to_string 5] None) (sample_db t) = (Inr r, set_table 0 t' (sample_db t)) \<and>
     isSucces r \<and> rows t' = Map.empty"
proof -
  obtain t i j where t: "wf_table t" "rows t = [i \<mapsto> [VString ''Ann'', VInt32 30], j \<mapsto> [VString ''Bob'', VInt32 20]]"
    using sample_filled by blast
  have "rows t \<noteq> Map.empty" using t(2) by (auto simp: fun_eq_iff)
  then show ?thesis
    using delete_ignores_other_id_operators [OF conjunct1 [OF wf_sample_db [OF t(1)]] conjunct2 [OF wf_sample_db [OF t(1)]]
        sample_words(2), of "''>''" 5] by (intro exI [of _ t]) (auto simp: word_tok_def is_space_def)
qed

text \<open>
  \<^verbatim>\<open>DELETE ... WHERE id <= n\<close> on a table with a row below \<open>n\<close> calls the table of
  comparison functions past its end: the condition on the row number is evaluated as if it were a
  condition on the first column.
\<close>

theorem delete_up_to_id_is_undefined:
  assumes "wf_table t" and "rows t l = Some r" and "l < unat w" and "unat w \<le> max_line (storage t)" and "0 < limit q"
    and "conditions q = [\<lparr>cond_type = TO_INDEX, collumn_id = 0, desired = VInt64 w\<rparr>]"
  shows "fst (executeDelete q \<lparr>etable = t, eresult = new_Result\<rparr>) = Inl (Undefined ''functions: index out of range'')"
proof -
  let ?c = "\<lparr>cond_type = TO_INDEX, collumn_id = 0, desired = VInt64 w\<rparr>"
  have wf: "wf_but {} t" using assms(1) by (simp add: wf_table_def)
  note d = wf_but_dest [OF wf]
  have cols: "0 < length (columns (info t))" using d(2) by (simp add: wf_info_def)
  have m: "row_matches t [?c] k = (if rows t k = None then Inr False else Inl (Undefined ''functions: index out of range''))"
    if "k < max_line (storage t)" for k
  proof (cases "rows t k")
    case None
    then show ?thesis using isActive_table [OF wf that] dom_rows [OF wf] by (auto simp: row_matches_def)
  next
    case (Some r')
    then show ?thesis
      using isActive_table [OF wf that] rows_Some(1) [OF wf Some] read_column_row [OF wf Some cols] cols
        columns_not_SIZE_MAX [OF wf cols]
      by (simp add: row_matches_def satisfiesConditions_def index_vec_def condition_result_def)
  qed
  have sc: "0 < scan_count t (limit q)"
  proof -
    have "0 < card (active (storage t))" using rows_Some(1) [OF wf assms(2)] by (auto simp: card_gt_0_iff)
    then show ?thesis using d(9) assms(5) by (simp add: scan_count_def getActivePlaces_def)
  qed
  have "fst (scan delete_row [?c] (unat w) (scan_count t (limit q)) k s) = Inl (Undefined ''functions: index out of range'')"
    if "etable s = t" "body (eresult s) = []" "k \<le> l" for k s
    using that
  proof (induction "l - k" arbitrary: k s)
    case 0
    then show ?case using assms m [of k] sc by (subst scan.simps) (auto simp: bnd_def)
  next
    case (Suc n)
    then have k: "k < l" "k < unat w" "k < max_line (storage t)" using assms(3,4) by auto
    have "k \<noteq> int64_last" by (rule line_not_last [OF d(1) k(3)])
    then show ?case
      using Suc k m [of k] sc by (subst scan.simps) (auto simp: bnd_def split: if_splits)
  qed
  from this [of "\<lparr>etable = t, eresult = id_header new_Result\<rparr>" 0] show ?thesis
    by (simp add: executeDelete_def assms(6) bnd_Inr push_id_column bnd_fst_Inl new_Result_def)
qed

theorem delete_up_to_id_is_undefined_witness:
  "\<exists>t w. fst (executeDelete (new_QueryBase\<lparr>conditions := [\<lparr>cond_type = TO_INDEX, collumn_id = 0, desired = VInt64 w\<rparr>]\<rparr>)
       \<lparr>etable = t, eresult = new_Result\<rparr>) = Inl (Undefined ''functions: index out of range'')"
proof -
  obtain t i j where t: "wf_table t" "rows t = [i \<mapsto> [VString ''Ann'', VInt32 30], j \<mapsto> [VString ''Bob'', VInt32 20]]"
    using sample_filled by blast
  have wf: "wf_but {} t" using t(1) by (simp add: wf_table_def)
  obtain r where r: "rows t i = Some r" using t(2) by (cases "i = j") auto
  let ?w = "of_nat (max_line (storage t)) :: 64 word"
  have "unat ?w = max_line (storage t)"
    using unat_index max_line_small [OF wf_but_dest(1) [OF wf]] by blast
  then show ?thesis
    using delete_up_to_id_is_undefined [OF t(1) r, of ?w
        "new_QueryBase\<lparr>conditions := [\<lparr>cond_type = TO_INDEX, collumn_id = 0, desired = VInt64 ?w\<rparr>]\<rparr>"]
      rows_Some(2) [OF wf r] by (intro exI) (auto simp: new_QueryBase_def SIZE_MAX_def)
qed

section \<open>ORDER BY\<close>

definition order_clauses :: "TabbleInfo \<Rightarrow> oderTypeRaw list \<Rightarrow> oderTypeOpt list" where
  "order_clauses ti ord = map (\<lambda>o1. \<lparr>rawId = Suc (the (columns_map ti (rawColumn o1))), isGreaterSort = raw_isGreaterSort o1\<rparr>) ord"

definition orders_by_columns :: "TabbleInfo \<Rightarrow> oderTypeRaw list \<Rightarrow> bool" where
  "orders_by_columns ti ord \<longleftrightarrow> ord \<noteq> [] \<and> (\<forall>o1\<in>set ord. word_tok (rawColumn o1) \<and> \<not> is_id (rawColumn o1) \<and>
     columns_map ti (rawColumn o1) \<noteq> None)"

lemma optimize_order_clauses:
  assumes "wf_but S t" and "orders_by_columns (info t) ord"
  shows "mapE (optimize_order (info t) [''*'']) ord = Inr (order_clauses (info t) ord)"
  unfolding order_clauses_def
proof (rule mapE_Inr)
  fix o1 assume "o1 \<in> set ord"
  then obtain j where j: "columns_map (info t) (rawColumn o1) = Some j" "\<not> is_id (rawColumn o1)"
    using assms(2) by (auto simp: orders_by_columns_def)
  have "j < length (columns (info t))" using columns_map_bound [OF wf_but_dest(2) [OF assms(1)] j(1)] by simp
  then have "j < offset (columns (info t) ! j)" "offset (columns (info t) ! j) \<le> lineLength (storage t)"
    using column_offset_ge [OF wf_but_dest(2) [OF assms(1)]] wf_info_column [OF wf_but_dest(2) [OF assms(1)], of "columns (info t) ! j"]
      wf_but_dest(3) [OF assms(1)] by auto
  moreover have "lineLength (storage t) < SIZE_MOD" using wf_map_size [OF wf_but_dest(1) [OF assms(1)]] by simp
  ultimately have "size_add j (Suc 0) = Suc j" by (simp add: size_add_small)
  then show "optimize_order (info t) [''*''] o1 =
      Inr \<lparr>rawId = Suc (the (columns_map (info t) (rawColumn o1))), isGreaterSort = raw_isGreaterSort o1\<rparr>"
    using j by (simp add: optimize_order_def at_map_def)
qed

text \<open>No column holds a NaN, on which the comparison of rows is no order.\<close>

definition no_nan :: "table \<Rightarrow> bool" where
  "no_nan t \<longleftrightarrow> (\<forall>r\<in>ran (rows t). \<forall>v\<in>set r. comparable v)"

lemma rows_sortable:
  assumes "wf_but S t" and "orders_by_columns (info t) ord" and "no_nan t" and "rows t l = Some r"
  shows "sortable (order_clauses (info t) ord) (VInt64 (of_nat l) # r)"
proof -
  have len: "length r = length (columns (info t))" using rows_Some(4) [OF assms(1,4)] .
  have r: "comparable (r ! j)" if "j < length r" for j
    using assms(3,4) that by (auto simp: no_nan_def ran_def)
  show ?thesis
    using assms(2) columns_map_bound [OF wf_but_dest(2) [OF assms(1)]] len r
    by (fastforce simp: sortable_def order_clauses_def orders_by_columns_def)
qed

text \<open>
  (C18) \<^verbatim>\<open>SELECT * FROM t ORDER BY ...\<close> returns all rows of the table, put in the lexicographic
  order of the clauses by a stable sort: rows that tie on every clause stay in the order of their
  numbers. \<^verbatim>\<open>ASC\<close> is the flag \<^verbatim>\<open>isGreaterSort\<close>, under which the greater value comes
  first (\<open>row_before\<close>): the order is descending.
\<close>

theorem ordered_request_is_stably_sorted:
  assumes "wf_db d" and "table_at d name i t" and "word_tok name" and "orders_by_columns (info t) ord" and "no_nan t"
  shows "\<exists>r. operator_execute (show_select [''*''] name [] None ord) d = (Inr r, d) \<and> isSucces r \<and>
     stably_sorted (row_before (order_clauses (info t) ord))
       (map (\<lambda>l. VInt64 (of_nat l) # the (rows t l)) (filter (\<lambda>l. rows t l \<noteq> None) [0..<freeId t])) (body r)"
proof -
  let ?n = "length (columns (info t))" let ?os = "order_clauses (info t) ord"
  let ?is = "filter (\<lambda>l. rows t l \<noteq> None) [0..<freeId t]"
  let ?q = "new_SelectQuery\<lparr>tabble_name := name, s_columns_raw := [''*''], raw_conditions := [],
      limit := SIZE_MAX, oder_columns_raw := ord\<rparr>"
  let ?q' = "?q\<lparr>table_ptr := Some i, s_columns_optimized := [0..<?n], order_columns_optimized := ?os\<rparr>"
  let ?s = "\<lparr>etable = t, eresult = new_Result\<lparr>isSucces := True\<rparr>\<rparr>"
  have t: "wf_table t" "wf_but {} t" using wf_db_table [OF assms(1,2)] by (simp_all add: wf_table_def)
  have p: "parse (show_select [''*''] name [] None ord) = Inr (QSelect ?q)"
    using assms(3,4) select_text [of "[''*'']" name "[]" None ord]
    by (simp add: word_tok_def is_space_def orders_by_columns_def)
  have opt: "optimize_select (info t) (?q\<lparr>table_ptr := Some i\<rparr>) = Inr ?q'"
    using optimize_order_clauses [OF t(2) assms(4)]
    by (simp add: optimize_select_def query_conditions_def optimizeOrdering_def new_query_defs)
  have rng: "select_range ?q' t 0 (freeId t) []"
    using wf_but_dest(6) [OF t(2)] by (simp add: select_range_def direct_def new_query_defs)
  have "row_passes t [] = (\<lambda>l. rows t l \<noteq> None)"
    by (auto simp: fun_eq_iff row_passes_def passes_def split: option.splits)
  moreover have "length ?is \<le> SIZE_MAX"
    using length_filter_le [of "\<lambda>l. rows t l \<noteq> None" "[0..<freeId t]"] activePlaces_bound(2) [OF t(2)] by (simp add: SIZE_MAX_def)
  ultimately have "chosen t [] SIZE_MAX 0 (freeId t) = ?is" by (simp add: chosen_def)
  then have sel: "selection t [0..<?n] (chosen t [] (limit ?q') 0 (freeId t)) = map (\<lambda>l. VInt64 (of_nat l) # the (rows t l)) ?is"
    using selection_all [OF t(2), of ?is] by simp
  have "\<forall>row\<in>set (map (\<lambda>l. VInt64 (of_nat l) # the (rows t l)) ?is). sortable ?os row"
    using rows_sortable [OF t(2) assms(4,5)] by auto
  moreover have "order_columns_optimized ?q' \<noteq> []" "selects ?q' (info t)"
    using assms(4) by (simp_all add: selects_def order_clauses_def orders_by_columns_def)
  ultimately obtain rws where r: "executeSelect ?q' ?s =
       (Inr (), ?s\<lparr>eresult := (select_header (info t) [0..<?n] (eresult ?s))\<lparr>body := rws\<rparr>\<rparr>)"
    "stably_sorted (row_before ?os) (map (\<lambda>l. VInt64 (of_nat l) # the (rows t l)) ?is) rws"
    using select_ordered [of ?s ?q' 0 "freeId t" "[]"] t(1) rng sel by (auto simp: new_Result_def)
  then have "operator_execute (show_select [''*''] name [] None ord) d =
      (Inr ((select_header (info t) [0..<?n] (eresult ?s))\<lparr>body := rws, isSucces := True\<rparr>), set_table i t d)"
    using operator_execute_ok [OF p, of d i t "QSelect ?q'"] assms(2) opt
    by (simp add: bnd_Inr on_result_apply new_query_defs)
  then show ?thesis using r(2) set_table_same [OF assms(2)] by (intro exI) auto
qed

theorem ordered_request_is_stably_sorted_witness:
  "\<exists>t r. rows t \<noteq> Map.empty \<and> operator_execute (show_select [''*''] ''people'' [] None
       [\<lparr>rawColumn = ''age'', raw_isGreaterSort = True\<rparr>]) (sample_db t) = (Inr r, sample_db t) \<and>
     stably_sorted (row_before [\<lparr>rawId = 2, isGreaterSort = True\<rparr>])
       (map (\<lambda>l. VInt64 (of_nat l) # the (rows t l)) (filter (\<lambda>l. rows t l \<noteq> None) [0..<freeId t])) (body r)"
proof -
  obtain t i j where t: "wf_table t" "info t = sample_info"
    "rows t = [i \<mapsto> [VString ''Ann'', VInt32 30], j \<mapsto> [VString ''Bob'', VInt32 20]]"
    using sample_filled by blast
  let ?ord = "[\<lparr>rawColumn = ''age'', raw_isGreaterSort = True\<rparr>]"
  have "rows t \<noteq> Map.empty" using t(3) by (auto simp: fun_eq_iff)
  moreover have "orders_by_columns sample_info ?ord"
    by (simp add: orders_by_columns_def sample_columns_map word_tok_def is_space_def is_id_def)
  moreover have "no_nan t" using t(3) by (auto simp: no_nan_def ran_def split: if_splits)
  moreover have "order_clauses sample_info ?ord = [\<lparr>rawId = 2, isGreaterSort = True\<rparr>]"
    by (simp add: order_clauses_def sample_columns_map)
  ultimately show ?thesis
    using ordered_request_is_stably_sorted [OF conjunct1 [OF wf_sample_db [OF t(1)]] conjunct2 [OF wf_sample_db [OF t(1)]]
        sample_words(2), of ?ord] t(2) by (intro exI [of _ t]) auto
qed

end
