(* ===== verification/File_Copy.thy ===== *)
theory File_Copy
  imports Files "HOL-Library.Sublist"
begin

text \<open>
  The operations of \<^verbatim>\<open>std::filesystem\<close> that \<^verbatim>\<open>src/src/system/system.h\<close> uses on
  whole directories: the recursive iterator, the copying of files, the creation of missing directories
  and the removal of a directory with its contents; and the loop that copies one directory into
  another, which backing up and restoring a database share. The main fact is \<open>copy_tree_spec\<close>:
  the loop makes an exact copy.
\<close>

section \<open>Operations\<close>

text \<open>\<^verbatim>\<open>fs::remove_all\<close>; the root of the tree is emptied and stays.\<close>

fun remove_node :: "node \<Rightarrow> path \<Rightarrow> node" where
  "remove_node n [] = DirN []"
| "remove_node (FileN bs) (x # xs) = FileN bs"
| "remove_node (DirN es) (x # xs) =
     (if xs = [] then DirN (filter (\<lambda>e. fst e \<noteq> x) es)
      else case map_of es x of None \<Rightarrow> DirN es | Some m \<Rightarrow> DirN (put_entry x (remove_node m xs) es))"

definition remove_all :: "path \<Rightarrow> (volume, unit) act" where
  "remove_all p = modify (\<lambda>v. v\<lparr>root := remove_node (root v) p\<rparr>)"

text \<open>\<^verbatim>\<open>fs::create_directories\<close>: every missing directory on the way, from the outermost.\<close>

definition create_directories :: "path \<Rightarrow> (volume, unit) act" where
  "create_directories p =
     seq_all (map (\<lambda>k. bnd (create_directory (take k p)) (\<lambda>_. ret ())) [1..<Suc (length p)])"

text \<open>\<^verbatim>\<open>fs::copy_file\<close> with \<^verbatim>\<open>overwrite_existing\<close>.\<close>

definition copy_file :: "path \<Rightarrow> path \<Rightarrow> (volume, unit) act" where
  "copy_file p q v =
     (case find_node (root v) p of
        Some (FileN bs) \<Rightarrow>
          if parent_ok v q \<and> \<not> is_dir (find_node (root v) q)
          then (Inr (), v\<lparr>root := put_node (root v) q (FileN bs)\<rparr>)
          else (Inl (FilesystemError (''cannot copy file: '' @ path_str v q)), v)
      | _ \<Rightarrow> (Inl (FilesystemError (''cannot copy file: '' @ path_str v p)), v))"

text \<open>
  \<^verbatim>\<open>fs::recursive_directory_iterator\<close>: the entries below a directory, each directory before
  its contents, with their paths relative to the start.
\<close>

abbreviation entries_size :: "(string \<times> node) list \<Rightarrow> nat" where
  "entries_size es \<equiv> size_list (size_prod (\<lambda>_. 0) size) es"

function walk :: "path \<Rightarrow> (string \<times> node) list \<Rightarrow> (path \<times> node) list" where
  "walk p [] = []"
| "walk p ((x, FileN bs) # es) = (p @ [x], FileN bs) # walk p es"
| "walk p ((x, DirN ds) # es) = (p @ [x], DirN ds) # walk (p @ [x]) ds @ walk p es"
  by pat_completeness auto
termination
  by (relation "measure (\<lambda>(p, es). entries_size es)") auto

text \<open>
  The loop of \<^verbatim>\<open>backUpDatabase\<close> and \<^verbatim>\<open>restoreDatabase\<close>. What an iterator delivers is
  unspecified when the directory it runs over is changed meanwhile, as it is when the target lies
  inside the source.
\<close>

fun copy_entries :: "path \<Rightarrow> path \<Rightarrow> (path \<times> node) list \<Rightarrow> (volume, unit) act" where
  "copy_entries src dst [] = ret ()"
| "copy_entries src dst ((rel, n) # es) =
     bnd (if is_dir (Some n) then create_directories (dst @ rel) else copy_file (src @ rel) (dst @ rel))
       (\<lambda>_. copy_entries src dst es)"

definition copy_tree :: "path \<Rightarrow> path \<Rightarrow> (volume, unit) act" where
  "copy_tree src dst v =
     (case find_node (root v) src of
        Some (DirN es) \<Rightarrow>
          if prefix src dst then (Inl (Undefined ''a directory is changed while it is iterated''), v)
          else copy_entries src dst (walk [] es) v
      | _ \<Rightarrow> (Inl (FilesystemError (''recursive directory iterator cannot open directory: '' @ path_str v src)), v))"

section \<open>Trees\<close>

text \<open>No directory has two entries of one name.\<close>

fun wf_node :: "node \<Rightarrow> bool" where
  "wf_node (FileN bs) = True"
| "wf_node (DirN es) = (distinct (map fst es) \<and> (\<forall>(x, n)\<in>set es. wf_node n))"

lemma put_entry_new: "x \<notin> fst ` set es \<Longrightarrow> put_entry x n es = es @ [(x, n)]"
  by (induction x n es rule: put_entry.induct) auto

lemma put_entry_keys: "x \<in> fst ` set es \<Longrightarrow> map fst (put_entry x n es) = map fst es"
  by (induction x n es rule: put_entry.induct) auto

lemma put_entry_twice: "put_entry x a (put_entry x b es) = put_entry x a es"
  by (induction x b es rule: put_entry.induct) auto

lemma put_entry_same: "map_of es x = Some n \<Longrightarrow> put_entry x n es = es"
  by (induction x n es rule: put_entry.induct) (auto split: if_splits)

lemma set_put_entry: "set (put_entry x n es) \<subseteq> insert (x, n) (set es)"
  by (induction x n es rule: put_entry.induct) auto

lemma fst_put_entry: "fst ` set (put_entry x n es) = insert x (fst ` set es)"
  by (induction x n es rule: put_entry.induct) auto

lemma distinct_put_entry: "distinct (map fst es) \<Longrightarrow> distinct (map fst (put_entry x n es))"
proof (induction x n es rule: put_entry.induct)
  case (2 x n y m es)
  then show ?case using fst_put_entry [of x n es] by auto
qed simp

lemma find_node_append: "find_node n (p @ q) = (case find_node n p of None \<Rightarrow> None | Some m \<Rightarrow> find_node m q)"
  by (induction n p rule: find_node.induct) (auto split: option.splits)

lemma is_dir_iff: "is_dir n \<longleftrightarrow> (\<exists>es. n = Some (DirN es))"
  by (cases n rule: is_dir.cases) auto

lemma entries_wf: "wf_node (DirN es) \<Longrightarrow> map_of es x = Some n \<Longrightarrow> wf_node n"
  by (auto dest!: map_of_SomeD)

lemma wf_find: "wf_node n \<Longrightarrow> find_node n p = Some m \<Longrightarrow> wf_node m"
proof (induction n p rule: find_node.induct)
  case (2 n x xs)
  then show ?case by (cases n) (auto split: option.splits dest: entries_wf)
qed simp

lemma wf_put: "wf_node n \<Longrightarrow> wf_node m \<Longrightarrow> wf_node (put_node n p m)"
proof (induction n p m rule: put_node.induct)
  case (3 es x xs new)
  have "wf_node (DirN (put_entry x k es))" if "wf_node k" for k
    using "3.prems" that set_put_entry [of x k es] by (auto simp: distinct_put_entry)
  then show ?case using 3 by (auto split: option.splits dest: entries_wf simp del: wf_node.simps)
qed simp_all

lemma find_put_below:
  assumes "p \<noteq> []" and "is_dir (find_node n (butlast p))"
  shows "find_node (put_node n p m) (p @ q) = find_node m q"
  using find_put_same [OF assms] by (simp add: find_node_append)

lemma find_prefix_dir: "find_node n (p @ x # q) \<noteq> None \<Longrightarrow> is_dir (find_node n p)"
proof -
  assume "find_node n (p @ x # q) \<noteq> None"
  then obtain m where "find_node n p = Some m" "map_of (entries m) x \<noteq> None"
    by (auto simp: find_node_append split: option.splits)
  then show ?thesis by (cases m) auto
qed

lemma parent_dir: "find_node n p \<noteq> None \<Longrightarrow> p \<noteq> [] \<Longrightarrow> is_dir (find_node n (butlast p))"
  using find_prefix_dir [of n "butlast p" "last p" "[]"] by simp

lemma put_node_snoc:
  "find_node n p = Some (DirN es) \<Longrightarrow> put_node n (p @ [x]) m = put_node n p (DirN (put_entry x m es))"
proof (induction n p arbitrary: es rule: find_node.induct)
  case (1 n)
  then show ?case by (auto split: option.splits)
next
  case (2 n y ys)
  then show ?case by (cases n) (auto split: option.splits)
qed

lemma put_node_twice: "find_node n p \<noteq> None \<Longrightarrow> put_node (put_node n p a) p b = put_node n p b"
proof (induction n p a rule: put_node.induct)
  case (3 es x xs new)
  then show ?case by (auto split: option.splits simp: map_of_put_entry put_entry_twice)
qed simp_all

lemma put_node_same: "find_node n p = Some m \<Longrightarrow> put_node n p m = n"
proof (induction n p arbitrary: m rule: find_node.induct)
  case (2 n x xs)
  then show ?case by (cases n) (auto split: option.splits simp: put_entry_same)
qed simp

lemma apart_append: "apart_paths p q \<Longrightarrow> apart_paths (p @ r) (q @ s)"
  by (auto simp: apart_paths_def nth_append)

lemma apart_sym: "apart_paths p q \<longleftrightarrow> apart_paths q p"
  by (auto simp: apart_paths_def)

lemma apart_not_prefix: "apart_paths p q \<Longrightarrow> \<not> prefix p q"
  by (auto simp: apart_paths_def prefix_def nth_append)

lemma apart_same_start:
  assumes "apart_paths q r"
  shows "apart_paths (p @ q) (p @ r)"
proof -
  obtain i where "i < min (length q) (length r)" "q ! i \<noteq> r ! i" using assms by (auto simp: apart_paths_def)
  then show ?thesis unfolding apart_paths_def by (intro exI [of _ "length p + i"]) auto
qed

lemma apart_Cons: "x \<noteq> y \<Longrightarrow> apart_paths (x # p) (y # q)"
  by (auto simp: apart_paths_def)

section \<open>The copy is exact\<close>

lemma seq_all_idle: "(\<And>m. m \<in> set ms \<Longrightarrow> m s = (Inr (), s)) \<Longrightarrow> seq_all ms s = (Inr (), s)"
proof (induction ms)
  case (Cons m ms)
  have "m s = (Inr (), s)" by (rule Cons.prems) simp
  moreover have "seq_all ms s = (Inr (), s)" by (rule Cons.IH) (simp add: Cons.prems)
  ultimately show ?case by (simp add: bnd_Inr)
qed simp

lemma seq_all_append: "seq_all (xs @ ys) = bnd (seq_all xs) (\<lambda>_. seq_all ys)"
  by (induction xs) (auto simp: bnd_def fun_eq_iff split: prod.splits sum.splits)

lemma create_directories_last:
  assumes "is_dir (find_node (root v) p)" and "find_node (root v) (p @ [x]) = None"
  shows "create_directories (p @ [x]) v = (Inr (), v\<lparr>root := put_node (root v) (p @ [x]) (DirN [])\<rparr>)"
proof -
  let ?mk = "\<lambda>k. bnd (create_directory (take k (p @ [x]))) (\<lambda>_. ret ())"
  have dirs: "is_dir (find_node (root v) (take k p))" if "k \<le> length p" for k
  proof (cases "drop k p")
    case Nil
    then show ?thesis using assms(1) that by simp
  next
    case (Cons y ys)
    then have "p = take k p @ y # ys" by (metis append_take_drop_id)
    then show ?thesis using find_prefix_dir [of "root v" "take k p" y ys] assms(1) by (auto simp: is_dir_iff)
  qed
  have "?mk k v = (Inr (), v)" if "k \<le> length p" for k
    using dirs [OF that] that by (simp add: bnd_def create_directory_def)
  then have idle: "seq_all (map ?mk [1..<Suc (length p)]) v = (Inr (), v)"
    by (intro seq_all_idle) (auto simp del: take_append)
  have "[1..<Suc (length (p @ [x]))] = [1..<Suc (length p)] @ [Suc (length p)]" by simp
  then have "create_directories (p @ [x]) v = seq_all (map ?mk [Suc (length p)]) v"
    unfolding create_directories_def by (simp only: map_append seq_all_append bnd_Inr [of "seq_all _", OF idle])
  then show ?thesis using assms by (simp add: bnd_def create_directory_def parent_ok_def)
qed

lemma copy_entries_append:
  "copy_entries src dst (xs @ ys) = bnd (copy_entries src dst xs) (\<lambda>_. copy_entries src dst ys)"
  by (induction xs) (auto simp: bnd_def fun_eq_iff split: prod.splits sum.splits)

lemma put_entry_last: "x \<notin> fst ` set ys \<Longrightarrow> put_entry x n (ys @ [(x, m)]) = ys @ [(x, n)]"
  by (induction ys) auto

text \<open>An entry that is added to a directory, or replaced as the last one.\<close>

lemma put_child:
  assumes "find_node r q = Some (DirN ys)" and "q \<noteq> []" and "x \<notin> fst ` set ys"
  shows "put_node r (q @ [x]) n = put_node r q (DirN (ys @ [(x, n)]))"
    and "put_node (put_node r q (DirN (ys @ [(x, m)]))) (q @ [x]) n = put_node r q (DirN (ys @ [(x, n)]))"
    and "find_node (put_node r q k) (q @ z) = find_node k z"
proof -
  show find: "find_node (put_node r q k) (q @ z) = find_node k z" for k z
    using assms(1,2) by (intro find_put_below) (simp_all add: parent_dir)
  show "put_node r (q @ [x]) n = put_node r q (DirN (ys @ [(x, n)]))"
    using put_node_snoc [OF assms(1)] put_entry_new [OF assms(3)] by simp
  show "put_node (put_node r q (DirN (ys @ [(x, m)]))) (q @ [x]) n = put_node r q (DirN (ys @ [(x, n)]))"
    using put_node_snoc [OF find [of "DirN (ys @ [(x, m)])" "[]", simplified]] assms
    by (simp add: put_entry_last put_node_twice)
qed

lemma find_in_entries:
  assumes "find_node r q = Some (DirN (ys @ (x, n) # es))" and "x \<notin> fst ` set ys"
  shows "find_node r (q @ [x]) = Some n"
proof -
  have "map_of ys x = None" using assms(2) by (simp add: map_of_eq_None_iff)
  then show ?thesis using assms(1) by (simp add: find_node_append map_add_def)
qed

lemma find_no_entry: "find_node r q = Some (DirN ys) \<Longrightarrow> x \<notin> fst ` set ys \<Longrightarrow> find_node r (q @ [x]) = None"
  by (simp add: find_node_append map_of_eq_None_iff [THEN iffD2])

text \<open>
  One level of the copy: the entries \<open>ys\<close> of a directory are copied already, \<open>es\<close> are to come.
\<close>

lemma copy_walk:
  assumes "apart_paths dst src" and "wf_node (DirN (ys @ es))"
    and "find_node (root v) (src @ p) = Some (DirN (ys @ es))" and "find_node (root v) (dst @ p) = Some (DirN ys)"
  shows "copy_entries src dst (walk p es) v = (Inr (), v\<lparr>root := put_node (root v) (dst @ p) (DirN (ys @ es))\<rparr>)"
  using assms(2-4)
proof (induction p es arbitrary: v ys rule: walk.induct)
  case (1 p)
  then show ?case by (simp add: put_node_same)
next
  case (2 p x bs es)
  let ?v = "v\<lparr>root := put_node (root v) (dst @ p) (DirN (ys @ [(x, FileN bs)]))\<rparr>"
  have d: "dst @ p \<noteq> []" using assms(1) by (auto simp: apart_paths_def)
  have x: "x \<notin> fst ` set ys" using "2.prems"(1) by auto
  note ch = put_child [OF "2.prems"(3) d x]
  have "copy_file (src @ p @ [x]) (dst @ p @ [x]) v = (Inr (), ?v)"
    using "2.prems"(3) find_in_entries [OF "2.prems"(2) x] find_no_entry [OF "2.prems"(3) x] ch(1)
    by (simp add: copy_file_def parent_ok_def butlast_append)
  moreover have "find_node (root ?v) (src @ p) = Some (DirN ((ys @ [(x, FileN bs)]) @ es))"
    using "2.prems"(2) find_put_apart [OF apart_append [OF assms(1)]] by simp
  ultimately show ?case
    using "2.IH" [of "ys @ [(x, FileN bs)]" ?v] "2.prems"(1,3) ch(3) [of _ "[]"] by (simp add: bnd_def put_node_twice)
next
  case (3 p x ds es)
  let ?v = "\<lambda>k. v\<lparr>root := put_node (root v) (dst @ p) (DirN (ys @ [(x, DirN k)]))\<rparr>"
  have d: "dst @ p \<noteq> []" using assms(1) by (auto simp: apart_paths_def)
  have x: "x \<notin> fst ` set ys" using "3.prems"(1) by auto
  note ch = put_child [OF "3.prems"(3) d x]
  have src: "find_node (root (?v k)) (src @ p @ q) = find_node (root v) (src @ p @ q)" for k q
    using find_put_apart [OF apart_append [OF assms(1), of p "p @ q"]] by simp
  have dst: "find_node (root (?v k)) (dst @ p @ [x]) = Some (DirN k)" for k
    using ch(3) [of "DirN (ys @ [(x, DirN k)])" "[x]"]
      find_in_entries [of "DirN (ys @ [(x, DirN k)])" "[]" ys x "DirN k" "[]"] x by simp
  have "create_directories (dst @ p @ [x]) v = (Inr (), ?v [])"
    using create_directories_last [of v "dst @ p" x] "3.prems"(3) find_no_entry [OF "3.prems"(3) x] ch(1) by simp
  moreover have "copy_entries src dst (walk (p @ [x]) ds) (?v []) = (Inr (), ?v ds)"
    using "3.IH"(1) [of "[]" "?v []"] "3.prems"(1) find_in_entries [OF "3.prems"(2) x] src [of _ "[x]"] dst ch(2) by simp
  moreover have "copy_entries src dst (walk p es) (?v ds) =
      (Inr (), v\<lparr>root := put_node (root v) (dst @ p) (DirN (ys @ (x, DirN ds) # es))\<rparr>)"
    using "3.IH"(2) [of "ys @ [(x, DirN ds)]" "?v ds"] "3.prems" src [of _ "[]"] ch(3) [of _ "[]"]
    by (simp add: put_node_twice)
  ultimately show ?case by (simp add: bnd_def copy_entries_append)
qed

lemma copy_tree_spec:
  assumes "wf_node (root v)" and "find_node (root v) src = Some (DirN es)"
    and "find_node (root v) dst = Some (DirN [])" and "apart_paths dst src"
  shows "copy_tree src dst v = (Inr (), v\<lparr>root := put_node (root v) dst (DirN es)\<rparr>)"
  using copy_walk [OF assms(4), of "[]" es v "[]"] assms wf_find [OF assms(1,2)] apart_not_prefix [of src dst]
  by (simp add: copy_tree_def apart_sym)

section \<open>Removal\<close>

lemma map_of_filter_fst: "map_of (filter (\<lambda>e. fst e \<noteq> x) es) = (map_of es)(x := None)"
  by (induction es) auto

lemma find_remove_same: "p \<noteq> [] \<Longrightarrow> find_node (remove_node n p) p = None"
proof (induction n p rule: remove_node.induct)
  case (3 es x xs)
  then show ?case by (auto simp: map_of_filter_fst map_of_put_entry split: option.splits)
qed simp_all

lemma find_remove_apart: "apart_paths p q \<Longrightarrow> find_node (remove_node n p) q = find_node n q"
proof (induction n p arbitrary: q rule: remove_node.induct)
  case (3 es x xs)
  then obtain y ys where q: "q = y # ys" by (cases q) (auto simp: apart_paths_def)
  show ?case
  proof (cases "y = x")
    case True
    then have "apart_paths xs ys"
      using "3.prems" unfolding q apart_paths_def by (auto simp: nth_Cons less_Suc_eq_0_disj split: nat.splits)
    moreover have "xs \<noteq> []" using \<open>apart_paths xs ys\<close> by (auto simp: apart_paths_def)
    ultimately show ?thesis using "3.IH" True by (auto simp: q map_of_put_entry split: option.splits)
  next
    case False
    then show ?thesis by (auto simp: q map_of_put_entry map_of_filter_fst split: option.splits)
  qed
qed (auto simp: apart_paths_def)

lemma wf_remove: "wf_node n \<Longrightarrow> wf_node (remove_node n p)"
proof (induction n p rule: remove_node.induct)
  case (3 es x xs)
  have "wf_node (DirN (put_entry x k es))" if "wf_node k" for k
    using "3.prems" that set_put_entry [of x k es] by (auto simp: distinct_put_entry)
  moreover have "wf_node (DirN (filter (\<lambda>e. fst e \<noteq> x) es))"
    using "3.prems" by (auto simp: distinct_map inj_on_def)
  ultimately show ?case using 3 by (auto split: option.splits dest: entries_wf simp del: wf_node.simps)
qed simp_all

lemma find_remove_dir:
  "is_dir (find_node n p) \<Longrightarrow> is_dir (find_node (remove_node n (p @ x # q)) p)"
proof (induction n p rule: find_node.induct)
  case (1 n)
  then show ?case by (cases n) (auto split: option.splits)
next
  case (2 n y ys)
  then show ?case by (cases n) (auto simp: map_of_put_entry split: option.splits)
qed

section \<open>The copy\<close>

text \<open>
  (C28) The loop that backing up and restoring share makes an exact copy: every path below the target holds
  what the path below the source holds, and nothing outside the target changes.
\<close>

theorem copy_is_exact:
  assumes "wf_node (root v)" and "is_dir (find_node (root v) src)"
    and "find_node (root v) dst = Some (DirN [])" and "apart_paths dst src"
  shows "\<exists>v'. copy_tree src dst v = (Inr (), v') \<and>
     (\<forall>q. find_node (root v') (dst @ q) = find_node (root v) (src @ q)) \<and>
     (\<forall>q. apart_paths dst q \<longrightarrow> find_node (root v') q = find_node (root v) q)"
proof -
  obtain es where es: "find_node (root v) src = Some (DirN es)" using assms(2) by (auto simp: is_dir_iff)
  have ne: "dst \<noteq> []" using assms(4) by (auto simp: apart_paths_def)
  have "is_dir (find_node (root v) (butlast dst))" using assms(3) ne by (intro parent_dir) simp_all
  then have "find_node (put_node (root v) dst (DirN es)) (dst @ q) = find_node (root v) (src @ q)" for q
    using es by (simp add: find_put_below [OF ne] find_node_append [of _ src])
  then show ?thesis using copy_tree_spec [OF assms(1) es assms(3,4)] find_put_apart by auto
qed

theorem copy_is_exact_witness:
  "\<exists>v v'. copy_tree [''a''] [''b''] v = (Inr (), v') \<and> find_node (root v') [''b'', ''x'', ''f''] = Some (FileN ''hello'')"
proof -
  let ?es = "[(''x'', DirN [(''f'', FileN ''hello'')]), (''g'', FileN [])]"
  let ?v = "\<lparr>vol_base = [], root = DirN [(''a'', DirN ?es), (''b'', DirN [])], vol_max_file = 0, vol_max_map = 0\<rparr>"
  have "apart_paths [''b''] [''a'']" by (simp add: apart_paths_def)
  then obtain v' where v': "copy_tree [''a''] [''b''] ?v = (Inr (), v')"
    "\<forall>q. find_node (root v') ([''b''] @ q) = find_node (root ?v) ([''a''] @ q)"
    using copy_is_exact [of ?v "[''a'']" "[''b'']"] by auto
  then show ?thesis using v'(2) [rule_format, of "[''x'', ''f'']"] by (intro exI [of _ ?v] exI [of _ v']) simp
qed

end
