(* ===== verification/System.thy ===== *)
theory System
  imports File_Copy Requests
begin

text \<open>
  \<^verbatim>\<open>src/src/system/system.h\<close>: the databases under the data directory. The state has the
  directory tree, the vector of databases (a database that was dropped leaves a null pointer behind)
  and the map from names to places in the vector. The shared mutex only orders threads; what the
  functions print on the console is left out.

  The tables map their storage files with \<^verbatim>\<open>MAP_SHARED\<close>, so the bytes of a file are those of the
  mapping at any time. The model keeps them in the open table; \<open>flush\<close> writes them into the tree,
  and the two operations that read files of open databases (\<^verbatim>\<open>backUpDatabase\<close> and
  \<^verbatim>\<open>restoreDatabase\<close>) start with it.
\<close>

section \<open>State\<close>

definition backUpName :: string where
  "backUpName = ''backup''"

record System =
  abosolutePath :: path
  sys_vol :: volume
  bases :: "DataBase option list"
  name_base :: "string \<rightharpoonup> nat"

definition on_disk :: "(volume, 'a) act \<Rightarrow> (System, 'a) act" where
  "on_disk = zoom sys_vol (\<lambda>v s. s\<lparr>sys_vol := v\<rparr>)"

text \<open>
  \<^verbatim>\<open>path / name\<close> on POSIX, for a name without slashes: the empty name and the dot stand for the
  directory itself, two dots for the one above it.
\<close>

definition child :: "path \<Rightarrow> string \<Rightarrow> exn + path" where
  "child p name =
     (if CHR ''/'' \<in> set name then Inl (OutsideTree name)
      else if name = [] \<or> name = ''.'' then Inr p
      else if name = ''..'' then Inr (butlast p)
      else Inr (p @ [name]))"

definition flush_table :: "DataBase \<Rightarrow> string \<times> nat \<Rightarrow> volume \<Rightarrow> volume" where
  "flush_table d ni v =
     (if snd ni < length (tabbles d)
      then snd (write_file (storage_path d (fst ni)) (file_bytes (storage (tabbles d ! snd ni))) v) else v)"

definition flush_base :: "DataBase option \<Rightarrow> volume \<Rightarrow> volume" where
  "flush_base b v = (case b of None \<Rightarrow> v | Some d \<Rightarrow> fold (flush_table d) (tabbles_name d) v)"

definition flush :: "(System, unit) act" where
  "flush = modify (\<lambda>s. s\<lparr>sys_vol := fold flush_base (bases s) (sys_vol s)\<rparr>)"

section \<open>Looking up databases\<close>

definition at_bases :: "System \<Rightarrow> nat \<Rightarrow> exn + DataBase" where
  "at_bases s ind =
     (if ind < length (bases s)
      then case bases s ! ind of None \<Rightarrow> Inl (Undefined ''null database pointer'') | Some d \<Rightarrow> Inr d
      else Inl (StdOutOfRange ''vector::_M_range_check''))"

definition getDataBaseId :: "System \<Rightarrow> string \<Rightarrow> exn + nat" where
  "getDataBaseId s name = at_map (name_base s) name"

definition getDataBase :: "System \<Rightarrow> string \<Rightarrow> exn + DataBase" where
  "getDataBase s name = bindE (at_map (name_base s) name) (at_bases s)"

definition getDataBaseById :: "System \<Rightarrow> nat \<Rightarrow> exn + DataBase" where
  "getDataBaseById s ind = at_bases s ind"

section \<open>Operations\<close>

definition quoted :: "string \<Rightarrow> string" where
  "quoted name = CHR 0x27 # name @ [CHR 0x27]"

definition has_forbidden :: "string \<Rightarrow> bool" where
  "has_forbidden name \<longleftrightarrow> (\<exists>c\<in>set name. c \<in> set forbidden_chars)"

text \<open>
  \<^verbatim>\<open>unordered_map::insert\<close> keeps an entry that is there; the database is pushed in any case.
\<close>

definition push_base :: "string \<Rightarrow> DataBase \<Rightarrow> (System, unit) act" where
  "push_base name d = modify (\<lambda>s. s\<lparr>bases := bases s @ [Some d],
     name_base := (if name_base s name = None then (name_base s)(name \<mapsto> length (bases s)) else name_base s)\<rparr>)"

definition createDataBase :: "string \<Rightarrow> (System, unit) act" where
  "createDataBase name =
     (if name = [] then throw (IncorrectInputException ''Database name cannot be empty'')
      else if has_forbidden name then throw (IncorrectInputException ''Database name contains invalid characters'')
      else
        bnd (reads (\<lambda>s. child (abosolutePath s) name)) (\<lambda>db_path.
        bnd (reads (\<lambda>s. Inr (find_node (root (sys_vol s)) db_path))) (\<lambda>found.
        if found \<noteq> None then throw (IncorrectInputException (''Database '' @ quoted name @ '' already exists''))
        else
          bnd (on_disk (create_directory db_path)) (\<lambda>made.
          if \<not> made then
            (\<lambda>s. (Inl (IncorrectInputException (''Failed to create database directory: '' @ path_str (sys_vol s) db_path)), s))
          else bnd (on_disk (new_DataBase db_path name)) (push_base name)))))"

text \<open>
  The loop of \<^verbatim>\<open>loadFoldersAndOpenBases\<close>: a directory that cannot be opened as a database is
  passed over without a word, and does not take a number.
\<close>

fun open_bases :: "(string \<times> node) list \<Rightarrow> (System, unit) act" where
  "open_bases [] = ret ()"
| "open_bases ((name, n) # es) =
     bnd (if is_dir (Some n)
          then catch_std (bnd (\<lambda>s. on_disk (new_DataBase (abosolutePath s @ [name]) name) s) (push_base name)) (\<lambda>_. ret ())
          else ret ()) (\<lambda>_. open_bases es)"

definition loadFoldersAndOpenBases :: "(System, unit) act" where
  "loadFoldersAndOpenBases s0 =
     (case find_node (root (sys_vol s0)) (abosolutePath s0) of
        Some (DirN es) \<Rightarrow>
          bnd (open_bases es) (\<lambda>_.
          bnd (\<lambda>s. (if find_node (root (sys_vol s)) (abosolutePath s) = Some (DirN [])
                     then createDataBase ''default'' else ret ()) s) (\<lambda>_.
          (\<lambda>s. if \<not> is_dir (map_of es backUpName)
                then bnd (on_disk (create_directory (abosolutePath s @ [backUpName]))) (\<lambda>_. ret ()) s
                else (Inr (), s)))) s0
      | _ \<Rightarrow> (Inl (FilesystemError (''directory iterator cannot open directory: '' @
                 path_str (sys_vol s0) (abosolutePath s0))), s0))"

definition new_System :: "path \<Rightarrow> volume \<Rightarrow> exn + System" where
  "new_System p v =
     (if find_node (root v) p = None then Inl (RuntimeError (''Path does not exist: '' @ path_str v p))
      else if \<not> is_dir (find_node (root v) p) then Inl (RuntimeError (''Path is not a directory: '' @ path_str v p))
      else case loadFoldersAndOpenBases \<lparr>abosolutePath = p, sys_vol = v, bases = [], name_base = Map.empty\<rparr> of
          (Inl e, _) \<Rightarrow> Inl e | (Inr _, s) \<Rightarrow> Inr s)"

text \<open>The database is changed in place, whether \<^verbatim>\<open>createTable\<close> returns or throws.\<close>

definition sys_createTable :: "istr \<Rightarrow> (System, unit) act" where
  "sys_createTable stream s =
     (let (_, buf, stream) = read_str stream [] in
      case at_map (name_base s) buf of
        Inl e \<Rightarrow> (Inl e, s)
      | Inr i \<Rightarrow>
          (case at_bases s i of
             Inl e \<Rightarrow> (Inl e, s)
           | Inr d \<Rightarrow>
               (case createTable stream \<lparr>vol = sys_vol s, base = d\<rparr> of
                  (r, t) \<Rightarrow> (r, s\<lparr>sys_vol := vol t, bases := (bases s)[i := Some (base t)]\<rparr>))))"

text \<open>A handler for \<^verbatim>\<open>fs::filesystem_error\<close> only.\<close>

definition catch_fs :: "('s, 'a) act \<Rightarrow> (string \<Rightarrow> ('s, 'a) act) \<Rightarrow> ('s, 'a) act" where
  "catch_fs m h s = (case m s of (Inl (FilesystemError msg), s') \<Rightarrow> h msg s' | r \<Rightarrow> r)"

definition backUpDatabase :: "string \<Rightarrow> string \<Rightarrow> (System, unit) act" where
  "backUpDatabase dbName backupName =
     bnd flush (\<lambda>_.
     bnd (reads (\<lambda>s. if name_base s dbName = None
            then Inl (IncorrectInputException (''Database '' @ quoted dbName @ '' not found''))
            else if backupName = [] \<or> has_forbidden backupName then Inl (IncorrectInputException ''Invalid backup name'')
            else child (abosolutePath s) dbName)) (\<lambda>source_path.
     bnd (reads (\<lambda>s. child (abosolutePath s @ [backUpName]) backupName)) (\<lambda>backup_path.
     bnd (reads (\<lambda>s. if \<not> is_dir (find_node (root (sys_vol s)) source_path)
            then Inl (IncorrectInputException (''Source database directory not found: '' @ path_str (sys_vol s) source_path))
            else Inr ())) (\<lambda>_.
     bnd (on_disk (create_directory backup_path)) (\<lambda>made.
     if \<not> made then
       (\<lambda>s. (Inl (IncorrectInputException (''Failed to create backup directory: '' @ path_str (sys_vol s) backup_path)), s))
     else
       catch_fs (on_disk (copy_tree source_path backup_path)) (\<lambda>msg.
         bnd (on_disk (remove_all backup_path)) (\<lambda>_.
         throw (IncorrectInputException (''Backup failed: '' @ msg)))))))))"

definition deleteDatabase :: "string \<Rightarrow> (System, nat) act" where
  "deleteDatabase dbName =
     bnd (reads (\<lambda>s. rethrow_as (IncorrectInputException (''Database '' @ quoted dbName @ '' not found''))
            (at_map (name_base s) dbName))) (\<lambda>ind.
     bnd (modify (\<lambda>s. s\<lparr>bases := (bases s)[ind := None], name_base := (name_base s)(dbName := None)\<rparr>)) (\<lambda>_.
     bnd (reads (\<lambda>s. child (abosolutePath s) dbName)) (\<lambda>db_path.
     bnd (reads (\<lambda>s. Inr (is_dir (find_node (root (sys_vol s)) db_path)))) (\<lambda>there.
     bnd (if there then on_disk (remove_all db_path) else ret ()) (\<lambda>_.
     ret ind)))))"

text \<open>
  \<^verbatim>\<open>remove_all\<close> on a path that ends in a dot fails after it has removed the contents; the model
  does not follow it. The result of \<^verbatim>\<open>create_directory\<close> is not looked at.
\<close>

definition restoreDatabase :: "string \<Rightarrow> string \<Rightarrow> (System, unit) act" where
  "restoreDatabase backupName dbName =
     bnd flush (\<lambda>_.
     bnd (reads (\<lambda>s. child (abosolutePath s @ [backUpName]) backupName)) (\<lambda>backup_path.
     bnd (reads (\<lambda>s. if dbName = ''.'' \<or> dbName = ''..'' then Inl (OutsideTree dbName)
                       else child (abosolutePath s) dbName)) (\<lambda>restore_path.
     bnd (reads (\<lambda>s. if \<not> is_dir (find_node (root (sys_vol s)) backup_path)
            then Inl (IncorrectInputException (''Backup '' @ quoted backupName @ '' not found''))
            else Inr (name_base s dbName))) (\<lambda>existed.
     bnd (modify (\<lambda>s. case existed of None \<Rightarrow> s | Some ind \<Rightarrow> s\<lparr>bases := (bases s)[ind := None]\<rparr>)) (\<lambda>_.
     catch_fs
       (bnd (\<lambda>s. on_disk (if find_node (root (sys_vol s)) restore_path \<noteq> None then remove_all restore_path else ret ()) s) (\<lambda>_.
        bnd (on_disk (create_directory restore_path)) (\<lambda>_.
        bnd (on_disk (copy_tree backup_path restore_path)) (\<lambda>_.
        bnd (on_disk (new_DataBase restore_path dbName)) (\<lambda>d.
        case existed of None \<Rightarrow> push_base dbName d
                      | Some ind \<Rightarrow> modify (\<lambda>s. s\<lparr>bases := (bases s)[ind := Some d]\<rparr>))))))
       (\<lambda>msg. bnd (on_disk (remove_all restore_path)) (\<lambda>_.
          throw (IncorrectInputException (''Restore failed: '' @ msg)))))))))"

definition getBases :: "System \<Rightarrow> DataBase option list" where
  "getBases s = bases s"

end
