(* ===== verification/Disk.thy ===== *)
theory Disk
  imports System Table_Open
begin

text \<open>
  Databases and their directories: what the directory of a database holds, opening a database on
  such a directory, and writing the mapped bytes of its tables back into it.
\<close>

section \<open>What a directory holds\<close>

definition dir_names :: "(string \<times> node) list \<Rightarrow> string list" where
  "dir_names es = map fst (filter (\<lambda>e. is_dir (Some (snd e))) es)"

text \<open>
  The directory of a table has the info file of its definition and a storage file with given bytes.
\<close>

definition table_dir :: "(string \<times> node) list \<Rightarrow> string \<Rightarrow> table \<Rightarrow> char list \<Rightarrow> bool" where
  "table_dir es n t bs \<longleftrightarrow> (\<exists>fs ds. map_of es n = Some (DirN fs) \<and> wf_definition ds \<and> info t = info_of ds \<and>
     map_of fs (makeLoaderName n) = Some (FileN (info_text ds)) \<and> map_of fs (makeStorageName n) = Some (FileN bs))"

text \<open>A table whose mapping has the limits of the volume and more than one line.\<close>

definition sound_table :: "volume \<Rightarrow> table \<Rightarrow> bool" where
  "sound_table v t \<longleftrightarrow> wf_table t \<and> lineLength (storage t) < fileSize (storage t) \<and>
     max_file (storage t) = vol_max_file v \<and> max_map (storage t) = vol_max_map v"

definition sound_base :: "volume \<Rightarrow> DataBase \<Rightarrow> bool" where
  "sound_base v d \<longleftrightarrow> distinct (map fst (tabbles_name d)) \<and> map snd (tabbles_name d) = [0..<length (tabbles d)] \<and>
     (\<forall>t\<in>set (tabbles d). sound_table v t)"

text \<open>The directory \<open>p\<close> has the tables of a database, each with the bytes given by \<open>f\<close>.\<close>

definition base_dir :: "volume \<Rightarrow> path \<Rightarrow> DataBase \<Rightarrow> (nat \<Rightarrow> char list) \<Rightarrow> bool" where
  "base_dir v p d f \<longleftrightarrow> (\<exists>es. find_node (root v) p = Some (DirN es) \<and> dir_names es = map fst (tabbles_name d) \<and>
     (\<forall>(n, i)\<in>set (tabbles_name d). table_dir es n (tabbles d ! i) (f i)))"

definition wf_base :: "volume \<Rightarrow> DataBase \<Rightarrow> bool" where
  "wf_base v d \<longleftrightarrow> sound_base v d \<and> (\<exists>f. base_dir v (absoluteWay d) d f)"

definition mapped_bytes :: "DataBase \<Rightarrow> nat \<Rightarrow> char list" where
  "mapped_bytes d i = file_bytes (storage (tabbles d ! i))"

text \<open>A directory that holds the tables of a database as they are now.\<close>

definition holds :: "volume \<Rightarrow> path \<Rightarrow> DataBase \<Rightarrow> bool" where
  "holds v p d \<longleftrightarrow> base_dir v p d (mapped_bytes d)"

text \<open>The same tables, as far as requests can tell.\<close>

definition same_table :: "table \<Rightarrow> table \<Rightarrow> bool" where
  "same_table t t' \<longleftrightarrow> info t' = info t \<and> rows t' = rows t"

definition same_tables :: "DataBase \<Rightarrow> DataBase \<Rightarrow> bool" where
  "same_tables d d' \<longleftrightarrow> tabbles_name d' = tabbles_name d \<and> list_all2 same_table (tabbles d) (tabbles d')"

definition limits :: "volume \<Rightarrow> string \<times> nat \<times> nat" where
  "limits v = (vol_base v, vol_max_file v, vol_max_map v)"

text \<open>A table whose lines are all in use has room for its file to double when it is opened.\<close>

definition openable :: "DataBase \<Rightarrow> bool" where
  "openable d \<longleftrightarrow> (\<forall>t\<in>set (tabbles d). full (storage t) \<longrightarrow> can_grow (storage t))"

lemma limits_put [simp]: "limits (v\<lparr>root := r\<rparr>) = limits v"
  by (simp add: limits_def)

lemma sound_base_cong: "limits v' = limits v \<Longrightarrow> sound_base v' d = sound_base v d"
  by (simp add: sound_base_def sound_table_def limits_def)

lemma base_dir_cong: "find_node (root v') p' = find_node (root v) p \<Longrightarrow> base_dir v' p' d f = base_dir v p d f"
  by (simp add: base_dir_def)

lemma base_dir_bytes:
  "(\<And>n i. (n, i) \<in> set (tabbles_name d) \<Longrightarrow> f i = g i) \<Longrightarrow> base_dir v p d f = base_dir v p d g"
  unfolding base_dir_def by (intro ex_cong1 conj_cong refl ball_cong) auto

lemma wf_base_cong:
  "find_node (root v') (absoluteWay d) = find_node (root v) (absoluteWay d) \<Longrightarrow> limits v' = limits v \<Longrightarrow>
   wf_base v' d = wf_base v d"
  by (simp add: wf_base_def sound_base_cong [of v' v] base_dir_cong [of v' _ v])

lemma sound_base_db: "sound_base v d \<Longrightarrow> wf_db d"
proof -
  assume s: "sound_base v d"
  have "i < length (tabbles d)" if "(n, i) \<in> set (tabbles_name d)" for n i
  proof -
    have "i \<in> set (map snd (tabbles_name d))" using that by force
    then have "i \<in> set [0..<length (tabbles d)]" using s unfolding sound_base_def by metis
    then show ?thesis by simp
  qed
  then show ?thesis using s by (auto simp: wf_db_def sound_base_def sound_table_def)
qed

lemma same_table_at:
  "same_tables d d' \<Longrightarrow> table_at d n i t \<Longrightarrow> \<exists>t'. table_at d' n i t' \<and> info t' = info t \<and> rows t' = rows t"
  by (auto simp: same_tables_def table_at_def same_table_def list_all2_conv_all_nth)

lemma same_tables_images:
  assumes "same_tables d d'" and "sound_base v d" and "base_dir v p d f"
  shows "base_dir v p d' f"
proof -
  have "table_dir es n (tabbles d' ! i) bs" if "table_dir es n (tabbles d ! i) bs" "(n, i) \<in> set (tabbles_name d)" for es n i bs
  proof -
    have "i < length (tabbles d)" using sound_base_db [OF assms(2)] that(2) by (auto simp: wf_db_def)
    then have "info (tabbles d' ! i) = info (tabbles d ! i)"
      using assms(1) by (auto simp: same_tables_def list_all2_conv_all_nth same_table_def)
    then show ?thesis using that(1) by (simp add: table_dir_def)
  qed
  then show ?thesis using assms(1,3) by (fastforce simp: base_dir_def same_tables_def)
qed

section \<open>Opening a database\<close>

lemma openTabble_spec:
  assumes "find_node (root v) (absoluteWay d) = Some (DirN es)" and "sound_table v t"
    and "table_dir es n t (file_bytes (storage t))" and "full (storage t) \<Longrightarrow> can_grow (storage t)"
  shows "\<exists>t'. openTabble n \<lparr>vol = v, base = d\<rparr> = (Inr True, \<lparr>vol = v, base = insertTabble t' n d\<rparr>) \<and>
     sound_table v t' \<and> same_table t t'"
proof -
  obtain fs ds where f: "map_of es n = Some (DirN fs)" "wf_definition ds" "info t = info_of ds"
    "map_of fs (makeLoaderName n) = Some (FileN (info_text ds))"
    "map_of fs (makeStorageName n) = Some (FileN (file_bytes (storage t)))"
    using assms(3) by (auto simp: table_dir_def)
  let ?base = "path_str v (table_path d n)"
  have t: "wf_table t" "lineLength (storage t) < fileSize (storage t)" "max_file (storage t) = vol_max_file v"
    "max_map (storage t) = vol_max_map v" using assms(2) by (auto simp: sound_table_def)
  obtain t' where t': "new_Tabble ?base (Some (info_text ds)) (Some (file_bytes (storage t)))
       (vol_max_file v) (vol_max_map v) = Inr t'" "wf_table t'" "info t' = info t" "rows t' = rows t"
    "storage t' = (if full (storage t) then grown (storage t) else storage t)"
    using table_reopens_storage [OF t(1) f(2,3) t(2) assms(4), of ?base] t(3,4) by auto
  have l: "\<exists>l. new_InfoLoader (Some (info_text ds)) = Inr l"
    using t'(1) by (auto simp: new_Tabble_def bindE_eq_Inr)
  have r: "read_file v (info_path d n) = Some (info_text ds)"
    "open_file (storage_path d n) v = (Inr (Some (file_bytes (storage t))), v)"
    using assms(1) f by (simp_all add: read_file_def open_file_def info_path_def storage_path_def find_node_append)
  have "openTabble n \<lparr>vol = v, base = d\<rparr> = (Inr True, \<lparr>vol = v, base = insertTabble t' n d\<rparr>)"
    using l r t'(1) by (auto simp: openTabble_def bnd_def on_vol_def zoom_def)
  moreover have "sound_table v t'" using t t'(2,5) by (simp add: sound_table_def grown_def)
  ultimately show ?thesis using t'(3,4) by (auto simp: same_table_def)
qed

lemma open_all_spec:
  assumes "find_node (root v) (absoluteWay d) = Some (DirN all)" and "length ts = length (dir_names es)"
    and "\<forall>(n, t)\<in>set (zip (dir_names es) ts). sound_table v t \<and> table_dir all n t (file_bytes (storage t)) \<and>
       (full (storage t) \<longrightarrow> can_grow (storage t))"
    and "distinct (map fst (tabbles_name d) @ dir_names es)"
  shows "\<exists>ts'. open_all es \<lparr>vol = v, base = d\<rparr> = (Inr (), \<lparr>vol = v, base = d\<lparr>tabbles := tabbles d @ ts',
       tabbles_name := tabbles_name d @ zip (dir_names es) [length (tabbles d)..<length (tabbles d) + length ts]\<rparr>\<rparr>) \<and>
     list_all2 same_table ts ts' \<and> (\<forall>t'\<in>set ts'. sound_table v t')"
  using assms
proof (induction es arbitrary: d ts)
  case Nil
  then show ?case by (auto simp: dir_names_def)
next
  case (Cons e es)
  obtain n m where e: "e = (n, m)" by force
  show ?case
  proof (cases "is_dir (Some m)")
    case False
    then have "dir_names (e # es) = dir_names es" by (simp add: e dir_names_def)
    then show ?thesis using Cons False by (simp add: e bnd_def)
  next
    case True
    then have dn: "dir_names (e # es) = n # dir_names es" by (simp add: e dir_names_def)
    then obtain t us where ts: "ts = t # us" using Cons.prems(2) by (cases ts) auto
    obtain t' where t': "openTabble n \<lparr>vol = v, base = d\<rparr> = (Inr True, \<lparr>vol = v, base = insertTabble t' n d\<rparr>)"
      "sound_table v t'" "same_table t t'"
      using openTabble_spec [OF Cons.prems(1), of t n] Cons.prems(3) by (auto simp: ts dn)
    have new: "map_of (tabbles_name d) n = None"
      using Cons.prems(4) by (auto simp: dn map_of_eq_None_iff)
    let ?d = "insertTabble t' n d"
    have d: "absoluteWay ?d = absoluteWay d" "tabbles ?d = tabbles d @ [t']"
      "tabbles_name ?d = tabbles_name d @ [(n, length (tabbles d))]"
      using new by (simp_all add: insertTabble_def)
    obtain ts' where ts': "open_all es \<lparr>vol = v, base = ?d\<rparr> = (Inr (), \<lparr>vol = v, base = ?d\<lparr>tabbles := tabbles ?d @ ts',
       tabbles_name := tabbles_name ?d @ zip (dir_names es) [length (tabbles ?d)..<length (tabbles ?d) + length us]\<rparr>\<rparr>)"
      "list_all2 same_table us ts'" "\<forall>t'\<in>set ts'. sound_table v t'"
    proof -
      have "length us = length (dir_names es)" "distinct (map fst (tabbles_name ?d) @ dir_names es)"
        using Cons.prems(2,4) by (auto simp: ts dn d)
      moreover have "\<forall>(n, t)\<in>set (zip (dir_names es) us). sound_table v t \<and>
          table_dir all n t (file_bytes (storage t)) \<and> (full (storage t) \<longrightarrow> can_grow (storage t))"
        using Cons.prems(3) by (simp add: ts dn)
      moreover have "find_node (root v) (absoluteWay ?d) = Some (DirN all)" using Cons.prems(1) d(1) by simp
      ultimately show ?thesis using Cons.IH [of ?d us] that by blast
    qed
    have "[length (tabbles d)..<length (tabbles d) + length ts] = length (tabbles d) # [length (tabbles ?d)..<length (tabbles ?d) + length us]"
      using upt_conv_Cons [of "length (tabbles d)" "length (tabbles d) + length ts"] by (simp add: d ts del: upt_Suc)
    then have "open_all (e # es) \<lparr>vol = v, base = d\<rparr> = (Inr (), \<lparr>vol = v, base = d\<lparr>tabbles := tabbles d @ t' # ts',
       tabbles_name := tabbles_name d @ zip (dir_names (e # es)) [length (tabbles d)..<length (tabbles d) + length ts]\<rparr>\<rparr>)"
      using ts'(1) t'(1) True new by (simp add: e dn [unfolded e] bnd_def insertTabble_def del: upt_Suc)
    then show ?thesis using ts'(2,3) t'(2,3) by (intro exI [of _ "t' # ts'"]) (simp add: ts)
  qed
qed

lemma zip_index: "map snd xs = [0..<n] \<Longrightarrow> zip (map fst xs) [0..<n] = xs"
  by (metis zip_map_fst_snd)

lemma names_index: "map snd xs = [0..<length ts] \<Longrightarrow> (n, t) \<in> set (zip (map fst xs) ts) \<Longrightarrow> \<exists>i. (n, i) \<in> set xs \<and> t = ts ! i"
proof -
  assume x: "map snd xs = [0..<length ts]" and "(n, t) \<in> set (zip (map fst xs) ts)"
  then obtain k where k: "k < length xs" "k < length ts" "n = fst (xs ! k)" "t = ts ! k" by (auto simp: set_zip)
  have "snd (xs ! k) = k" using k x by (metis add_0 length_map nth_map nth_upt)
  then have "xs ! k = (n, k)" using k by (metis prod.collapse)
  then show ?thesis using k nth_mem by metis
qed

text \<open>A directory that holds a database opens as a database with the same tables.\<close>

lemma new_DataBase_spec:
  assumes "holds v p d" and "sound_base v d" and "openable d"
  shows "\<exists>d'. new_DataBase p name v = (Inr d', v) \<and> same_tables d d' \<and> sound_base v d' \<and> absoluteWay d' = p \<and>
     dataBaseName d' = name"
proof -
  obtain es where es: "find_node (root v) p = Some (DirN es)" "dir_names es = map fst (tabbles_name d)"
    "\<forall>(n, i)\<in>set (tabbles_name d). table_dir es n (tabbles d ! i) (mapped_bytes d i)"
    using assms(1) by (auto simp: holds_def base_dir_def)
  let ?d = "\<lparr>absoluteWay = p, dataBaseName = name, tabbles = [], tabbles_name = []\<rparr>"
  have d: "distinct (map fst (tabbles_name d))" "map snd (tabbles_name d) = [0..<length (tabbles d)]"
    "\<forall>t\<in>set (tabbles d). sound_table v t" using assms(2) by (auto simp: sound_base_def)
  have len: "length (tabbles d) = length (dir_names es)" using d(2) by (metis es(2) length_map length_upt minus_nat.diff_0)
  have "sound_table v t \<and> table_dir es n t (file_bytes (storage t)) \<and> (full (storage t) \<longrightarrow> can_grow (storage t))"
    if nt: "(n, t) \<in> set (zip (dir_names es) (tabbles d))" for n t
  proof -
    obtain i where "(n, i) \<in> set (tabbles_name d)" "t = tabbles d ! i"
      using names_index [OF d(2)] nt unfolding es(2) by blast
    moreover have "t \<in> set (tabbles d)" using nt by (rule set_zip_rightD)
    ultimately show ?thesis using d(3) es(3) assms(3) by (auto simp: openable_def mapped_bytes_def)
  qed
  then obtain ts' where ts': "open_all es \<lparr>vol = v, base = ?d\<rparr> = (Inr (), \<lparr>vol = v, base = ?d\<lparr>tabbles := ts',
       tabbles_name := zip (dir_names es) [0..<length (tabbles d)]\<rparr>\<rparr>)"
    "list_all2 same_table (tabbles d) ts'" "\<forall>t'\<in>set ts'. sound_table v t'"
    using open_all_spec [of v ?d es "tabbles d" es] es d(1) len by auto
  let ?d' = "?d\<lparr>tabbles := ts', tabbles_name := tabbles_name d\<rparr>"
  have "new_DataBase p name v = (Inr ?d', v)"
    using ts'(1) es(1,2) zip_index [OF d(2)] by (simp add: new_DataBase_def loadFoldersAndOpenTabbles_def)
  moreover have "sound_base v ?d'" using d ts'(2,3) by (simp add: sound_base_def list_all2_lengthD)
  ultimately show ?thesis using ts'(2) by (auto simp: same_tables_def)
qed

lemma empty_base:
  "find_node (root v) p = Some (DirN []) \<Longrightarrow>
   new_DataBase p name v = (Inr \<lparr>absoluteWay = p, dataBaseName = name, tabbles = [], tabbles_name = []\<rparr>, v)"
  by (simp add: new_DataBase_def loadFoldersAndOpenTabbles_def)

section \<open>Writing the mapped bytes back\<close>

lemma dir_names_put:
  "map_of es n = Some (DirN fs) \<Longrightarrow> dir_names (put_entry n (DirN gs) es) = dir_names es"
proof (induction es)
  case (Cons e es)
  then show ?case by (cases e) (auto simp: dir_names_def split: if_splits)
qed simp

lemma loader_not_storage: "makeLoaderName n \<noteq> makeStorageName n"
  by (simp add: makeLoaderName_def makeStorageName_def)

text \<open>A change of the tree that only concerns what lies below \<open>p\<close>.\<close>

definition changes_below :: "path \<Rightarrow> volume \<Rightarrow> volume \<Rightarrow> bool" where
  "changes_below p v v' \<longleftrightarrow> limits v' = limits v \<and> (wf_node (root v) \<longrightarrow> wf_node (root v')) \<and>
     (\<forall>q. apart_paths p q \<longrightarrow> find_node (root v') q = find_node (root v) q)"

lemma changes_below_refl: "changes_below p v v"
  by (simp add: changes_below_def)

lemma changes_below_trans: "changes_below p v v' \<Longrightarrow> changes_below p v' v'' \<Longrightarrow> changes_below p v v''"
  by (simp add: changes_below_def)

lemma changes_below_put: "wf_node n \<Longrightarrow> changes_below p v (v\<lparr>root := put_node (root v) p n\<rparr>)"
  by (simp add: changes_below_def find_put_apart wf_put)

lemma changes_below_remove: "changes_below p v (v\<lparr>root := remove_node (root v) p\<rparr>)"
  by (simp add: changes_below_def find_remove_apart wf_remove)

lemma changes_below_up: "changes_below (p @ q) v v' \<Longrightarrow> changes_below p v v'"
  using apart_append [of p _ q "[]"] by (auto simp: changes_below_def)

lemma flush_table_spec:
  assumes "base_dir v (absoluteWay d) d f" and "(n, i) \<in> set (tabbles_name d)" and "sound_base v d"
  shows "base_dir (flush_table d (n, i) v) (absoluteWay d) d (f(i := mapped_bytes d i))"
    and "changes_below (absoluteWay d) v (flush_table d (n, i) v)"
proof -
  let ?way = "absoluteWay d" and ?st = "makeStorageName n"
  obtain es where es: "find_node (root v) ?way = Some (DirN es)" "dir_names es = map fst (tabbles_name d)"
    "\<forall>(n, i)\<in>set (tabbles_name d). table_dir es n (tabbles d ! i) (f i)" using assms(1) by (auto simp: base_dir_def)
  obtain fs ds where fs: "map_of es n = Some (DirN fs)" "map_of fs ?st = Some (FileN (f i))" "wf_definition ds"
    "info (tabbles d ! i) = info_of ds" "map_of fs (makeLoaderName n) = Some (FileN (info_text ds))"
    using es(3) assms(2) by (fastforce simp: table_dir_def)
  have i: "i < length (tabbles d)" using sound_base_db [OF assms(3)] assms(2) by (auto simp: wf_db_def)
  let ?fs = "put_entry ?st (FileN (mapped_bytes d i)) fs"
  let ?es = "put_entry n (DirN ?fs) es"
  let ?v = "v\<lparr>root := put_node (root v) (storage_path d n) (FileN (mapped_bytes d i))\<rparr>"
  have n: "find_node (root v) (?way @ [n]) = Some (DirN fs)" using es(1) fs(1) by (simp add: find_node_append)
  have v: "flush_table d (n, i) v = ?v"
    using n fs(2) i find_node_append [of "root v" "?way @ [n]" "[?st]"]
    by (simp add: flush_table_def write_file_def parent_ok_def storage_path_def butlast_append mapped_bytes_def)
  show below: "changes_below ?way v (flush_table d (n, i) v)"
    unfolding v by (rule changes_below_up [of _ "[n, ?st]"]) (simp add: storage_path_def changes_below_put)
  have "put_node (root v) (storage_path d n) (FileN (mapped_bytes d i)) = put_node (root v) ?way (DirN ?es)"
    using put_node_snoc [OF n] put_node_snoc [OF es(1)] by (simp add: storage_path_def)
  then have way: "find_node (root ?v) ?way = Some (DirN ?es)"
    using es(1) find_put_same [of ?way "root v" "DirN ?es"] parent_dir [of "root v" ?way]
    by (cases "?way = []") simp_all
  have "table_dir ?es m (tabbles d ! j) ((f(i := mapped_bytes d i)) j)" if "(m, j) \<in> set (tabbles_name d)" for m j
  proof (cases "m = n")
    case True
    then have "j = i" using that assms(2,3) by (auto simp: sound_base_def dest: eq_key_imp_eq_value)
    then show ?thesis
      using True fs loader_not_storage [of n] by (auto simp: table_dir_def map_of_put_entry)
  next
    case False
    have "distinct (map snd (tabbles_name d))" using assms(3) by (simp add: sound_base_def)
    then have "j \<noteq> i" using False that assms(2) by (fastforce simp: distinct_map inj_on_def)
    then show ?thesis using False es(3) that by (fastforce simp: table_dir_def map_of_put_entry)
  qed
  then show "base_dir (flush_table d (n, i) v) ?way d (f(i := mapped_bytes d i))"
    using way dir_names_put [OF fs(1)] es(2) unfolding v base_dir_def
    by (intro exI [of _ ?es]) (simp add: split_beta del: fun_upd_apply)
qed

lemma flush_tables_spec:
  assumes "set xs \<subseteq> set (tabbles_name d)" and "sound_base v d" and "base_dir v (absoluteWay d) d f"
  shows "changes_below (absoluteWay d) v (fold (flush_table d) xs v) \<and>
     base_dir (fold (flush_table d) xs v) (absoluteWay d) d
       (\<lambda>i. if i \<in> snd ` set xs then mapped_bytes d i else f i)"
  using assms
proof (induction xs arbitrary: v f)
  case Nil
  then show ?case by (simp add: changes_below_refl)
next
  case (Cons x xs)
  obtain n i where x: "x = (n, i)" by force
  let ?v = "flush_table d (n, i) v"
  have b: "base_dir ?v (absoluteWay d) d (f(i := mapped_bytes d i))" "changes_below (absoluteWay d) v ?v"
    using flush_table_spec [OF Cons.prems(3) _ Cons.prems(2), of n i] Cons.prems(1) by (auto simp: x)
  have "sound_base ?v d" using b(2) Cons.prems(2) sound_base_cong [of ?v v d] by (simp add: changes_below_def)
  moreover have "(\<lambda>j. if j \<in> snd ` set xs then mapped_bytes d j else (f(i := mapped_bytes d i)) j) =
      (\<lambda>j. if j \<in> snd ` set (x # xs) then mapped_bytes d j else f j)" by (auto simp: x fun_eq_iff)
  moreover have "set xs \<subseteq> set (tabbles_name d)" using Cons.prems(1) by simp
  ultimately have "changes_below (absoluteWay d) ?v (fold (flush_table d) xs ?v) \<and>
      base_dir (fold (flush_table d) xs ?v) (absoluteWay d) d (\<lambda>j. if j \<in> snd ` set (x # xs) then mapped_bytes d j else f j)"
    using Cons.IH [of ?v "f(i := mapped_bytes d i)"] b(1) by presburger
  then show ?case using changes_below_trans [OF b(2)] unfolding x by simp
qed

lemma flush_base_spec:
  assumes "wf_base v d"
  shows "holds (flush_base (Some d) v) (absoluteWay d) d" and "changes_below (absoluteWay d) v (flush_base (Some d) v)"
proof -
  obtain f where f: "sound_base v d" "base_dir v (absoluteWay d) d f" using assms by (auto simp: wf_base_def)
  note r = flush_tables_spec [OF order_refl f]
  show "changes_below (absoluteWay d) v (flush_base (Some d) v)" using r by (simp add: flush_base_def)
  have "base_dir (flush_base (Some d) v) (absoluteWay d) d
       (\<lambda>i. if i \<in> snd ` set (tabbles_name d) then mapped_bytes d i else f i)" using r by (simp add: flush_base_def)
  then show "holds (flush_base (Some d) v) (absoluteWay d) d"
    unfolding holds_def by (rule base_dir_bytes [THEN iffD1, rotated]) force
qed

end
