(* ===== verification/System_Spec.thy ===== *)
theory System_Spec
  imports Disk
begin

text \<open>
  What the operations of \<^verbatim>\<open>src/src/system/system.h\<close> do to a consistent system: the databases of
  the vector, the names and the directories agree.
\<close>

section \<open>Consistent systems\<close>

definition plain_name :: "string \<Rightarrow> bool" where
  "plain_name n \<longleftrightarrow> n \<noteq> [] \<and> n \<noteq> ''.'' \<and> n \<noteq> ''..'' \<and> CHR ''/'' \<notin> set n"

definition backup_dir :: "System \<Rightarrow> path" where
  "backup_dir s = abosolutePath s @ [backUpName]"

definition wf_sys :: "System \<Rightarrow> bool" where
  "wf_sys s \<longleftrightarrow> wf_node (root (sys_vol s)) \<and> abosolutePath s \<noteq> [] \<and>
     is_dir (find_node (root (sys_vol s)) (backup_dir s)) \<and>
     (\<forall>i d. i < length (bases s) \<and> bases s ! i = Some d \<longrightarrow> wf_base (sys_vol s) d \<and>
        absoluteWay d = abosolutePath s @ [dataBaseName d] \<and> plain_name (dataBaseName d) \<and>
        dataBaseName d \<noteq> backUpName \<and> name_base s (dataBaseName d) = Some i) \<and>
     (\<forall>n i. name_base s n = Some i \<longrightarrow> i < length (bases s) \<and> (\<exists>d. bases s ! i = Some d \<and> dataBaseName d = n))"

text \<open>The database a name stands for.\<close>

definition database_at :: "System \<Rightarrow> string \<Rightarrow> nat \<Rightarrow> DataBase \<Rightarrow> bool" where
  "database_at s n i d \<longleftrightarrow> name_base s n = Some i \<and> i < length (bases s) \<and> bases s ! i = Some d"

lemma child_plain: "plain_name n \<Longrightarrow> child p n = Inr (p @ [n])"
  by (simp add: child_def plain_name_def)

lemma plain_backUpName: "plain_name backUpName"
  by (simp add: plain_name_def backUpName_def)

lemma wf_sysD:
  assumes "wf_sys s" and "i < length (bases s)" and "bases s ! i = Some d"
  shows "wf_base (sys_vol s) d" and "absoluteWay d = abosolutePath s @ [dataBaseName d]"
    and "plain_name (dataBaseName d)" and "dataBaseName d \<noteq> backUpName" and "name_base s (dataBaseName d) = Some i"
  using assms by (auto simp: wf_sys_def)

lemma wf_sysI:
  assumes "wf_node (root (sys_vol s))" and "abosolutePath s \<noteq> []" and "is_dir (find_node (root (sys_vol s)) (backup_dir s))"
    and "\<And>i d. i < length (bases s) \<Longrightarrow> bases s ! i = Some d \<Longrightarrow> wf_base (sys_vol s) d"
    and "\<And>i d. i < length (bases s) \<Longrightarrow> bases s ! i = Some d \<Longrightarrow>
       absoluteWay d = abosolutePath s @ [dataBaseName d] \<and> plain_name (dataBaseName d) \<and>
       dataBaseName d \<noteq> backUpName \<and> name_base s (dataBaseName d) = Some i"
    and "\<And>n i. name_base s n = Some i \<Longrightarrow> \<exists>d. database_at s n i d \<and> dataBaseName d = n"
  shows "wf_sys s"
  using assms unfolding wf_sys_def database_at_def by blast

lemma wf_sys_name: "wf_sys s \<Longrightarrow> name_base s n = Some i \<Longrightarrow> \<exists>d. database_at s n i d \<and> dataBaseName d = n"
  unfolding wf_sys_def database_at_def by blast

lemma wf_sys_at: "wf_sys s \<Longrightarrow> database_at s n i d \<Longrightarrow> dataBaseName d = n"
  using wf_sys_name [of s n i] by (auto simp: database_at_def)

lemma wf_sys_at_iff: "wf_sys s \<Longrightarrow> i < length (bases s) \<Longrightarrow> bases s ! i = Some d \<Longrightarrow> database_at s (dataBaseName d) i d"
  using wf_sysD(5) [of s i d] by (simp add: database_at_def)

lemma databases_differ: "wf_sys s \<Longrightarrow> database_at s m j e \<Longrightarrow> database_at s n i d \<Longrightarrow> m \<noteq> n \<Longrightarrow> j \<noteq> i"
  using wf_sys_at [of s m j e] wf_sys_at [of s n i d] by (auto simp: database_at_def)

lemma backup_not_a_base: "wf_sys s \<Longrightarrow> name_base s backUpName = None"
  using wf_sys_name [of s backUpName] wf_sysD(4) [of s] by (cases "name_base s backUpName") (auto simp: database_at_def)

lemma getDataBase_at: "database_at s n i d \<Longrightarrow> getDataBase s n = Inr d \<and> getDataBaseById s i = Inr d \<and> getDataBaseId s n = Inr i"
  by (simp add: database_at_def getDataBase_def getDataBaseById_def getDataBaseId_def at_map_def at_bases_def)

lemma data_dir: "wf_sys s \<Longrightarrow> is_dir (find_node (root (sys_vol s)) (abosolutePath s))"
  using find_prefix_dir [of "root (sys_vol s)" "abosolutePath s" backUpName "[]"]
  by (auto simp: wf_sys_def backup_dir_def is_dir_iff)

lemma apart_children: "x \<noteq> y \<Longrightarrow> apart_paths (p @ x # q) (p @ y # r)"
  by (intro apart_same_start apart_Cons)

section \<open>Flushing\<close>

text \<open>Databases with different directories do not disturb one another.\<close>

definition ways :: "DataBase option list \<Rightarrow> path list" where
  "ways bs = concat (map (\<lambda>b. case b of None \<Rightarrow> [] | Some d \<Rightarrow> [absoluteWay d]) bs)"

lemma ways_simps [simp]: "ways [] = []" "ways (None # bs) = ways bs" "ways (Some d # bs) = absoluteWay d # ways bs"
  by (simp_all add: ways_def)

lemma in_ways: "Some d \<in> set bs \<Longrightarrow> absoluteWay d \<in> set (ways bs)"
  by (induction bs) (auto simp: ways_def)

lemma in_waysE: "q \<in> set (ways bs) \<Longrightarrow> \<exists>i d. i < length bs \<and> bs ! i = Some d \<and> q = absoluteWay d"
proof -
  assume "q \<in> set (ways bs)"
  then obtain d where "Some d \<in> set bs" "q = absoluteWay d" by (auto simp: ways_def split: option.splits)
  then show ?thesis by (auto simp: in_set_conv_nth)
qed

lemma flush_all:
  assumes "\<forall>d. Some d \<in> set bs \<longrightarrow> wf_base v d" and "sorted_wrt apart_paths (ways bs)" and "wf_node (root v)"
  shows "limits (fold flush_base bs v) = limits v \<and> wf_node (root (fold flush_base bs v)) \<and>
     (\<forall>q. (\<forall>p\<in>set (ways bs). apart_paths p q) \<longrightarrow> find_node (root (fold flush_base bs v)) q = find_node (root v) q) \<and>
     (\<forall>d. Some d \<in> set bs \<longrightarrow> holds (fold flush_base bs v) (absoluteWay d) d)"
  using assms
proof (induction bs arbitrary: v)
  case Nil
  then show ?case by simp
next
  case (Cons b bs)
  show ?case
  proof (cases b)
    case None
    then show ?thesis using Cons by (simp add: flush_base_def)
  next
    case (Some d)
    let ?v = "flush_base b v"
    have f: "holds ?v (absoluteWay d) d" "changes_below (absoluteWay d) v ?v"
      using flush_base_spec [of v d] Cons.prems(1) Some by auto
    have "wf_base ?v e" if "Some e \<in> set bs" for e
    proof -
      have "apart_paths (absoluteWay d) (absoluteWay e)" using Cons.prems(2) in_ways [OF that] Some by simp
      then have "find_node (root ?v) (absoluteWay e) = find_node (root v) (absoluteWay e)" "limits ?v = limits v"
        using f(2) by (simp_all add: changes_below_def)
      then show ?thesis using wf_base_cong [of ?v e v] Cons.prems(1) that by simp
    qed
    moreover have "sorted_wrt apart_paths (ways bs)" "wf_node (root ?v)"
      using Cons.prems(2,3) Some f(2) by (simp_all add: changes_below_def)
    ultimately have ih: "limits (fold flush_base bs ?v) = limits ?v" "wf_node (root (fold flush_base bs ?v))"
      "\<forall>q. (\<forall>p\<in>set (ways bs). apart_paths p q) \<longrightarrow> find_node (root (fold flush_base bs ?v)) q = find_node (root ?v) q"
      "\<forall>d. Some d \<in> set bs \<longrightarrow> holds (fold flush_base bs ?v) (absoluteWay d) d"
      using Cons.IH [of ?v] by simp_all
    have "\<forall>p\<in>set (ways bs). apart_paths p (absoluteWay d)" using Cons.prems(2) Some by (auto simp: apart_sym)
    then have "holds (fold flush_base bs ?v) (absoluteWay d) d"
      using f(1) ih(3) base_dir_cong [of "fold flush_base bs ?v" _ ?v] by (simp add: holds_def)
    then show ?thesis using ih f(2) Some by (simp add: changes_below_def)
  qed
qed

lemma ways_apart:
  assumes "\<forall>i d. i < length bs \<and> bs ! i = Some d \<longrightarrow> (\<exists>n. absoluteWay d = p @ [n] \<and> nb n = Some i)"
  shows "sorted_wrt apart_paths (ways bs)"
  using assms
proof (induction bs rule: rev_induct)
  case Nil
  then show ?case by simp
next
  case (snoc b bs)
  have "\<exists>n. absoluteWay d = p @ [n] \<and> nb n = Some i" if "i < length bs" "bs ! i = Some d" for i d
    using snoc.prems [rule_format, of i d] that by (simp add: nth_append)
  then have ih: "sorted_wrt apart_paths (ways bs)" using snoc.IH by blast
  show ?case
  proof (cases b)
    case None
    then show ?thesis using ih by (simp add: ways_def)
  next
    case (Some d)
    obtain m where m: "absoluteWay d = p @ [m]" "nb m = Some (length bs)"
      using snoc.prems [rule_format, of "length bs" d] Some by auto
    have "apart_paths q (absoluteWay d)" if "q \<in> set (ways bs)" for q
    proof -
      obtain i e where e: "i < length bs" "bs ! i = Some e" "q = absoluteWay e"
        using in_waysE [of q bs] \<open>q \<in> set (ways bs)\<close> by blast
      then obtain n where n: "q = p @ [n]" "nb n = Some i"
        using snoc.prems [rule_format, of i e] by (auto simp: nth_append)
      then have "n \<noteq> m" using e(1) m(2) by auto
      then show ?thesis using n m apart_children [of n m p "[]" "[]"] by simp
    qed
    then show ?thesis using ih Some by (simp add: ways_def sorted_wrt_append)
  qed
qed

text \<open>After a flush every database is in its directory as it is in memory.\<close>

definition flushed :: "System \<Rightarrow> System" where
  "flushed s = s\<lparr>sys_vol := fold flush_base (bases s) (sys_vol s)\<rparr>"

lemma flush_flushed [simp]: "flush s = (Inr (), flushed s)"
  by (simp add: flush_def flushed_def)

lemma flushed_fields [simp]:
  "abosolutePath (flushed s) = abosolutePath s" "bases (flushed s) = bases s" "name_base (flushed s) = name_base s"
  by (simp_all add: flushed_def)

lemma database_flushed [simp]: "database_at (flushed s) = database_at s"
  by (simp add: database_at_def fun_eq_iff)

lemma backup_dir_flushed [simp]: "backup_dir (flushed s) = backup_dir s"
  by (simp add: backup_dir_def)

lemma flushed_spec:
  assumes "wf_sys s"
  shows "wf_sys (flushed s)" and "limits (sys_vol (flushed s)) = limits (sys_vol s)"
    and "database_at s n i d \<Longrightarrow> holds (sys_vol (flushed s)) (absoluteWay d) d"
    and "name_base s m = None \<Longrightarrow>
       find_node (root (sys_vol (flushed s))) (abosolutePath s @ m # q) = find_node (root (sys_vol s)) (abosolutePath s @ m # q)"
proof -
  let ?v = "sys_vol (flushed s)"
  have b: "\<forall>d. Some d \<in> set (bases s) \<longrightarrow> wf_base (sys_vol s) d" using wf_sysD(1) [OF assms] by (auto simp: in_set_conv_nth)
  have a: "sorted_wrt apart_paths (ways (bases s))"
    by (rule ways_apart [of _ "abosolutePath s" "name_base s"]) (use wf_sysD [OF assms] in blast)
  have r: "wf_node (root (sys_vol s))" using assms by (simp add: wf_sys_def)
  note f = flush_all [OF b a r]
  show lim: "limits ?v = limits (sys_vol s)" using f by (simp add: flushed_def)
  show hold: "holds ?v (absoluteWay d) d" if "database_at s n i d" for n i d
    using that f by (auto simp: flushed_def database_at_def in_set_conv_nth)
  show other: "find_node (root ?v) (abosolutePath s @ m # q) = find_node (root (sys_vol s)) (abosolutePath s @ m # q)"
    if "name_base s m = None" for m q
  proof -
    have "apart_paths p (abosolutePath s @ m # q)" if p: "p \<in> set (ways (bases s))" for p
    proof -
      obtain i d where "i < length (bases s)" "bases s ! i = Some d" "p = absoluteWay d"
        using in_waysE [OF p] by blast
      then have "p = abosolutePath s @ [dataBaseName d]" "dataBaseName d \<noteq> m"
        using wf_sysD [OF assms] \<open>name_base s m = None\<close> by (force, force)
      then show ?thesis using apart_children [of "dataBaseName d" m "abosolutePath s" "[]" q] by simp
    qed
    then show ?thesis using f by (simp add: flushed_def)
  qed
  have "is_dir (find_node (root ?v) (backup_dir s))"
    using other [OF backup_not_a_base [OF assms], of "[]"] assms by (simp add: wf_sys_def backup_dir_def)
  moreover have "wf_base ?v d" if "i < length (bases s)" "bases s ! i = Some d" for i d
  proof -
    have "holds ?v (absoluteWay d) d"
      using hold [of "dataBaseName d" i d] that wf_sysD(5) [OF assms that] by (simp add: database_at_def)
    moreover have "sound_base ?v d" using wf_sysD(1) [OF assms that] lim sound_base_cong [of ?v] by (simp add: wf_base_def)
    ultimately show ?thesis by (auto simp: wf_base_def holds_def)
  qed
  moreover have "wf_node (root ?v)" using f by (simp add: flushed_def)
  ultimately show "wf_sys (flushed s)" using wf_sysD [OF assms] wf_sys_name [OF assms] assms
    by (intro wf_sysI) (simp_all add: wf_sys_def)
qed

end
