(* ===== verification/System_Operations.thy ===== *)
theory System_Operations
  imports System_Spec
begin

text \<open>
  The operations of \<^verbatim>\<open>src/src/system/system.h\<close> on a consistent system: creating, backing up,
  dropping and restoring a database. Each keeps the system consistent and leaves the other databases
  as they are.
\<close>

section \<open>Frames\<close>

lemma on_disk_apply: "on_disk m s = (fst (m (sys_vol s)), s\<lparr>sys_vol := snd (m (sys_vol s))\<rparr>)"
  by (simp add: on_disk_def zoom_def split: prod.splits)

lemma valid_plain: "valid_name n \<Longrightarrow> n \<noteq> ''.'' \<Longrightarrow> n \<noteq> ''..'' \<Longrightarrow> plain_name n"
  by (auto simp: valid_name_def plain_name_def forbidden_chars_def)

lemma valid_not_forbidden: "valid_name n \<longleftrightarrow> n \<noteq> [] \<and> \<not> has_forbidden n"
  by (auto simp: valid_name_def has_forbidden_def)

lemma way_not_root: "wf_sys s \<Longrightarrow> abosolutePath s @ p \<noteq> []"
  by (simp add: wf_sys_def)

lemma wf_sys_vol: "wf_sys s \<Longrightarrow> wf_node (root (sys_vol s))"
  by (simp add: wf_sys_def)

lemma wf_sys_backup: "wf_sys s \<Longrightarrow> is_dir (find_node (root (sys_vol s)) (backup_dir s))"
  by (simp add: wf_sys_def)

text \<open>What happens below one entry of the data directory concerns no database but that one.\<close>

lemma other_base:
  assumes "wf_sys s" and "changes_below (abosolutePath s @ [m]) (sys_vol s) v'"
    and "database_at s n i d" and "n \<noteq> m"
  shows "wf_base v' d"
proof -
  have d: "i < length (bases s)" "bases s ! i = Some d" "dataBaseName d = n"
    using assms(3) wf_sys_at [OF assms(1,3)] by (simp_all add: database_at_def)
  note w = wf_sysD [OF assms(1) d(1,2)]
  have "apart_paths (abosolutePath s @ [m]) (absoluteWay d)"
    using w(2) d(3) assms(4) apart_children [of m n "abosolutePath s" "[]" "[]"] by simp
  then show ?thesis using w(1) assms(2) wf_base_cong [of v' d "sys_vol s"] by (simp add: changes_below_def)
qed

lemma backup_dir_kept:
  assumes "wf_sys s" and "changes_below (abosolutePath s @ [m]) (sys_vol s) v'" and "m \<noteq> backUpName"
  shows "find_node (root v') (backup_dir s @ q) = find_node (root (sys_vol s)) (backup_dir s @ q)"
  using assms(2,3) apart_children [of m backUpName "abosolutePath s" "[]" q]
  by (simp add: changes_below_def backup_dir_def)

lemma wf_sys_volI:
  assumes "wf_sys s" and "wf_node (root v')" and "is_dir (find_node (root v') (backup_dir s))"
    and "\<And>n i d. database_at s n i d \<Longrightarrow> wf_base v' d"
  shows "wf_sys (s\<lparr>sys_vol := v'\<rparr>)"
proof (rule wf_sysI)
  show "wf_base (sys_vol (s\<lparr>sys_vol := v'\<rparr>)) d"
    if "i < length (bases (s\<lparr>sys_vol := v'\<rparr>))" "bases (s\<lparr>sys_vol := v'\<rparr>) ! i = Some d" for i d
    using assms(4) [OF wf_sys_at_iff [OF assms(1)], of i d] that by simp
  show "\<exists>d. database_at (s\<lparr>sys_vol := v'\<rparr>) n i d \<and> dataBaseName d = n" if "name_base (s\<lparr>sys_vol := v'\<rparr>) n = Some i" for n i
    using that wf_sys_name [OF assms(1)] by (simp add: database_at_def)
qed (use assms wf_sysD [OF assms(1)] wf_sys_def [of s] in \<open>simp_all add: backup_dir_def\<close>)

lemma flushed_vol [simp]: "(flushed s)\<lparr>sys_vol := v\<rparr> = s\<lparr>sys_vol := v\<rparr>"
  by (simp add: flushed_def)

section \<open>BACKUP\<close>

lemma backup_spec:
  assumes "wf_sys s" and "database_at s n i d" and "valid_name b" and "plain_name b"
    and "find_node (root (sys_vol s)) (backup_dir s @ [b]) = None"
  shows "\<exists>v'. backUpDatabase n b s = (Inr (), s\<lparr>sys_vol := v'\<rparr>) \<and> wf_sys (s\<lparr>sys_vol := v'\<rparr>) \<and>
     holds v' (backup_dir s @ [b]) d \<and> limits v' = limits (sys_vol s)"
proof -
  let ?s = "flushed s" and ?to = "backup_dir s @ [b]"
  let ?v = "sys_vol ?s"
  note f = flushed_spec [OF assms(1)]
  have d: "i < length (bases s)" "bases s ! i = Some d" "dataBaseName d = n"
    using assms(2) wf_sys_at [OF assms(1,2)] by (simp_all add: database_at_def)
  note w = wf_sysD [OF assms(1) d(1,2)]
  have h: "holds ?v (absoluteWay d) d" using f(3) [OF assms(2)] .
  then obtain es where es: "find_node (root ?v) (absoluteWay d) = Some (DirN es)"
    by (auto simp: holds_def base_dir_def)
  have to: "find_node (root ?v) ?to = None"
    using f(4) [OF backup_not_a_base [OF assms(1)], of "[b]"] assms(5) by (simp add: backup_dir_def)
  have bd: "is_dir (find_node (root ?v) (backup_dir s))" using wf_sys_backup [OF f(1)] by simp
  let ?v1 = "?v\<lparr>root := put_node (root ?v) ?to (DirN [])\<rparr>"
  have ap: "apart_paths ?to (absoluteWay d)"
    using w(2,4) d(3) apart_children [of backUpName n "abosolutePath s" "[b]" "[]"] by (auto simp: backup_dir_def)
  have wf: "wf_node (root ?v)" "wf_node (root ?v1)"
    using wf_sys_vol [OF f(1)] wf_put [OF wf_sys_vol [OF f(1)], of "DirN []" ?to] by simp_all
  have new: "find_node (root ?v1) ?to = Some (DirN [])" using bd by (simp add: find_put_same)
  have src: "find_node (root ?v1) (absoluteWay d) = Some (DirN es)" using es find_put_apart [OF ap] by simp
  let ?v' = "?v1\<lparr>root := put_node (root ?v1) ?to (DirN es)\<rparr>"
  have c: "copy_tree (absoluteWay d) ?to ?v1 = (Inr (), ?v')" by (rule copy_tree_spec [OF wf(2) src new ap])
  have "backUpDatabase n b s = (Inr (), s\<lparr>sys_vol := ?v'\<rparr>)"
  proof -
    have "child (abosolutePath s) n = Inr (absoluteWay d)" using w(2,3) d(3) child_plain by simp
    moreover have "child (abosolutePath s @ [backUpName]) b = Inr ?to" using child_plain [OF assms(4)] by (simp add: backup_dir_def)
    moreover have "create_directory ?to ?v = (Inr True, ?v1)" using to bd by (simp add: create_directory_def parent_ok_def)
    ultimately show ?thesis
      using assms(2,3) es c
      by (simp add: backUpDatabase_def bnd_def catch_fs_def on_disk_apply database_at_def valid_not_forbidden)
  qed
  moreover have below: "changes_below (abosolutePath s @ [backUpName]) ?v ?v'"
  proof -
    have "wf_node (DirN es)" using wf_find [OF wf(1) es] .
    then have "changes_below ?to ?v ?v'"
      using changes_below_trans [OF changes_below_put [of "DirN []" ?to ?v] changes_below_put [of "DirN es" ?to ?v1]] by simp
    then show ?thesis unfolding backup_dir_def by (rule changes_below_up)
  qed
  moreover have at: "find_node (root ?v') ?to = Some (DirN es)"
    using find_put_same [of ?to "root ?v1" "DirN es"] parent_dir [of "root ?v1" ?to] new by simp
  then have "holds ?v' ?to d" using h es base_dir_cong [of ?v' ?to ?v "absoluteWay d"] by (simp add: holds_def)
  moreover have "wf_sys (s\<lparr>sys_vol := ?v'\<rparr>)"
  proof -
    have "is_dir (find_node (root ?v') (backup_dir s))"
      using find_prefix_dir [of "root ?v'" "backup_dir s" b "[]"] at by simp
    moreover have "wf_base ?v' e" if "database_at s m j e" for m j e
    proof -
      have "m \<noteq> backUpName" using that backup_not_a_base [OF assms(1)] by (auto simp: database_at_def)
      then show ?thesis using other_base [OF f(1), of backUpName ?v' m j e] below that by simp
    qed
    ultimately show ?thesis
      using wf_sys_volI [OF f(1), of ?v'] below wf(1) by (simp add: changes_below_def)
  qed
  ultimately show ?thesis using f(2) by (intro exI [of _ ?v']) (simp add: changes_below_def)
qed

section \<open>DROP\<close>

definition forget_base :: "string \<Rightarrow> nat \<Rightarrow> System \<Rightarrow> System" where
  "forget_base n i s = s\<lparr>bases := (bases s)[i := None], name_base := (name_base s)(n := None)\<rparr>"

lemma drop_spec:
  assumes "wf_sys s" and "database_at s n i d"
  shows "\<exists>v'. deleteDatabase n s = (Inr i, (forget_base n i s)\<lparr>sys_vol := v'\<rparr>) \<and>
     wf_sys ((forget_base n i s)\<lparr>sys_vol := v'\<rparr>) \<and> find_node (root v') (abosolutePath s @ [n]) = None \<and>
     changes_below (abosolutePath s @ [n]) (sys_vol s) v'"
proof -
  have d: "i < length (bases s)" "bases s ! i = Some d" "dataBaseName d = n" "name_base s n = Some i"
    using assms(2) wf_sys_at [OF assms] by (simp_all add: database_at_def)
  note w = wf_sysD [OF assms(1) d(1,2)]
  let ?p = "abosolutePath s @ [n]"
  let ?v = "(sys_vol s)\<lparr>root := remove_node (root (sys_vol s)) ?p\<rparr>"
  let ?s = "(forget_base n i s)\<lparr>sys_vol := ?v\<rparr>"
  have n: "plain_name n" "n \<noteq> backUpName" using w d(3) by auto
  have "is_dir (find_node (root (sys_vol s)) ?p)" using w(1,2) d(3) by (auto simp: wf_base_def base_dir_def)
  then have "deleteDatabase n s = (Inr i, ?s)"
    using d(4) child_plain [OF n(1), of "abosolutePath s"]
    by (simp add: deleteDatabase_def bnd_def at_map_def on_disk_apply remove_all_def forget_base_def)
  moreover have below: "changes_below ?p (sys_vol s) ?v" by (rule changes_below_remove)
  moreover have "wf_sys ?s"
  proof (rule wf_sysI)
    show "wf_node (root (sys_vol ?s))" using wf_sys_vol [OF assms(1)] by (simp add: wf_remove)
    show "is_dir (find_node (root (sys_vol ?s)) (backup_dir ?s))"
      using backup_dir_kept [OF assms(1) below n(2), of "[]"] wf_sys_backup [OF assms(1)]
      by (simp add: backup_dir_def forget_base_def)
    fix j e
    assume "j < length (bases ?s)" and "bases ?s ! j = Some e"
    then have j: "j < length (bases s)" "bases s ! j = Some e" "j \<noteq> i"
      by (cases "j = i"; simp add: forget_base_def)+
    note e = wf_sysD [OF assms(1) j(1,2)]
    have ne: "dataBaseName e \<noteq> n" using e(5) d(4) j(3) by auto
    then show "wf_base (sys_vol ?s) e"
      using other_base [OF assms(1) below wf_sys_at_iff [OF assms(1) j(1,2)]] by simp
    show "absoluteWay e = abosolutePath ?s @ [dataBaseName e] \<and> plain_name (dataBaseName e) \<and>
        dataBaseName e \<noteq> backUpName \<and> name_base ?s (dataBaseName e) = Some j"
      using e ne by (simp add: forget_base_def)
  next
    fix m j
    assume "name_base ?s m = Some j"
    then have m: "name_base s m = Some j" "m \<noteq> n" by (auto simp: forget_base_def split: if_splits)
    obtain e where e: "database_at s m j e" "dataBaseName e = m" using wf_sys_name [OF assms(1) m(1)] by blast
    have "j \<noteq> i" using e d(2,3) m(2) by (auto simp: database_at_def)
    then show "\<exists>d. database_at ?s m j d \<and> dataBaseName d = m"
      using e m(2) by (auto simp: database_at_def forget_base_def)
  qed (use way_not_root [OF assms(1), of "[]"] in \<open>simp add: forget_base_def\<close>)
  moreover have "find_node (root ?v) ?p = None" by (simp add: find_remove_same)
  ultimately show ?thesis by blast
qed

lemma database_forget: "database_at (forget_base n i s) m j e \<longleftrightarrow> m \<noteq> n \<and> j \<noteq> i \<and> database_at s m j e"
  if "wf_sys s" "database_at s n i d"
proof (cases "j = i")
  case True
  then show ?thesis using that by (auto simp: database_at_def forget_base_def)
qed (auto simp: database_at_def forget_base_def)

section \<open>A database that is added\<close>

definition add_base :: "string \<Rightarrow> DataBase \<Rightarrow> System \<Rightarrow> System" where
  "add_base n d s = s\<lparr>bases := bases s @ [Some d], name_base := (name_base s)(n \<mapsto> length (bases s))\<rparr>"

lemma push_base_new: "name_base s n = None \<Longrightarrow> push_base n d s = (Inr (), add_base n d s)"
  by (simp add: push_base_def add_base_def)

lemma add_base_spec:
  assumes "wf_sys s" and "name_base s n = None" and "plain_name n" and "n \<noteq> backUpName"
    and "changes_below (abosolutePath s @ [n]) (sys_vol s) v'" and "wf_base v' d"
    and "absoluteWay d = abosolutePath s @ [n]" and "dataBaseName d = n"
  shows "wf_sys ((add_base n d s)\<lparr>sys_vol := v'\<rparr>)"
proof (rule wf_sysI)
  let ?s = "(add_base n d s)\<lparr>sys_vol := v'\<rparr>"
  show "wf_node (root (sys_vol ?s))" using wf_sys_vol [OF assms(1)] assms(5) by (simp add: changes_below_def)
  show "is_dir (find_node (root (sys_vol ?s)) (backup_dir ?s))"
    using backup_dir_kept [OF assms(1,5,4), of "[]"] wf_sys_backup [OF assms(1)]
    by (simp add: backup_dir_def add_base_def)
  fix j e
  assume "j < length (bases ?s)" and "bases ?s ! j = Some e"
  then consider (old) "j < length (bases s)" "bases s ! j = Some e" | (new) "j = length (bases s)" "e = d"
    by (auto simp: add_base_def nth_append split: if_splits)
  then have "wf_base v' e \<and> absoluteWay e = abosolutePath ?s @ [dataBaseName e] \<and> plain_name (dataBaseName e) \<and>
      dataBaseName e \<noteq> backUpName \<and> name_base ?s (dataBaseName e) = Some j"
  proof cases
    case old
    note e = wf_sysD [OF assms(1) old]
    have "dataBaseName e \<noteq> n" using e(5) assms(2) by auto
    then show ?thesis
      using e other_base [OF assms(1,5) wf_sys_at_iff [OF assms(1) old]] by (simp add: add_base_def)
  next
    case new
    then show ?thesis using assms by (simp add: add_base_def)
  qed
  then show "wf_base (sys_vol ?s) e" "absoluteWay e = abosolutePath ?s @ [dataBaseName e] \<and> plain_name (dataBaseName e) \<and>
      dataBaseName e \<noteq> backUpName \<and> name_base ?s (dataBaseName e) = Some j" by simp_all
next
  let ?s = "(add_base n d s)\<lparr>sys_vol := v'\<rparr>"
  fix m j
  assume "name_base ?s m = Some j"
  then show "\<exists>d. database_at ?s m j d \<and> dataBaseName d = m"
    using wf_sys_name [OF assms(1), of m j] assms(8)
    by (auto simp: database_at_def add_base_def nth_append split: if_splits)
qed (use way_not_root [OF assms(1), of "[]"] in \<open>simp add: add_base_def\<close>)

lemma database_add:
  "database_at (add_base n d s) n (length (bases s)) d"
  "database_at s m j e \<Longrightarrow> m \<noteq> n \<Longrightarrow> database_at (add_base n d s) m j e"
  by (simp_all add: database_at_def add_base_def nth_append)

section \<open>CREATE DATABASE\<close>

lemma create_spec:
  assumes "wf_sys s" and "valid_name n" and "find_node (root (sys_vol s)) (abosolutePath s @ [n]) = None"
    and "plain_name n"
  shows "\<exists>v' d. createDataBase n s = (Inr (), (add_base n d s)\<lparr>sys_vol := v'\<rparr>) \<and>
     wf_sys ((add_base n d s)\<lparr>sys_vol := v'\<rparr>) \<and> tabbles_name d = [] \<and> name_base s n = None \<and>
     changes_below (abosolutePath s @ [n]) (sys_vol s) v'"
proof -
  let ?p = "abosolutePath s @ [n]"
  let ?v = "(sys_vol s)\<lparr>root := put_node (root (sys_vol s)) ?p (DirN [])\<rparr>"
  let ?d = "\<lparr>absoluteWay = ?p, dataBaseName = n, tabbles = [], tabbles_name = []\<rparr>"
  have dir: "is_dir (find_node (root (sys_vol s)) (abosolutePath s))" by (rule data_dir [OF assms(1)])
  have nb: "n \<noteq> backUpName" using wf_sys_backup [OF assms(1)] assms(3) by (auto simp: backup_dir_def)
  have new: "name_base s n = None"
  proof (cases "name_base s n")
    case (Some i)
    then obtain d where "database_at s n i d" "dataBaseName d = n" using wf_sys_name [OF assms(1)] by blast
    then show ?thesis
      using wf_sysD(1,2) [OF assms(1), of i d] assms(3) by (auto simp: database_at_def wf_base_def base_dir_def)
  qed simp
  have "find_node (root ?v) ?p = Some (DirN [])" using dir by (simp add: find_put_same)
  note b = empty_base [OF this, of n]
  have below: "changes_below ?p (sys_vol s) ?v" by (simp add: changes_below_put)
  have "create_directory ?p (sys_vol s) = (Inr True, ?v)" using assms(3) dir by (simp add: create_directory_def parent_ok_def)
  then have "createDataBase n s = push_base n ?d (s\<lparr>sys_vol := ?v\<rparr>)"
    using assms(2,3) b child_plain [OF assms(4), of "abosolutePath s"]
    by (simp add: createDataBase_def bnd_def on_disk_apply valid_not_forbidden)
  also have "\<dots> = (Inr (), (add_base n ?d s)\<lparr>sys_vol := ?v\<rparr>)"
    using push_base_new [of "s\<lparr>sys_vol := ?v\<rparr>" n ?d] new by (simp add: add_base_def)
  finally have r: "createDataBase n s = (Inr (), (add_base n ?d s)\<lparr>sys_vol := ?v\<rparr>)" .
  have "wf_base ?v ?d"
    using \<open>find_node (root ?v) ?p = Some (DirN [])\<close> by (simp add: wf_base_def sound_base_def base_dir_def dir_names_def)
  then have "wf_sys ((add_base n ?d s)\<lparr>sys_vol := ?v\<rparr>)" using add_base_spec [OF assms(1) new assms(4) nb below] by simp
  then show ?thesis using r new below by (intro exI [of _ ?v] exI [of _ ?d]) simp
qed

section \<open>RESTORE\<close>

definition set_base :: "nat \<Rightarrow> DataBase \<Rightarrow> System \<Rightarrow> System" where
  "set_base i d s = s\<lparr>bases := (bases s)[i := Some d]\<rparr>"

lemma set_base_spec:
  assumes "wf_sys s" and "database_at s n i d0"
    and "changes_below (abosolutePath s @ [n]) (sys_vol s) v'" and "wf_base v' d"
    and "absoluteWay d = abosolutePath s @ [n]" and "dataBaseName d = n"
  shows "wf_sys ((set_base i d s)\<lparr>sys_vol := v'\<rparr>)"
proof (rule wf_sysI)
  let ?s = "(set_base i d s)\<lparr>sys_vol := v'\<rparr>"
  have i: "i < length (bases s)" "bases s ! i = Some d0" "name_base s n = Some i" "dataBaseName d0 = n"
    using assms(2) wf_sys_at [OF assms(1,2)] by (simp_all add: database_at_def)
  note w = wf_sysD [OF assms(1) i(1,2)]
  show "wf_node (root (sys_vol ?s))" using wf_sys_vol [OF assms(1)] assms(3) by (simp add: changes_below_def)
  show "is_dir (find_node (root (sys_vol ?s)) (backup_dir ?s))"
    using backup_dir_kept [OF assms(1,3), of "[]"] wf_sys_backup [OF assms(1)] w(4) i(4)
    by (simp add: backup_dir_def set_base_def)
  fix j e
  assume "j < length (bases ?s)" and "bases ?s ! j = Some e"
  then consider (old) "j < length (bases s)" "bases s ! j = Some e" "j \<noteq> i" | (new) "j = i" "e = d"
    using i(1) by (cases "j = i") (auto simp: set_base_def)
  then have "wf_base v' e \<and> absoluteWay e = abosolutePath ?s @ [dataBaseName e] \<and> plain_name (dataBaseName e) \<and>
      dataBaseName e \<noteq> backUpName \<and> name_base ?s (dataBaseName e) = Some j"
  proof cases
    case old
    note e = wf_sysD [OF assms(1) old(1,2)]
    have "dataBaseName e \<noteq> n" using e(5) i(3) old(3) by auto
    then show ?thesis
      using e other_base [OF assms(1,3) wf_sys_at_iff [OF assms(1) old(1,2)]] by (simp add: set_base_def)
  next
    case new
    then show ?thesis using assms w i by (simp add: set_base_def)
  qed
  then show "wf_base (sys_vol ?s) e" "absoluteWay e = abosolutePath ?s @ [dataBaseName e] \<and> plain_name (dataBaseName e) \<and>
      dataBaseName e \<noteq> backUpName \<and> name_base ?s (dataBaseName e) = Some j" by simp_all
next
  let ?s = "(set_base i d s)\<lparr>sys_vol := v'\<rparr>"
  fix m j
  assume "name_base ?s m = Some j"
  then obtain e where "database_at s m j e" "dataBaseName e = m"
    using wf_sys_name [OF assms(1), of m j] by (auto simp: set_base_def)
  then show "\<exists>d. database_at ?s m j d \<and> dataBaseName d = m"
    using wf_sys_at [OF assms(1,2)] assms(2,6) by (cases "j = i") (auto simp: database_at_def set_base_def)
qed (use way_not_root [OF assms(1), of "[]"] in \<open>simp add: set_base_def\<close>)

text \<open>The part of a restoration that works on the tree: the old directory goes, the copy comes.\<close>

lemma restore_disk:
  assumes "wf_node (root v)" and "is_dir (find_node (root v) p)" and "find_node (root v) bp = Some (DirN es)"
    and "apart_paths (p @ [m]) bp" and "holds v bp d" and "sound_base v d" and "openable d"
    and "v1 = (if find_node (root v) (p @ [m]) \<noteq> None then snd (remove_all (p @ [m]) v) else v)"
    and "v2 = v1\<lparr>root := put_node (root v1) (p @ [m]) (DirN [])\<rparr>"
    and "v3 = v2\<lparr>root := put_node (root v2) (p @ [m]) (DirN es)\<rparr>"
  shows "create_directory (p @ [m]) v1 = (Inr True, v2)" and "copy_tree bp (p @ [m]) v2 = (Inr (), v3)"
    and "\<exists>d'. new_DataBase (p @ [m]) name v3 = (Inr d', v3) \<and> same_tables d d' \<and> wf_base v3 d' \<and>
       absoluteWay d' = p @ [m] \<and> dataBaseName d' = name"
    and "changes_below (p @ [m]) v v3"
proof -
  have c1: "changes_below (p @ [m]) v v1"
    using assms(8) changes_below_remove [of "p @ [m]" v] by (simp add: remove_all_def changes_below_refl)
  have gone: "find_node (root v1) (p @ [m]) = None" using assms(8) by (simp add: remove_all_def find_remove_same)
  have dir: "is_dir (find_node (root v1) p)"
    using assms(2,8) find_remove_dir [of "root v" p m "[]"] by (simp add: remove_all_def)
  have c2: "changes_below (p @ [m]) v1 v2" unfolding assms(9) by (simp add: changes_below_put)
  have at2: "find_node (root v2) (p @ [m]) = Some (DirN [])" using dir by (simp add: assms(9) find_put_same)
  have src: "find_node (root v2) bp = Some (DirN es)"
    using assms(3,4) c1 c2 by (simp add: changes_below_def)
  have wf: "wf_node (root v2)" using assms(1) c1 c2 by (simp add: changes_below_def)
  have c3: "changes_below (p @ [m]) v2 v3"
    unfolding assms(10) using wf_find [OF assms(1,3)] by (rule changes_below_put)
  show below: "changes_below (p @ [m]) v v3" using c1 c2 c3 by (blast intro: changes_below_trans)
  show "create_directory (p @ [m]) v1 = (Inr True, v2)"
    using gone dir by (simp add: create_directory_def parent_ok_def assms(9))
  show "copy_tree bp (p @ [m]) v2 = (Inr (), v3)"
    unfolding assms(10) by (rule copy_tree_spec [OF wf src at2 assms(4)])
  have at3: "find_node (root v3) (p @ [m]) = Some (DirN es)"
    using find_put_same [of "p @ [m]" "root v2" "DirN es"] parent_dir [of "root v2" "p @ [m]"] at2 by (simp add: assms(10))
  then have h: "holds v3 (p @ [m]) d" using assms(3,5) base_dir_cong [of v3 "p @ [m]" v bp] by (simp add: holds_def)
  have "sound_base v3 d" using assms(6) below sound_base_cong [of v3 v d] by (simp add: changes_below_def)
  then obtain d' where d': "new_DataBase (p @ [m]) name v3 = (Inr d', v3)" "same_tables d d'" "sound_base v3 d'"
    "absoluteWay d' = p @ [m]" "dataBaseName d' = name" using new_DataBase_spec [OF h _ assms(7)] by blast
  moreover have "base_dir v3 (p @ [m]) d' (mapped_bytes d)"
    using same_tables_images [OF d'(2) \<open>sound_base v3 d\<close>] h by (simp add: holds_def)
  ultimately show "\<exists>d'. new_DataBase (p @ [m]) name v3 = (Inr d', v3) \<and> same_tables d d' \<and> wf_base v3 d' \<and>
       absoluteWay d' = p @ [m] \<and> dataBaseName d' = name" by (auto simp: wf_base_def)
qed

lemma restore_spec:
  assumes "wf_sys s" and "plain_name b" and "plain_name m" and "m \<noteq> backUpName"
    and "holds (sys_vol s) (backup_dir s @ [b]) d" and "sound_base (sys_vol s) d" and "openable d"
  shows "\<exists>s' d' j. restoreDatabase b m s = (Inr (), s') \<and> wf_sys s' \<and> database_at s' m j d' \<and> same_tables d d' \<and>
     (\<forall>n i e. database_at s n i e \<and> n \<noteq> m \<longrightarrow> database_at s' n i e)"
proof -
  let ?s = "flushed s" and ?bp = "backup_dir s @ [b]" and ?rp = "abosolutePath s @ [m]"
  define v where "v = sys_vol ?s"
  note f = flushed_spec [OF assms(1)]
  have bp: "find_node (root v) ?bp = find_node (root (sys_vol s)) ?bp"
    using f(4) [OF backup_not_a_base [OF assms(1)], of "[b]"] by (simp add: backup_dir_def v_def)
  then obtain es where es: "find_node (root v) ?bp = Some (DirN es)" using assms(5) by (auto simp: holds_def base_dir_def)
  have h: "holds v ?bp d" using assms(5) base_dir_cong [OF bp] by (simp add: holds_def)
  have sd: "sound_base v d" using assms(6) f(2) sound_base_cong [of v "sys_vol s"] by (simp add: v_def)
  have ap: "apart_paths ?rp ?bp" using apart_children [of m backUpName "abosolutePath s" "[]" "[b]"] assms(4) by (simp add: backup_dir_def)
  define v1 where "v1 = (if find_node (root v) ?rp \<noteq> None then snd (remove_all ?rp v) else v)"
  define v2 where "v2 = v1\<lparr>root := put_node (root v1) ?rp (DirN [])\<rparr>"
  define v3 where "v3 = v2\<lparr>root := put_node (root v2) ?rp (DirN es)\<rparr>"
  note r = restore_disk [OF wf_sys_vol [OF f(1), folded v_def] data_dir [OF f(1), simplified, folded v_def] es ap h sd assms(7)
      v1_def v2_def v3_def]
  obtain d' where d': "new_DataBase ?rp m v3 = (Inr d', v3)" "same_tables d d'" "wf_base v3 d'"
    "absoluteWay d' = ?rp" "dataBaseName d' = m" using r(3) [of m] by blast
  have ch: "child (backup_dir s) b = Inr ?bp" "child (abosolutePath s) m = Inr ?rp" "m \<noteq> ''.''" "m \<noteq> ''..''"
    using child_plain assms(2,3) by (simp_all add: plain_name_def)
  have rm: "find_node (root v) ?rp \<noteq> None \<Longrightarrow> v\<lparr>root := remove_node (root v) ?rp\<rparr> = v1" "find_node (root v) ?rp = None \<Longrightarrow> v1 = v"
    by (simp_all add: v1_def remove_all_def)
  note steps = restoreDatabase_def bnd_def catch_fs_def on_disk_apply remove_all_def v_def [symmetric] backup_dir_def [symmetric]
  show ?thesis
  proof (cases "name_base s m")
    case None
    let ?s' = "(add_base m d' s)\<lparr>sys_vol := v3\<rparr>"
    have "push_base m d' (s\<lparr>sys_vol := v3\<rparr>) = (Inr (), ?s')"
      using push_base_new [of "s\<lparr>sys_vol := v3\<rparr>" m d'] None by (simp add: add_base_def)
    then have "restoreDatabase b m s = (Inr (), ?s')"
      using ch None es rm r(1,2) d'(1) by (cases "find_node (root v) ?rp = None") (simp_all add: steps)
    moreover have "wf_sys ?s'"
      using add_base_spec [OF f(1), of m v3 d'] None assms(3,4) r(4) d'(3-5) by (simp add: v_def add_base_def flushed_def)
    moreover have "database_at ?s' n i e" if "database_at (add_base m d' s) n i e" for n i e
      using that by (simp add: database_at_def)
    ultimately show ?thesis using d'(2) database_add by blast
  next
    case (Some i)
    let ?s' = "(set_base i d' s)\<lparr>sys_vol := v3\<rparr>"
    obtain d0 where d0: "database_at s m i d0" using wf_sys_name [OF assms(1) Some] by blast
    have "restoreDatabase b m s = (Inr (), ?s')"
      using ch Some es rm r(1,2) d'(1) by (cases "find_node (root v) ?rp = None") (simp_all add: steps set_base_def)
    moreover have "wf_sys ?s'"
      using set_base_spec [OF f(1), of m i d0 v3 d'] d0 r(4) d'(3-5) by (simp add: v_def set_base_def flushed_def database_at_def)
    moreover have "database_at ?s' m i d'" using d0 by (simp add: database_at_def set_base_def)
    moreover have "database_at ?s' n j e" if "database_at s n j e" "n \<noteq> m" for n j e
    proof -
      have "j \<noteq> i" by (rule databases_differ [OF assms(1) that(1) d0 that(2)])
      then show ?thesis using that by (simp add: database_at_def set_base_def)
    qed
    ultimately show ?thesis using d'(2) by blast
  qed
qed

end
