(* ===== verification/Create_Table.thy ===== *)
theory Create_Table
  imports System_Operations
begin

text \<open>
  A table definition as a client writes it, and what \<^verbatim>\<open>DataBase::createTable\<close> and
  \<^verbatim>\<open>System::createTable\<close> make of it.
\<close>

section \<open>The words of a definition\<close>

definition type_word :: "Type \<times> nat \<Rightarrow> string" where
  "type_word tz = (if fst tz = STRING then ''STRING['' @ to_string (snd tz) @ '']'' else typeToString (fst tz))"

definition def_words :: "(string \<times> Type \<times> nat) list \<Rightarrow> string list" where
  "def_words ds = concat (map (\<lambda>(n, tz). [n, type_word tz]) ds)"

lemma def_words_simps [simp]: "def_words [] = []" "def_words ((n, tz) # ds) = n # type_word tz # def_words ds"
  by (simp_all add: def_words_def)

lemma word_tok_append: "word_tok a \<Longrightarrow> word_tok b \<Longrightarrow> word_tok (a @ b)"
  by (auto simp: word_tok_def)

lemma word_tok_type_word: "word_tok (type_word tz)"
proof -
  have "word_tok ''STRING[''" "word_tok '']''" by (simp_all add: word_tok_def is_space_def)
  then have "word_tok (''STRING['' @ to_string (snd tz) @ '']'')" by (intro word_tok_append word_tok_to_string)
  then show ?thesis by (simp add: type_word_def)
qed

lemma parse_type_word:
  assumes "z < SIZE_MOD" and "t \<noteq> STRING \<longrightarrow> z = type_sizes t"
  shows "parse_column_type (type_word (t, z)) = Inr (t, z)"
proof (cases "t = STRING")
  case True
  have "take (length (''STRING['' @ to_string z @ '']'') - 8) (drop 7 (''STRING['' @ to_string z @ '']'')) = to_string z"
    by simp
  then show ?thesis
    using True stoul_to_string [OF assms(1)]
    by (simp add: parse_column_type_def type_word_def starts_with_def)
next
  case False
  have "\<not> starts_with ''STRING['' (typeToString t)" by (cases t) (simp_all add: starts_with_def)
  then show ?thesis using False assms(2) by (simp add: parse_column_type_def type_word_def)
qed

lemma read_definitions_words:
  assumes "\<forall>(n, t, z)\<in>set ds. word_tok n \<and> z < SIZE_MOD \<and> (t \<noteq> STRING \<longrightarrow> z = type_sizes t)"
  shows "read_definitions (istr_of (blanks (def_words ds))) name ty acc = Inr (acc @ ds)"
  using assms
proof (induction ds arbitrary: name ty acc)
  case Nil
  then show ?case by (subst read_definitions.simps) (simp add: read_str_end read_str_bad)
next
  case (Cons d ds)
  obtain n t z where d: "d = (n, t, z)" by (cases d) auto
  then have n: "word_tok n" "z < SIZE_MOD" "t \<noteq> STRING \<longrightarrow> z = type_sizes t" using Cons.prems by simp_all
  have "read_str (istr_of (blanks (def_words (d # ds)))) name = (True, n, istr_of (blanks (type_word (t, z) # def_words ds)))"
    using read_str_blanks [OF n(1)] by (simp add: d del: blanks_simps)
  moreover have "read_str (istr_of (blanks (type_word (t, z) # def_words ds))) ty = (True, type_word (t, z), istr_of (blanks (def_words ds)))"
    by (rule read_str_blanks [OF word_tok_type_word])
  moreover have "read_definitions (istr_of (blanks (def_words ds))) n (type_word (t, z)) (acc @ [d]) = Inr (acc @ d # ds)"
    using Cons.IH [of n "type_word (t, z)" "acc @ [d]"] Cons.prems by simp
  ultimately show ?case using parse_type_word [OF n(2,3)] by (subst read_definitions.simps) (simp add: d)
qed

text \<open>A definition whose table the engine can store within the limits of the volume.\<close>

definition table_definition :: "volume \<Rightarrow> (string \<times> Type \<times> nat) list \<Rightarrow> bool" where
  "table_definition v ds \<longleftrightarrow> wf_definition ds \<and> (\<forall>(n, t, z)\<in>set ds. t \<noteq> VOIDA \<and> (t = STRING \<longrightarrow> 0 < z)) \<and>
     100 * (1 + total_size ds) \<le> vol_max_file v \<and> 100 * (1 + total_size ds) \<le> vol_max_map v \<and> vol_max_file v < 2 ^ 63"

lemma column_size_bound: "(n, t, z) \<in> set ds \<Longrightarrow> z \<le> total_size ds"
  by (induction ds) (auto simp: total_size_def)

lemma parse_definition_words:
  assumes "table_definition v ds" and "word_tok tn" and "valid_name tn" and "\<not> existing tn"
  shows "parse_definition existing (istr_of (blanks (tn # def_words ds))) = Inr (tn, ds)"
proof -
  have "\<forall>(n, t, z)\<in>set ds. word_tok n \<and> z < SIZE_MOD \<and> (t \<noteq> STRING \<longrightarrow> z = type_sizes t)"
    using assms(1) column_size_bound [of _ _ _ ds]
    by (fastforce simp: table_definition_def wf_definition_def storable_def)
  then show ?thesis
    using assms read_definitions_words [of ds "[]" "[]" "[]"] read_str_blanks [OF assms(2), of "def_words ds" "[]"]
    by (simp add: parse_definition_def table_definition_def wf_definition_def del: blanks_simps)
qed

section \<open>CREATE TABLE\<close>

text \<open>A table that is added to a database together with its directory.\<close>

lemma wf_base_insertTabble:
  assumes "sound_base v d" and "dir_names es = map fst (tabbles_name d)"
    and "\<forall>(n, i)\<in>set (tabbles_name d). table_dir es n (tabbles d ! i) (f i)"
    and "find_node (root v') (absoluteWay d) = Some (DirN (es @ [(tn, DirN fs)]))" and "limits v' = limits v"
    and "tn \<notin> fst ` set es" and "sound_table v t" and "table_dir [(tn, DirN fs)] tn t bs"
  shows "wf_base v' (insertTabble t tn d)"
proof -
  let ?d = "insertTabble t tn d" and ?n = "length (tabbles d)" and ?es = "es @ [(tn, DirN fs)]"
  have "tn \<notin> set (dir_names es)" using assms(6) by (auto simp: dir_names_def)
  then have new: "tn \<notin> fst ` set (tabbles_name d)" using assms(2) by (metis set_map)
  then have d: "absoluteWay ?d = absoluteWay d" "tabbles ?d = tabbles d @ [t]" "tabbles_name ?d = tabbles_name d @ [(tn, ?n)]"
    by (simp_all add: insertTabble_def map_of_eq_None_iff)
  have "sound_base v ?d" using assms(1,7) new by (auto simp: sound_base_def d)
  moreover have "table_dir ?es n (tabbles ?d ! i) ((f(?n := bs)) i)" if "(n, i) \<in> set (tabbles_name ?d)" for n i
  proof (cases "(n, i) \<in> set (tabbles_name d)")
    case True
    then have "n \<noteq> tn" "i < ?n" using new sound_base_db [OF assms(1)] by (force, auto simp: wf_db_def)
    then show ?thesis using True assms(3) by (fastforce simp: d nth_append table_dir_def map_add_def split: option.splits)
  next
    case False
    then have "n = tn" "i = ?n" using that by (simp_all add: d)
    moreover have "map_of es tn = None" using assms(6) by (simp add: map_of_eq_None_iff)
    ultimately show ?thesis using assms(8) by (auto simp: d table_dir_def map_add_def)
  qed
  moreover have "dir_names ?es = map fst (tabbles_name ?d)" using assms(2) by (simp add: d dir_names_def)
  ultimately have "base_dir v' (absoluteWay ?d) ?d (f(?n := bs))"
    using assms(4) unfolding base_dir_def d(1) by blast
  then show ?thesis using \<open>sound_base v ?d\<close> assms(5) sound_base_cong [of v' v ?d] by (auto simp: wf_base_def)
qed

text \<open>The directory of a database with a new directory \<open>tn\<close> that has the files \<open>fs\<close>.\<close>

definition with_table_dir :: "volume \<Rightarrow> path \<Rightarrow> (string \<times> node) list \<Rightarrow> string \<Rightarrow> (string \<times> node) list \<Rightarrow> volume" where
  "with_table_dir v way es tn fs = v\<lparr>root := put_node (root v) way (DirN (es @ [(tn, DirN fs)]))\<rparr>"

lemma with_table_dir:
  assumes "find_node (root v) way = Some (DirN es)" and "way \<noteq> []" and "tn \<notin> fst ` set es"
  shows "create_directory (way @ [tn]) v = (Inr True, with_table_dir v way es tn [])"
    and "x \<notin> fst ` set fs \<Longrightarrow> write_file (way @ [tn, x]) bs (with_table_dir v way es tn fs) =
       (Inr (), with_table_dir v way es tn (fs @ [(x, FileN bs)]))"
    and "find_node (root (with_table_dir v way es tn fs)) (way @ [tn, x]) = map_of fs x"
    and "wf_node (DirN fs) \<Longrightarrow> changes_below way v (with_table_dir v way es tn fs)"
    and "find_node (root (with_table_dir v way es tn fs)) way = Some (DirN (es @ [(tn, DirN fs)]))"
proof -
  note ch = put_child [OF assms]
  have at: "find_node (root (with_table_dir v way es tn fs)) (way @ [tn]) = Some (DirN fs)" for fs
    using ch(3) [of "DirN (es @ [(tn, DirN fs)])" "[tn]"]
      find_in_entries [of "DirN (es @ [(tn, DirN fs)])" "[]" es tn "DirN fs" "[]"] assms(3) by (simp add: with_table_dir_def)
  show "create_directory (way @ [tn]) v = (Inr True, with_table_dir v way es tn [])"
    using find_no_entry [OF assms(1,3)] assms(1) ch(1) by (simp add: create_directory_def parent_ok_def with_table_dir_def)
  show inside: "find_node (root (with_table_dir v way es tn fs)) (way @ [tn, x]) = map_of fs x" for fs x
    using at [of fs] find_node_append [of _ "way @ [tn]" "[x]"] by (simp split: option.splits)
  show "write_file (way @ [tn, x]) bs (with_table_dir v way es tn fs) =
       (Inr (), with_table_dir v way es tn (fs @ [(x, FileN bs)]))" if "x \<notin> fst ` set fs" for x
  proof -
    have "put_node (root (with_table_dir v way es tn fs)) (way @ [tn, x]) (FileN bs) =
        root (with_table_dir v way es tn (fs @ [(x, FileN bs)]))"
      using put_child(1) [OF at _ that, of "FileN bs"] ch(2) [of "DirN fs" "DirN (fs @ [(x, FileN bs)])"] by (simp add: with_table_dir_def)
    moreover have "map_of fs x = None" using that by (simp add: map_of_eq_None_iff)
    ultimately show ?thesis
      using at [of fs] inside [of fs x] by (simp add: write_file_def parent_ok_def butlast_append) (simp add: with_table_dir_def)
  qed
  show "changes_below way v (with_table_dir v way es tn fs)" if "wf_node (DirN fs)"
    using changes_below_up [OF changes_below_put [OF that, of "way @ [tn]" v]] ch(1) by (simp add: with_table_dir_def)
  show "find_node (root (with_table_dir v way es tn fs)) way = Some (DirN (es @ [(tn, DirN fs)]))"
    using ch(3) [of _ "[]"] by (simp add: with_table_dir_def)
qed

lemma createTable_spec:
  assumes "wf_base v d" and "table_definition v ds" and "word_tok tn" and "valid_name tn"
    and "find_node (root v) (absoluteWay d @ [tn]) = None" and "absoluteWay d \<noteq> []"
  shows "\<exists>v' t. createTable (istr_of (blanks (tn # def_words ds))) \<lparr>vol = v, base = d\<rparr> =
       (Inr (), \<lparr>vol = v', base = insertTabble t tn d\<rparr>) \<and> wf_base v' (insertTabble t tn d) \<and>
     changes_below (absoluteWay d) v v' \<and> map_of (tabbles_name d) tn = None \<and> info t = info_of ds \<and> rows t = Map.empty \<and>
     freeId t = 0 \<and> storage t = blank_map (1 + total_size ds) (vol_max_file v) (vol_max_map v)"
proof -
  let ?way = "absoluteWay d" and ?i = "makeLoaderName tn" and ?s = "makeStorageName tn"
  obtain es f where es: "find_node (root v) ?way = Some (DirN es)" "dir_names es = map fst (tabbles_name d)"
    "\<forall>(n, i)\<in>set (tabbles_name d). table_dir es n (tabbles d ! i) (f i)" "sound_base v d"
    using assms(1) by (auto simp: wf_base_def base_dir_def)
  have tn: "tn \<notin> fst ` set es" using assms(5) es(1) by (auto simp: find_node_append map_of_eq_None_iff split: option.splits)
  then have "tn \<notin> set (dir_names es)" by (auto simp: dir_names_def)
  then have none: "map_of (tabbles_name d) tn = None" using es(2) by (metis map_of_eq_None_iff set_map)
  let ?fs = "[(?i, FileN (info_text ds)), (?s, FileN [])]"
  let ?v = "with_table_dir v ?way es tn ?fs"
  note dir = with_table_dir [OF es(1) assms(6) tn]
  have below: "changes_below ?way v ?v" using loader_not_storage [of tn] by (simp add: dir(4))
  have df: "wf_definition ds" "\<forall>(n, t, z)\<in>set ds. t \<noteq> VOIDA \<and> (t = STRING \<longrightarrow> 0 < z)"
    "100 * (1 + total_size ds) \<le> vol_max_file v" "100 * (1 + total_size ds) \<le> vol_max_map v" "vol_max_file v < 2 ^ 63"
    using assms(2) by (simp_all add: table_definition_def)
  obtain t where t: "new_Tabble (path_str ?v (table_path d tn)) (Some (info_text ds)) (Some []) (vol_max_file v) (vol_max_map v) = Inr t"
    "wf_table t" "info t = info_of ds" "rows t = Map.empty" "storage t = blank_map (1 + total_size ds) (vol_max_file v) (vol_max_map v)"
    "freeId t = 0" using new_table_opens [OF df] by blast
  let ?d = "insertTabble t tn d"
  have o: "openTabble tn \<lparr>vol = ?v, base = d\<rparr> = (Inr True, \<lparr>vol = ?v, base = ?d\<rparr>)"
  proof -
    have "read_file ?v (info_path d tn) = Some (info_text ds)" "open_file (storage_path d tn) ?v = (Inr (Some []), ?v)"
      using dir(3) [of ?fs] loader_not_storage [of tn]
      by (simp_all add: read_file_def open_file_def info_path_def storage_path_def)
    moreover have "\<exists>l. new_InfoLoader (Some (info_text ds)) = Inr l" using t(1) by (auto simp: new_Tabble_def bindE_eq_Inr)
    moreover have "vol_max_file ?v = vol_max_file v" "vol_max_map ?v = vol_max_map v" by (simp_all add: with_table_dir_def)
    ultimately show ?thesis using t(1) by (auto simp: openTabble_def bnd_def on_vol_def zoom_def)
  qed
  have "parse_definition (\<lambda>n. map_of (tabbles_name d) n \<noteq> None) (istr_of (blanks (tn # def_words ds))) = Inr (tn, ds)"
    using parse_definition_words [OF assms(2-4), of "\<lambda>n. map_of (tabbles_name d) n \<noteq> None"] none by simp
  then have c: "createTable (istr_of (blanks (tn # def_words ds))) \<lparr>vol = v, base = d\<rparr> = (Inr (), \<lparr>vol = ?v, base = ?d\<rparr>)"
    using o dir(1) dir(2) [of ?i "[]"] dir(2) [of ?s "[(?i, FileN (info_text ds))]"] loader_not_storage [of tn]
    by (simp add: createTable_def bnd_def on_vol_def zoom_def info_path_def storage_path_def del: blanks_simps)
  have "sound_table v t" using t(2,5) by (simp add: sound_table_def blank_map_def)
  moreover have "table_dir [(tn, DirN ?fs)] tn t []"
    using df(1) t(3) loader_not_storage [of tn] by (auto simp: table_dir_def)
  ultimately have "wf_base ?v ?d"
    using wf_base_insertTabble [OF es(4,2,3) dir(5) _ tn] by (simp add: with_table_dir_def)
  then show ?thesis using c below none t(3-6) by blast
qed

lemma system_createTable_spec:
  assumes "wf_sys s" and "database_at s n i d" and "word_tok n" and "table_definition (sys_vol s) ds"
    and "word_tok tn" and "valid_name tn" and "find_node (root (sys_vol s)) (absoluteWay d @ [tn]) = None"
  shows "\<exists>s' t. sys_createTable (istr_of (blanks (n # tn # def_words ds))) s = (Inr (), s') \<and> wf_sys s' \<and>
     database_at s' n i (insertTabble t tn d) \<and> map_of (tabbles_name d) tn = None \<and> info t = info_of ds \<and>
     rows t = Map.empty \<and> freeId t = 0 \<and>
     storage t = blank_map (1 + total_size ds) (vol_max_file (sys_vol s)) (vol_max_map (sys_vol s)) \<and>
     (\<forall>m j e. database_at s m j e \<and> m \<noteq> n \<longrightarrow> database_at s' m j e)"
proof -
  have d: "i < length (bases s)" "bases s ! i = Some d" "dataBaseName d = n" "name_base s n = Some i"
    using assms(2) wf_sys_at [OF assms(1,2)] by (simp_all add: database_at_def)
  note w = wf_sysD [OF assms(1) d(1,2)]
  obtain v' t where c: "createTable (istr_of (blanks (tn # def_words ds))) \<lparr>vol = sys_vol s, base = d\<rparr> =
       (Inr (), \<lparr>vol = v', base = insertTabble t tn d\<rparr>)" "wf_base v' (insertTabble t tn d)"
    "changes_below (absoluteWay d) (sys_vol s) v'" "map_of (tabbles_name d) tn = None" "info t = info_of ds" "rows t = Map.empty" "freeId t = 0"
    "storage t = blank_map (1 + total_size ds) (vol_max_file (sys_vol s)) (vol_max_map (sys_vol s))"
    using createTable_spec [OF w(1) assms(4-7)] w(2) by auto
  let ?s = "(set_base i (insertTabble t tn d) s)\<lparr>sys_vol := v'\<rparr>"
  have "sys_createTable (istr_of (blanks (n # tn # def_words ds))) s = (Inr (), ?s)"
    using read_str_blanks [OF assms(3), of "tn # def_words ds" "[]"] d c(1)
    by (simp add: sys_createTable_def at_map_def at_bases_def set_base_def del: blanks_simps)
  moreover have "wf_sys ?s"
    using set_base_spec [OF assms(1,2), of v'] c(2,3) w(2) d(3) by (simp add: insertTabble_def)
  moreover have "database_at ?s n i (insertTabble t tn d)" using d by (simp add: database_at_def set_base_def)
  moreover have "database_at ?s m j e" if "database_at s m j e" "m \<noteq> n" for m j e
  proof -
    have "j \<noteq> i" by (rule databases_differ [OF assms(1) that(1) assms(2) that(2)])
    then show ?thesis using that by (simp add: database_at_def set_base_def)
  qed
  ultimately show ?thesis using c(4-8) by blast
qed

end
