(* ===== verification/Schema.thy ===== *)
theory Schema
  imports Requests
begin

text \<open>
  What no request can change, whatever its text is and whether it succeeds or not: the descriptions of
  the tables, their names, and the layout and limits of their storage; the storage never shrinks. The
  locale \<open>kept\<close> has the frame rules for operations that only move along a preorder of states; it is
  interpreted on the storage, on tables and on the state of the executor.
\<close>

section \<open>Frame rules\<close>

locale kept =
  fixes R :: "'s \<Rightarrow> 's \<Rightarrow> bool"
  assumes kept_refl: "R s s" and kept_trans: "R s s' \<Longrightarrow> R s' s'' \<Longrightarrow> R s s''"
begin

definition keeps :: "('s, 'a) act \<Rightarrow> bool" where
  "keeps m \<longleftrightarrow> (\<forall>s. R s (snd (m s)))"

lemma keepsI: "(\<And>s. R s (snd (m s))) \<Longrightarrow> keeps m"
  by (simp add: keeps_def)

lemma keepsD: "keeps m \<Longrightarrow> R s (snd (m s))"
  by (simp add: keeps_def)

lemma keeps_ret: "keeps (ret x)"
  by (simp add: keeps_def kept_refl)

lemma keeps_throw: "keeps (throw e)"
  by (simp add: keeps_def kept_refl)

lemma keeps_reads: "keeps (reads f)"
  by (simp add: keeps_def kept_refl)

lemma keeps_bnd:
  assumes "keeps m" and "\<And>x. keeps (f x)"
  shows "keeps (bnd m f)"
proof (rule keepsI)
  fix s
  obtain r s' where m: "m s = (r, s')" by (cases "m s")
  have "R s s'" using keepsD [OF assms(1), of s] m by simp
  moreover have "R s' (snd (f x s'))" for x by (rule keepsD [OF assms(2)])
  ultimately show "R s (snd (bnd m f s))" using kept_trans by (cases r) (auto simp: bnd_def m)
qed

lemma keeps_catch_std:
  assumes "keeps m" and "\<And>e. keeps (h e)"
  shows "keeps (catch_std m h)"
proof (rule keepsI)
  fix s
  obtain r s' where m: "m s = (r, s')" by (cases "m s")
  have "R s s'" using keepsD [OF assms(1), of s] m by simp
  moreover have "R s' (snd (h e s'))" for e by (rule keepsD [OF assms(2)])
  ultimately show "R s (snd (catch_std m h s))" using kept_trans by (cases r) (auto simp: catch_std_def m)
qed

lemma keeps_if: "(b \<Longrightarrow> keeps m) \<Longrightarrow> (\<not> b \<Longrightarrow> keeps m') \<Longrightarrow> keeps (if b then m else m')"
  by simp

lemma keeps_seq_all: "(\<And>m. m \<in> set ms \<Longrightarrow> keeps m) \<Longrightarrow> keeps (seq_all ms)"
  by (induction ms) (auto intro: keeps_ret keeps_bnd)

lemma keeps_prod: "(\<And>a b. p = (a, b) \<Longrightarrow> keeps (f a b)) \<Longrightarrow> keeps (case p of (a, b) \<Rightarrow> f a b)"
  by (cases p) simp

lemmas keeps_intros = keeps_ret keeps_throw keeps_reads keeps_bnd keeps_catch_std keeps_if keeps_seq_all keeps_prod

end

section \<open>Storage\<close>

definition grows :: "memory_map \<Rightarrow> memory_map \<Rightarrow> bool" where
  "grows m m' \<longleftrightarrow> lineLength m' = lineLength m \<and> max_file m' = max_file m \<and> max_map m' = max_map m \<and>
     (max_file m < 2 ^ 63 \<and> fileSize m \<le> max_file m \<longrightarrow> fileSize m \<le> fileSize m' \<and> fileSize m' \<le> max_file m)"

interpretation st: kept grows
  by unfold_locales (auto simp: grows_def)

lemma st_expandFile: "st.keeps expandFile"
  by (rule st.keepsI) (auto simp: expandFile_def grows_def Let_def size_mul_def)

lemma st_expand: "st.keeps expand"
proof (rule st.keepsI)
  fix m
  have "grows (m\<lparr>expanding := True\<rparr>) (snd (expandFile (m\<lparr>expanding := True\<rparr>)))" by (rule st.keepsD [OF st_expandFile])
  then show "grows m (snd (expand m))"
    by (cases "expandFile (m\<lparr>expanding := True\<rparr>)")
      (auto simp: expand_def grows_def split: sum.splits)
qed

lemma st_memcpy_to: "st.keeps (memcpy_to l off bs)"
  by (rule st.keepsI) (auto simp: memcpy_to_def grows_def split: option.splits)

lemma st_core_write: "st.keeps (core_writeText l off t)" "st.keeps (core_writeNumber l off bs)"
  using st.keepsD [OF st_memcpy_to]
  by (auto intro!: st.keepsI simp: core_writeText_def core_writeNumber_def st.kept_refl)

lemma st_grow_for: "st.keeps (grow_for l)"
  unfolding grow_for_def by (intro st.keeps_intros st_expand)

lemma st_writeInfo: "st.keeps (writeInfo l off v)"
  unfolding writeInfo_def writeText_def writeNumber_def
  by (cases v) (simp_all add: st.keeps_bnd st_grow_for st_core_write)

section \<open>Tables\<close>

definition table_kept :: "table \<Rightarrow> table \<Rightarrow> bool" where
  "table_kept t t' \<longleftrightarrow> info t' = info t \<and> baseName t' = baseName t \<and> grows (storage t) (storage t')"

interpretation tb: kept table_kept
  by unfold_locales (auto simp: table_kept_def st.kept_refl intro: st.kept_trans)

lemma tb_on_storage: "st.keeps m \<Longrightarrow> tb.keeps (on_storage m)"
  using st.keepsD [of m]
  by (auto intro!: tb.keepsI simp: on_storage_def zoom_def table_kept_def split: prod.splits) (metis snd_conv)

lemma tb_modify:
  "(\<And>t. info (f t) = info t \<and> baseName (f t) = baseName t \<and> storage (f t) = storage t) \<Longrightarrow> tb.keeps (modify f)"
  by (rule tb.keepsI) (simp add: table_kept_def st.kept_refl)

lemma tb_allocateId: "tb.keeps allocateId"
proof (rule tb.keepsI)
  fix t :: table
  let ?m = "bnd (reads (\<lambda>t. getMaxLines (storage t))) (\<lambda>maxLines.
           bnd (if maxLines \<le> freeId t then on_storage (bnd expand (\<lambda>_. ret ())) else ret ()) (\<lambda>_.
           bnd (modify (\<lambda>t. t\<lparr>activePlaces := size_add (activePlaces t) 1, freeId := size_add (freeId t) 1\<rparr>)) (\<lambda>_.
           ret (freeId t))))"
  have "tb.keeps ?m"
    by (intro tb.keeps_intros tb_on_storage st.keeps_intros st_expand tb_modify) simp_all
  then show "table_kept t (snd (allocateId t))"
    using tb.keepsD [of ?m t]
    by (cases "stack_freeId t") (simp_all add: allocateId_def Let_def table_kept_def st.kept_refl)
qed

lemma tb_update_loop: "tb.keeps (update_loop vs cs cur k)"
  by (induction cs arbitrary: k) (auto intro!: tb.keeps_intros tb_on_storage st_writeInfo)

lemma tb_rows: "tb.keeps (insert_row vs cs k)" "tb.keeps (erase l)" "tb.keeps (update vs cs l k)"
  unfolding insert_row_def erase_def update_def pushInStack_def activate_def deactivate_def
  by (intro tb.keeps_intros tb_allocateId tb_on_storage st_core_write tb_update_loop tb_modify; simp)+

section \<open>The executor\<close>

definition exec_kept :: "exec \<Rightarrow> exec \<Rightarrow> bool" where
  "exec_kept s s' \<longleftrightarrow> table_kept (etable s) (etable s')"

interpretation ex: kept exec_kept
  by unfold_locales (auto simp: exec_kept_def tb.kept_refl intro: tb.kept_trans)

lemma ex_on_table: "tb.keeps m \<Longrightarrow> ex.keeps (on_table m)"
  using tb.keepsD [of m]
  by (auto intro!: ex.keepsI simp: on_table_def zoom_def exec_kept_def split: prod.splits) (metis snd_conv)

lemma ex_on_result: "ex.keeps (on_result f)"
  by (rule ex.keepsI) (simp add: on_result_def exec_kept_def tb.kept_refl)

lemma ex_push: "ex.keeps (push_body row)" "ex.keeps (push_column h ty)"
  by (simp_all add: push_body_def push_column_def ex_on_result)

lemma ex_scan:
  assumes "\<And>i. ex.keeps (work i)"
  shows "ex.keeps (scan work cs mx cnt i)"
proof (rule ex.keepsI)
  fix s
  show "exec_kept s (snd (scan work cs mx cnt i s))"
  proof (induction "mx - i" arbitrary: i s)
    case 0
    then show ?case by (subst scan.simps) (simp add: ex.kept_refl)
  next
    case (Suc n)
    let ?m = "bnd (reads (\<lambda>s. row_matches (etable s) cs i)) (\<lambda>b. if b then work i else ret ())"
    have "ex.keeps ?m" by (intro ex.keeps_intros assms)
    then have m: "exec_kept s (snd (?m s))" by (rule ex.keepsD)
    have "n = mx - Suc i" using Suc(2) by simp
    then have ih: "exec_kept (snd (?m s)) (snd (scan work cs mx cnt (Suc i) (snd (?m s))))" by (rule Suc(1))
    show ?case
      using m ex.kept_trans [OF m ih]
      by (subst scan.simps) (auto simp: ex.kept_refl split: prod.splits sum.splits)
  qed
qed

lemma ex_insert_loop: "ex.keeps (insert_loop vs i)"
proof (rule ex.keepsI)
  fix s
  show "exec_kept s (snd (insert_loop vs i s))"
  proof (induction vs i s rule: insert_loop.induct)
    case (1 vs i s)
    let ?m = "bnd (on_table (insert_row vs (columns (info (etable s))) i)) (\<lambda>n. push_body [VInt64 (of_nat n)])"
    have "ex.keeps ?m" by (intro ex.keeps_intros ex_on_table tb_rows ex_push)
    then have m: "exec_kept s (snd (?m s))" by (rule ex.keepsD)
    show ?case
      by (subst insert_loop.simps)
        (use m 1 ex.kept_trans [OF m] in \<open>auto simp: Let_def ex.kept_refl split: prod.splits sum.splits\<close>)
  qed
qed

lemma ex_execute: "ex.keeps (execute q)"
  by (cases q)
    (auto simp: executeSelect_def executeInsert_def executeDelete_def executeUpdate_def select_row_def delete_row_def
       update_row_def intro!: ex.keeps_intros ex_on_result ex_push ex_scan ex_insert_loop ex_on_table tb_rows)

section \<open>Requests\<close>

text \<open>
  What is left of a database by any request: the same names and places, and every table but the one the
  request is about as it was.
\<close>

definition base_kept :: "DataBase \<Rightarrow> DataBase \<Rightarrow> bool" where
  "base_kept d d' \<longleftrightarrow> absoluteWay d' = absoluteWay d \<and> dataBaseName d' = dataBaseName d \<and> tabbles_name d' = tabbles_name d \<and>
     list_all2 table_kept (tabbles d) (tabbles d')"

lemma execute_query_kept:
  "base_kept (fst dr) (fst (snd (execute_query q dr))) \<and>
   (\<forall>j. query_ptr q \<noteq> Some j \<longrightarrow> tabbles (fst (snd (execute_query q dr))) ! j = tabbles (fst dr) ! j)"
proof -
  have refl: "base_kept d d" for d by (simp add: base_kept_def tb.kept_refl list_all2_refl)
  show ?thesis
  proof (cases "query_ptr q")
    case None
    then show ?thesis by (simp add: execute_query_def refl)
  next
    case (Some i)
    let ?s = "\<lparr>etable = tabbles (fst dr) ! i, eresult = snd dr\<rparr>"
    have "table_kept (etable ?s) (etable (snd (execute q ?s)))" using ex.keepsD [OF ex_execute] unfolding exec_kept_def by blast
    then show ?thesis
      using Some refl
      by (cases "execute q ?s")
        (auto simp: execute_query_def base_kept_def tb.kept_refl list_all2_conv_all_nth nth_list_update)
  qed
qed

lemma operator_execute_kept: "base_kept d (snd (operator_execute command d))"
proof -
  have refl: "base_kept d d" by (simp add: base_kept_def tb.kept_refl list_all2_refl)
  show ?thesis
  proof (cases "bindE (parse command) (optimizing d)")
    case (Inl e)
    then show ?thesis using refl by (simp add: operator_execute_def bnd_def)
  next
    case (Inr q)
    then show ?thesis
      using execute_query_kept [of "(d, new_Result)" q]
      by (auto simp: operator_execute_def bnd_def split: prod.splits sum.splits)
  qed
qed

text \<open>
  (C25) No request changes the schema, whatever its text is and whether it succeeds, fails or is undefined: the
  database has the same tables with the same names, places, columns and line lengths.
\<close>

theorem requests_keep_schema:
  "tabbles_name (snd (operator_execute command d)) = tabbles_name d \<and>
   map info (tabbles (snd (operator_execute command d))) = map info (tabbles d) \<and>
   map baseName (tabbles (snd (operator_execute command d))) = map baseName (tabbles d) \<and>
   map (\<lambda>t. lineLength (storage t)) (tabbles (snd (operator_execute command d))) = map (\<lambda>t. lineLength (storage t)) (tabbles d)"
  using operator_execute_kept [of d command]
  by (auto simp: base_kept_def table_kept_def grows_def list_all2_conv_all_nth intro!: nth_equalityI)

end
