(* ===== verification/System_Invariant.thy ===== *)
theory System_Invariant
  imports Create_Table Schema
begin

text \<open>
  The operations of \<^verbatim>\<open>src/src/system/system.h\<close> as steps of the system of databases. Creating,
  dropping and backing up keep the system consistent whatever the arguments are; restoring does if the
  backup holds a database, and creating a table if the definition is one the engine can store.
\<close>

section \<open>Every branch\<close>

lemma create_cases:
  assumes "wf_sys s"
  shows "(\<exists>e. createDataBase n s = (Inl e, s)) \<or>
     (\<exists>v' d. createDataBase n s = (Inr (), (add_base n d s)\<lparr>sys_vol := v'\<rparr>) \<and> wf_sys ((add_base n d s)\<lparr>sys_vol := v'\<rparr>))"
proof (cases "valid_name n \<and> plain_name n \<and> find_node (root (sys_vol s)) (abosolutePath s @ [n]) = None")
  case True
  then show ?thesis using create_spec [OF assms] by blast
next
  case False
  have "\<exists>p. child (abosolutePath s) n = Inr p \<and> find_node (root (sys_vol s)) p \<noteq> None" if v: "valid_name n"
  proof (cases "plain_name n")
    case True
    then show ?thesis using False v child_plain by auto
  next
    case False
    then have "n = ''.'' \<or> n = ''..''" using valid_plain [OF v] by blast
    moreover have "find_node (root (sys_vol s)) (abosolutePath s) \<noteq> None" using data_dir [OF assms] by (auto simp: is_dir_iff)
    moreover have "find_node (root (sys_vol s)) (butlast (abosolutePath s)) \<noteq> None"
      using parent_dir [OF \<open>find_node _ (abosolutePath s) \<noteq> None\<close>] assms by (auto simp: wf_sys_def is_dir_iff)
    ultimately show ?thesis by (auto simp: child_def)
  qed
  then show ?thesis by (auto simp: createDataBase_def valid_not_forbidden bnd_def)
qed

lemma drop_cases:
  assumes "wf_sys s"
  shows "(\<exists>e. deleteDatabase n s = (Inl e, s)) \<or> (\<exists>i s'. deleteDatabase n s = (Inr i, s') \<and> wf_sys s')"
proof (cases "name_base s n")
  case None
  then show ?thesis by (auto simp: deleteDatabase_def bnd_def at_map_def rethrow_as_Inl)
next
  case (Some i)
  then show ?thesis using drop_spec [OF assms] wf_sys_name [OF assms Some] by blast
qed

lemma backup_target:
  assumes "wf_sys s" and "valid_name b" and "\<not> plain_name b"
  shows "\<exists>p. child (backup_dir s) b = Inr p \<and> is_dir (find_node (root (sys_vol s)) p)"
proof -
  have "b = ''.'' \<or> b = ''..''" using valid_plain [OF assms(2)] assms(3) by blast
  then show ?thesis using wf_sys_backup [OF assms(1)] data_dir [OF assms(1)] by (auto simp: child_def backup_dir_def)
qed

lemma backup_cases:
  assumes "wf_sys s"
  shows "\<exists>r s'. backUpDatabase n b s = (r, s') \<and> wf_sys s'"
proof (cases "\<exists>i d. database_at s n i d \<and> valid_name b \<and> plain_name b \<and>
    find_node (root (sys_vol s)) (backup_dir s @ [b]) = None")
  case True
  then show ?thesis using backup_spec [OF assms] by blast
next
  case new: False
  let ?s = "flushed s"
  have w: "wf_sys ?s" by (rule flushed_spec(1) [OF assms])
  consider (name) "name_base s n = None" | (bad) "name_base s n \<noteq> None" "\<not> valid_name b"
    | (there) "name_base s n \<noteq> None" "valid_name b"
    by blast
  then have "\<exists>e. backUpDatabase n b s = (Inl e, ?s)"
  proof cases
    case there
    then obtain i d where d: "database_at s n i d" "dataBaseName d = n" using wf_sys_name [OF assms] by blast
    have p: "plain_name n" "absoluteWay d = abosolutePath s @ [n]"
      using d wf_sysD(2,3) [OF assms, of i d] by (auto simp: database_at_def)
    have dir: "is_dir (find_node (root (sys_vol ?s)) (abosolutePath s @ [n]))"
      using flushed_spec(3) [OF assms d(1)] p(2) by (auto simp: holds_def base_dir_def)
    obtain q where q: "child (backup_dir s) b = Inr q" "find_node (root (sys_vol ?s)) q \<noteq> None"
    proof (cases "plain_name b")
      case True
      then have "find_node (root (sys_vol s)) (backup_dir s @ [b]) \<noteq> None" using new d(1) there(2) by metis
      then show ?thesis
        using that [OF child_plain [OF True]] flushed_spec(4) [OF assms backup_not_a_base [OF assms], of "[b]"]
        by (simp add: backup_dir_def)
    next
      case False
      then obtain q where "child (backup_dir ?s) b = Inr q" "is_dir (find_node (root (sys_vol ?s)) q)"
        using backup_target [OF w there(2)] by blast
      then show ?thesis using that by (auto simp: is_dir_iff)
    qed
    then have "create_directory q (sys_vol ?s) = (Inr False, sys_vol ?s) \<or> (\<exists>e. create_directory q (sys_vol ?s) = (Inl e, sys_vol ?s))"
      by (simp add: create_directory_def)
    moreover have "?s\<lparr>sys_vol := sys_vol ?s\<rparr> = ?s" by simp
    ultimately show ?thesis
      using there dir q(1) child_plain [OF p(1), of "abosolutePath s"]
      by (auto simp: backUpDatabase_def bnd_def valid_not_forbidden on_disk_apply backup_dir_def simp del: flushed_vol)
  qed (auto simp: backUpDatabase_def bnd_def valid_not_forbidden)
  then show ?thesis using w by blast
qed

section \<open>Requests\<close>

text \<open>A request that leaves the tables well-formed leaves the database in agreement with its directory.\<close>

lemma table_kept_sound: "table_kept t t' \<Longrightarrow> sound_table v t \<Longrightarrow> wf_table t' \<Longrightarrow> sound_table v t'"
  by (auto simp: sound_table_def table_kept_def grows_def wf_table_def wf_but_def wf_map_def)

lemma wf_base_kept:
  assumes "wf_base v d" and "base_kept d d'" and "\<forall>t\<in>set (tabbles d'). wf_table t"
  shows "wf_base v d'"
proof -
  have d: "absoluteWay d' = absoluteWay d" "tabbles_name d' = tabbles_name d" "length (tabbles d') = length (tabbles d)"
    "\<And>i. i < length (tabbles d) \<Longrightarrow> table_kept (tabbles d ! i) (tabbles d' ! i)"
    using assms(2) by (auto simp: base_kept_def list_all2_conv_all_nth)
  have so: "sound_base v d" using assms(1) by (simp add: wf_base_def)
  have "sound_table v t" if "t \<in> set (tabbles d')" for t
  proof -
    obtain i where "i < length (tabbles d)" "t = tabbles d' ! i" using \<open>t \<in> set (tabbles d')\<close> d(3) by (metis in_set_conv_nth)
    then show ?thesis using table_kept_sound [OF d(4), of i v] so assms(3) d(3) by (auto simp: sound_base_def)
  qed
  then have "sound_base v d'" using so d by (simp add: sound_base_def)
  moreover have "info (tabbles d' ! i) = info (tabbles d ! i)" if "(n, i) \<in> set (tabbles_name d)" for n i
    using d(4) [of i] sound_base_db [OF so] that by (auto simp: wf_db_def table_kept_def)
  then have "base_dir v (absoluteWay d) d f \<Longrightarrow> base_dir v (absoluteWay d') d' f" for f
    unfolding base_dir_def d(1,2) by (fastforce simp: table_dir_def)
  ultimately show ?thesis using assms(1) by (auto simp: wf_base_def)
qed

lemma set_base_same_vol:
  assumes "wf_sys s" and "database_at s n i d" and "base_kept d d'" and "\<forall>t\<in>set (tabbles d'). wf_table t"
  shows "wf_sys (set_base i d' s)"
proof -
  have d: "i < length (bases s)" "bases s ! i = Some d" "dataBaseName d = n"
    using assms(2) wf_sys_at [OF assms(1,2)] by (simp_all add: database_at_def)
  note w = wf_sysD [OF assms(1) d(1,2)]
  have "wf_sys ((set_base i d' s)\<lparr>sys_vol := sys_vol s\<rparr>)"
    using set_base_spec [OF assms(1,2) changes_below_refl wf_base_kept [OF w(1) assms(3,4)]] assms(3) w(2) d(3)
    by (simp add: base_kept_def)
  then show ?thesis by (simp add: set_base_def)
qed

section \<open>Administration\<close>

text \<open>A backup from which a database can be restored.\<close>

definition restorable :: "System \<Rightarrow> string \<Rightarrow> DataBase \<Rightarrow> bool" where
  "restorable s b d \<longleftrightarrow> plain_name b \<and> holds (sys_vol s) (backup_dir s @ [b]) d \<and> sound_base (sys_vol s) d \<and> openable d"

inductive administers :: "System \<Rightarrow> System \<Rightarrow> bool" where
  creates: "createDataBase n s = (r, s') \<Longrightarrow> administers s s'"
| drops: "deleteDatabase n s = (r, s') \<Longrightarrow> administers s s'"
| backs_up: "backUpDatabase n b s = (r, s') \<Longrightarrow> administers s s'"
| restores: "restorable s b d \<Longrightarrow> plain_name m \<Longrightarrow> m \<noteq> backUpName \<Longrightarrow> restoreDatabase b m s = (r, s') \<Longrightarrow> administers s s'"
| makes_table: "database_at s n i d \<Longrightarrow> word_tok n \<Longrightarrow> table_definition (sys_vol s) ds \<Longrightarrow> word_tok tn \<Longrightarrow> valid_name tn \<Longrightarrow>
    find_node (root (sys_vol s)) (absoluteWay d @ [tn]) = None \<Longrightarrow>
    sys_createTable (istr_of (blanks (n # tn # def_words ds))) s = (r, s') \<Longrightarrow> administers s s'"
| queries: "database_at s n i d \<Longrightarrow> operator_execute command d = (r, d') \<Longrightarrow> \<forall>t\<in>set (tabbles d'). wf_table t \<Longrightarrow>
    administers s (set_base i d' s)"

lemma administers_wf: "administers s s' \<Longrightarrow> wf_sys s \<Longrightarrow> wf_sys s'"
proof (induction rule: administers.induct)
  case (creates n s r s')
  then show ?case using create_cases [of s n] by auto
next
  case (drops n s r s')
  then show ?case using drop_cases [of s n] by auto
next
  case (backs_up n b s r s')
  then show ?case using backup_cases [of s n b] by auto
next
  case (restores s b d m r s')
  then show ?case using restore_spec [of s b m d] by (auto simp: restorable_def)
next
  case (makes_table s n i d ds tn r s')
  then show ?case using system_createTable_spec [of s n i d ds tn] by auto
next
  case (queries s n i d command r d')
  then have "base_kept d d'" using operator_execute_kept [of d command] by simp
  then show ?case using set_base_same_vol [OF queries.prems queries.hyps(1)] queries.hyps(3) by blast
qed

section \<open>The first start\<close>

text \<open>On an empty data directory the system makes the database \<^verbatim>\<open>default\<close> and the directory for backups.\<close>

lemma first_start:
  assumes "find_node (root v) p = Some (DirN [])" and "p \<noteq> []" and "wf_node (root v)"
  shows "\<exists>s d. new_System p v = Inr s \<and> wf_sys s \<and> abosolutePath s = p \<and> name_base s = [''default'' \<mapsto> 0] \<and>
     database_at s ''default'' 0 d \<and> tabbles d = [] \<and> tabbles_name d = [] \<and>
     find_node (root (sys_vol s)) (absoluteWay d) = Some (DirN []) \<and> limits (sys_vol s) = limits v \<and>
     find_node (root (sys_vol s)) (backup_dir s) = Some (DirN [])"
proof -
  let ?dp = "p @ [''default'']" and ?bp = "p @ [backUpName]"
  let ?v1 = "v\<lparr>root := put_node (root v) ?dp (DirN [])\<rparr>"
  let ?v2 = "?v1\<lparr>root := put_node (root ?v1) ?bp (DirN [])\<rparr>"
  let ?d = "\<lparr>absoluteWay = ?dp, dataBaseName = ''default'', tabbles = [], tabbles_name = []\<rparr>"
  let ?s = "\<lparr>abosolutePath = p, sys_vol = ?v2, bases = [Some ?d], name_base = [''default'' \<mapsto> 0]\<rparr>"
  have d1: "find_node (root ?v1) ?dp = Some (DirN [])" using assms(1) by (simp add: find_put_same)
  have p1: "put_node (root v) ?dp (DirN []) = put_node (root v) p (DirN [(''default'', DirN [])])"
    using put_node_snoc [OF assms(1)] by simp
  have e1: "find_node (root ?v1) p = Some (DirN [(''default'', DirN [])])"
    using p1 assms(1,2) find_put_same [of p "root v"] parent_dir [of "root v" p] by simp
  have n1: "find_node (root ?v1) ?bp = None" using e1 by (simp add: find_node_append backUpName_def)
  have ap: "apart_paths ?bp ?dp" by (rule apart_children) (simp add: backUpName_def)
  have d2: "find_node (root ?v2) ?dp = Some (DirN [])" using d1 find_put_apart [OF ap] by simp
  have b2: "find_node (root ?v2) ?bp = Some (DirN [])" using e1 by (simp add: find_put_same)
  have n0: "find_node (root v) ?dp = None" "create_directory ?dp v = (Inr True, ?v1)" "create_directory ?bp ?v1 = (Inr True, ?v2)"
    using assms(1) e1 n1 by (simp_all add: find_node_append create_directory_def parent_ok_def)
  have ch: "child p ''default'' = Inr ?dp" by (simp add: child_def)
  have "new_System p v = Inr ?s"
    using assms(1) n0 ch empty_base [OF d1, of "''default''"]
    by (simp add: new_System_def loadFoldersAndOpenBases_def bnd_def createDataBase_def has_forbidden_def forbidden_chars_def
        on_disk_apply push_base_def del: limits_put)
  moreover have "wf_sys ?s"
  proof (rule wf_sysI)
    show "wf_node (root (sys_vol ?s))" using assms(3) by (simp add: wf_put)
    show "is_dir (find_node (root (sys_vol ?s)) (backup_dir ?s))" using b2 by (simp add: backup_dir_def)
    have b: "i < length (bases ?s) \<Longrightarrow> bases ?s ! i = Some d \<Longrightarrow> i = 0 \<and> d = ?d" for i d by (cases i) auto
    show "wf_base (sys_vol ?s) d" if "i < length (bases ?s)" "bases ?s ! i = Some d" for i d
      using b [OF that] d2 by (simp add: wf_base_def sound_base_def base_dir_def dir_names_def)
    show "absoluteWay d = abosolutePath ?s @ [dataBaseName d] \<and> plain_name (dataBaseName d) \<and>
        dataBaseName d \<noteq> backUpName \<and> name_base ?s (dataBaseName d) = Some i"
      if "i < length (bases ?s)" "bases ?s ! i = Some d" for i d
      using b [OF that] by (simp add: plain_name_def backUpName_def)
    show "\<exists>d. database_at ?s n i d \<and> dataBaseName d = n" if "name_base ?s n = Some i" for n i
      using that by (auto simp: database_at_def split: if_splits)
  qed (use assms(2) in simp)
  moreover have "database_at ?s ''default'' 0 ?d" by (simp add: database_at_def)
  ultimately show ?thesis using b2 d2 by (intro exI [of _ ?s] exI [of _ ?d]) (simp add: backup_dir_def)
qed

end
