(* ===== verification/Sample_System.thy ===== *)
theory Sample_System
  imports System_Invariant Sample
begin

text \<open>
  A system that has been started on an empty data directory, with the table \<open>people\<close> of theory
  \<open>Sample\<close> created in the database \<^verbatim>\<open>default\<close> and two rows inserted: the input at which the
  theorems on systems are instantiated.
\<close>

definition sample_volume :: volume where
  "sample_volume = \<lparr>vol_base = [], root = DirN [(''data'', DirN [])], vol_max_file = 100000, vol_max_map = 100000\<rparr>"

lemma sample_started:
  "\<exists>s d. new_System [''data''] sample_volume = Inr s \<and> wf_sys s \<and> abosolutePath s = [''data''] \<and>
     name_base s = [''default'' \<mapsto> 0] \<and> database_at s ''default'' 0 d \<and> tabbles d = [] \<and> tabbles_name d = [] \<and>
     find_node (root (sys_vol s)) (absoluteWay d) = Some (DirN []) \<and> limits (sys_vol s) = limits sample_volume \<and>
     find_node (root (sys_vol s)) (backup_dir s) = Some (DirN [])"
  using first_start [of sample_volume "[''data'']"] by (simp add: sample_volume_def)

lemma sample_table_definition: "limits v = limits sample_volume \<Longrightarrow> table_definition v sample_defs"
  using wf_sample_defs storable_sample
  by (simp add: table_definition_def total_sample limits_def sample_volume_def)

lemma valid_people: "valid_name ''people''" "word_tok ''default''" "plain_name ''default''"
  by (simp_all add: valid_name_def forbidden_chars_def word_tok_def is_space_def plain_name_def)

lemma sample_with_table:
  "\<exists>s d t. wf_sys s \<and> abosolutePath s = [''data''] \<and> name_base s = [''default'' \<mapsto> 0] \<and> database_at s ''default'' 0 d \<and>
     tabbles d = [t] \<and> tabbles_name d = [(''people'', 0)] \<and> info t = sample_info \<and> rows t = Map.empty \<and> room t 2 \<and>
     storage t = blank_map 13 100000 100000 \<and> find_node (root (sys_vol s)) (backup_dir s) = Some (DirN [])"
proof -
  obtain s d where s: "wf_sys s" "abosolutePath s = [''data'']" "name_base s = [''default'' \<mapsto> 0]" "database_at s ''default'' 0 d"
    "tabbles d = []" "tabbles_name d = []" "find_node (root (sys_vol s)) (absoluteWay d) = Some (DirN [])"
    "limits (sys_vol s) = limits sample_volume" "find_node (root (sys_vol s)) (backup_dir s) = Some (DirN [])"
    using sample_started by blast
  have "absoluteWay d = [''data'', ''default'']"
    using wf_sysD(2) [OF s(1), of 0 d] wf_sys_at [OF s(1,4)] s(2,4) by (simp add: database_at_def)
  then have w: "absoluteWay d = [''data'', ''default'']" "absoluteWay d \<noteq> []" by simp_all
  have wb: "wf_base (sys_vol s) d" using wf_sysD(1) [OF s(1), of 0 d] s(4) by (simp add: database_at_def)
  have none: "find_node (root (sys_vol s)) (absoluteWay d @ [''people'']) = None" using s(7) by (simp add: find_node_append)
  have df: "table_definition (sys_vol s) sample_defs" by (rule sample_table_definition [OF s(8)])
  obtain v' t where c: "createTable (istr_of (blanks (''people'' # def_words sample_defs))) \<lparr>vol = sys_vol s, base = d\<rparr> =
       (Inr (), \<lparr>vol = v', base = insertTabble t ''people'' d\<rparr>)" "wf_base v' (insertTabble t ''people'' d)"
    "changes_below (absoluteWay d) (sys_vol s) v'" "info t = info_of sample_defs" "rows t = Map.empty" "freeId t = 0"
    "storage t = blank_map (1 + total_size sample_defs) (vol_max_file (sys_vol s)) (vol_max_map (sys_vol s))"
    using createTable_spec [OF wb df sample_words(2) valid_people(1) none w(2)] by blast
  let ?d = "insertTabble t ''people'' d"
  let ?s = "(set_base 0 ?d s)\<lparr>sys_vol := v'\<rparr>"
  have "wf_sys ?s"
    using set_base_spec [OF s(1,4), of v' ?d] c(2,3) w(1) s(2) wf_sys_at [OF s(1,4)] by (simp add: insertTabble_def)
  moreover have "find_node (root v') (backup_dir s) = Some (DirN [])"
    using backup_dir_kept [OF s(1), of "''default''" v' "[]"] c(3) w(1) s(2,9) by (simp add: backUpName_def)
  moreover have "room t 2" "storage t = blank_map 13 100000 100000"
    using c(6,7) s(8) by (simp_all add: room_def total_sample limits_def sample_volume_def blank_map_def)
  moreover have "database_at ?s ''default'' 0 ?d" using s(4) by (simp add: database_at_def set_base_def)
  ultimately show ?thesis
    using s(2,3,5,6) c(4,5)
    by (intro exI [of _ ?s] exI [of _ ?d] exI [of _ t]) (simp add: insertTabble_def set_base_def backup_dir_def sample_info_def)
qed

text \<open>Ann, who is 30, and Bob, who is 20.\<close>

lemma sample_system:
  "\<exists>s d t i j. wf_sys s \<and> abosolutePath s = [''data''] \<and> name_base s = [''default'' \<mapsto> 0] \<and> database_at s ''default'' 0 d \<and>
     openable d \<and> table_at d ''people'' 0 t \<and> wf_table t \<and> info t = sample_info \<and> i \<noteq> j \<and>
     rows t = [i \<mapsto> [VString ''Ann'', VInt32 30], j \<mapsto> [VString ''Bob'', VInt32 20]] \<and>
     find_node (root (sys_vol s)) (backup_dir s) = Some (DirN [])"
proof -
  obtain s d t where s: "wf_sys s" "abosolutePath s = [''data'']" "name_base s = [''default'' \<mapsto> 0]" "database_at s ''default'' 0 d"
    "tabbles d = [t]" "tabbles_name d = [(''people'', 0)]" "info t = sample_info" "rows t = Map.empty" "room t 2"
    "storage t = blank_map 13 100000 100000" "find_node (root (sys_vol s)) (backup_dir s) = Some (DirN [])"
    using sample_with_table by blast
  have at: "table_at d ''people'' 0 t" by (simp add: table_at_def s(5,6))
  have db: "wf_db d" using wf_sysD(1) [OF s(1), of 0 d] s(4) sound_base_db by (auto simp: database_at_def wf_base_def)
  obtain "is" r t' where i: "operator_execute (show_insert ''people'' [''Ann'', ''30'', ''Bob'', ''20'']) d = (Inr r, set_table 0 t' d)"
    "length is = 2" "distinct is" "wf_table t'" "info t' = info t"
    "rows t' = rows t ++ map_of (zip is [[VString ''Ann'', VInt32 30], [VString ''Bob'', VInt32 20]])"
    using insert_request [OF db at sample_words(2,1), of 2 "[VString (str_resize 8 ''Ann''), VInt32 30, VString (str_resize 8 ''Bob''), VInt32 20]"]
      sample_values sample_rows_of s(7,9) by auto
  then obtain a b where ab: "is = [a, b]" "a \<noteq> b" by (auto simp: numeral_2_eq_2 length_Suc_conv)
  have r: "rows t' = [a \<mapsto> [VString ''Ann'', VInt32 30], b \<mapsto> [VString ''Bob'', VInt32 20]]"
    using i(6) ab s(8) by (auto simp: fun_eq_iff)
  let ?d = "set_table 0 t' d"
  have k: "base_kept d ?d" using operator_execute_kept [of d] i(1) by (metis snd_conv)
  have ts: "tabbles ?d = [t']" using s(5) by (simp add: set_table_def)
  have "wf_sys (set_base 0 ?d s)" using set_base_same_vol [OF s(1,4) k] i(4) ts by simp
  moreover have "openable ?d"
  proof -
    have "grows (storage t) (storage t')" using k s(5) ts by (simp add: base_kept_def table_kept_def)
    then have g: "lineLength (storage t') = 13" "1300 \<le> fileSize (storage t')" using s(10) by (simp_all add: grows_def blank_map_def)
    then have "100 \<le> max_line (storage t')" using div_le_mono [of 1300 "fileSize (storage t')" 13] by (simp add: max_line_def)
    moreover have "active (storage t') = dom (rows t')" using dom_rows [of "{}" t'] i(4) by (simp add: wf_table_def)
    then have "card (active (storage t')) = 2" using r ab(2) by simp
    moreover have "full (storage t') \<Longrightarrow> card (active (storage t')) = max_line (storage t')" by (metis card_lessThan full_def)
    ultimately have "\<not> full (storage t')" by linarith
    then show ?thesis using ts by (simp add: openable_def)
  qed
  moreover have "database_at (set_base 0 ?d s) ''default'' 0 ?d" using s(4) by (simp add: database_at_def set_base_def)
  moreover have "table_at ?d ''people'' 0 t'" using table_at_set_table(1) [OF at] .
  ultimately show ?thesis
    using s(2,3,7,11) i(4,5) r ab(2)
    by (intro exI [of _ "set_base 0 ?d s"] exI [of _ ?d] exI [of _ t'] exI [of _ a] exI [of _ b])
      (simp add: set_base_def backup_dir_def)
qed

end
