(* ===== verification/Json.thy ===== *)
theory Json
  imports Executor
begin

text \<open>
  \<^verbatim>\<open>Result::to_json\<close> of \<^verbatim>\<open>src/src/result/Result.h\<close>: the value that is sent to a client. A
  value of Boost.JSON is modelled by its kinds; \<open>JFloat w\<close> is the number of kind double that has the
  value of the single-precision number \<open>w\<close>. And \<^verbatim>\<open>Result::print\<close>, which lays a result out
  for the console; the decimal form of floating-point numbers is an argument.
\<close>

section \<open>On the console\<close>

text \<open>\<^verbatim>\<open>std::setw(15)\<close> fills with blanks on the left.\<close>

definition setw :: "nat \<Rightarrow> string \<Rightarrow> string" where
  "setw n s = replicate (n - length s) (CHR '' '') @ s"

definition show_int :: "int \<Rightarrow> string" where
  "show_int i = (if i < 0 then CHR ''-'' # to_string (nat (- i)) else to_string (nat i))"

fun show_cell :: "(64 word \<Rightarrow> string) \<Rightarrow> (32 word \<Rightarrow> string) \<Rightarrow> variant_types \<Rightarrow> string" where
  "show_cell dbl flt (VInt32 w) = show_int (sint w)"
| "show_cell dbl flt (VInt64 w) = show_int (sint w)"
| "show_cell dbl flt (VDouble w) = dbl w"
| "show_cell dbl flt (VFloat w) = flt w"
| "show_cell dbl flt (VBool b) = (if b then ''1'' else ''0'')"
| "show_cell dbl flt (VString s) = s"

definition endl :: string where
  "endl = [CHR 0x0A]"

definition print_line :: "string list \<Rightarrow> string" where
  "print_line cols = ''| '' @ concat (map (\<lambda>c. setw 15 c @ '' | '') cols) @ endl"

definition print_titles :: "string list \<Rightarrow> string" where
  "print_titles cols = (if cols = [] then []
     else print_line cols @ ''+'' @ concat (map (\<lambda>c. replicate 17 (CHR ''-'') @ ''+'') cols) @ endl)"

definition print_result :: "(64 word \<Rightarrow> string) \<Rightarrow> (32 word \<Rightarrow> string) \<Rightarrow> Result \<Rightarrow> string" where
  "print_result dbl flt r =
     (if \<not> isSucces r then ''Error: '' @ error r @ endl
      else (if messeage r = [] then [] else ''Message: '' @ messeage r @ endl) @
        print_titles (header r) @ print_titles (types r) @
        concat (map (\<lambda>row. print_line (map (show_cell dbl flt) row)) (body r)) @
        ''Total rows: '' @ to_string (length (body r)) @ endl)"

text \<open>The columns line up as long as no cell is wider than 15 characters.\<close>

lemma length_print_line:
  "\<forall>c\<in>set cols. length c \<le> 15 \<Longrightarrow> length (print_line cols) = 3 + 18 * length cols"
  by (induction cols) (simp_all add: print_line_def setw_def endl_def)

section \<open>JSON\<close>

datatype json =
    JObject "(string \<times> json) list"
  | JArray "json list"
  | JString string
  | JBool bool
  | JInt64 "64 word"
  | JUint64 nat
  | JDouble "64 word"
  | JFloat "32 word"
  | JNull

text \<open>\<^verbatim>\<open>boost::json::value_from\<close> of a cell: small integers become wide ones.\<close>

fun value_from :: "variant_types \<Rightarrow> json" where
  "value_from (VInt32 w) = JInt64 (scast w)"
| "value_from (VInt64 w) = JInt64 w"
| "value_from (VDouble w) = JDouble w"
| "value_from (VFloat w) = JFloat w"
| "value_from (VBool b) = JBool b"
| "value_from (VString s) = JString s"

definition to_json :: "Result \<Rightarrow> json" where
  "to_json r =
     (if \<not> isSucces r then JObject [(''success'', JBool False), (''error'', JString (error r))]
      else JObject
        ([(''success'', JBool True)] @
         (if messeage r \<noteq> [] then [(''message'', JString (messeage r))] else []) @
         (if header r \<noteq> [] then [(''headers'', JArray (map JString (header r)))] else []) @
         (if types r \<noteq> [] then [(''types'', JArray (map JString (types r)))] else []) @
         (if body r \<noteq> [] then [(''data'', JArray (map (\<lambda>row. JArray (map value_from row)) (body r)))] else []) @
         [(''total_rows'', JUint64 (length (body r)))]))"

section \<open>What a client can read back\<close>

text \<open>A reader for the values above, and what it makes of a cell.\<close>

fun read_cell :: "json \<Rightarrow> variant_types option" where
  "read_cell (JInt64 w) = Some (VInt64 w)"
| "read_cell (JDouble w) = Some (VDouble w)"
| "read_cell (JFloat w) = Some (VFloat w)"
| "read_cell (JBool b) = Some (VBool b)"
| "read_cell (JString s) = Some (VString s)"
| "read_cell _ = None"

fun wide :: "variant_types \<Rightarrow> variant_types" where
  "wide (VInt32 w) = VInt64 (scast w)"
| "wide v = v"

fun read_string :: "json \<Rightarrow> string option" where
  "read_string (JString s) = Some s"
| "read_string _ = None"

fun read_array :: "(json \<Rightarrow> 'a option) \<Rightarrow> json \<Rightarrow> 'a list option" where
  "read_array f (JArray js) = those (map f js)"
| "read_array f _ = None"

text \<open>A field that is left out stands for the default.\<close>

definition read_field :: "(string \<times> json) list \<Rightarrow> string \<Rightarrow> 'a \<Rightarrow> (json \<Rightarrow> 'a option) \<Rightarrow> 'a option" where
  "read_field fs name dflt f = (case map_of fs name of None \<Rightarrow> Some dflt | Some j \<Rightarrow> f j)"

fun read_result :: "json \<Rightarrow> Result option" where
  "read_result (JObject fs) =
     (case (map_of fs ''success'', read_field fs ''message'' [] read_string, read_field fs ''headers'' [] (read_array read_string),
            read_field fs ''types'' [] (read_array read_string), read_field fs ''error'' [] read_string,
            read_field fs ''data'' [] (read_array (read_array read_cell))) of
        (Some (JBool ok), Some m, Some h, Some t, Some e, Some b) \<Rightarrow>
          Some \<lparr>isSucces = ok, header = h, types = t, messeage = m, error = e, body = b\<rparr>
      | _ \<Rightarrow> None)"
| "read_result _ = None"

text \<open>What is left of a result: an error, or everything but the error, with wide integers.\<close>

definition sent :: "Result \<Rightarrow> Result" where
  "sent r = (if isSucces r then r\<lparr>error := [], body := map (map wide) (body r)\<rparr>
             else new_Result\<lparr>error := error r\<rparr>)"

lemma those_map: "those (map (\<lambda>x. Some (g x)) xs) = Some (map g xs)"
  by (induction xs) simp_all

lemma read_cell_value_from: "read_cell (value_from v) = Some (wide v)"
  by (cases v) simp_all

lemma read_strings: "read_array read_string (JArray (map JString xs)) = Some xs"
  using those_map [of "\<lambda>x. x" xs] by (simp add: comp_def)

lemma read_rows:
  "read_array (read_array read_cell) (JArray (map (\<lambda>row. JArray (map value_from row)) rs)) = Some (map (map wide) rs)"
  by (simp add: comp_def read_cell_value_from those_map)

lemma read_result_to_json: "read_result (to_json r) = Some (sent r)"
  by (auto simp: to_json_def sent_def read_field_def read_strings read_rows new_Result_def simp del: read_array.simps)

text \<open>
  The object a client receives determines the result: an answer that failed is read back with its
  error message and nothing else, one that succeeded with its message, headers, types and rows.
\<close>

theorem answer_is_read_back: "read_result (to_json r) = Some (sent r)"
  by (rule read_result_to_json)

end
