(* ===== verification/Connection.thy ===== *)
theory Connection
  imports Json
begin

text \<open>
  \<^verbatim>\<open>src/src/clients/Base.h\<close> (the same class is in \<^verbatim>\<open>src/include/SQLid_API.h\<close>): a connection
  and the framing of messages, eight bytes of length in the machine's order and then the text. The socket
  is modelled by what TCP makes of it: the bytes arrive in segments, in order, until the peer closes; what
  is written is accepted until the connection breaks. \<^verbatim>\<open>boost::asio::read\<close> and
  \<^verbatim>\<open>boost::asio::write\<close> go on until the buffer is full or empty, \<^verbatim>\<open>read_some\<close> and
  \<^verbatim>\<open>write_some\<close> make one step. The serializer and the parser of Boost.JSON are arguments.
\<close>

section \<open>Sockets\<close>

datatype error_code = Eof | BrokenPipe | JsonSyntax | BadDescriptor

text \<open>What leaves a function as an exception.\<close>

datatype failure = SystemError error_code | BadAlloc

record connection =
  incoming :: "char list list"  \<comment> \<open>the segments to come, then the end of the stream\<close>
  outgoing :: "char list"
  budget :: nat  \<comment> \<open>how many bytes can be written before the connection breaks\<close>
  window :: nat  \<comment> \<open>how many bytes one step of writing takes at most\<close>

definition push_back_segment :: "char list \<Rightarrow> char list list \<Rightarrow> char list list" where
  "push_back_segment bs segs = (if bs = [] then segs else bs # segs)"

fun take_bytes :: "nat \<Rightarrow> char list list \<Rightarrow> char list \<times> char list list" where
  "take_bytes n [] = ([], [])"
| "take_bytes n (seg # segs) =
     (if n \<le> length seg then (take n seg, push_back_segment (drop n seg) segs)
      else case take_bytes (n - length seg) segs of (bs, rest) \<Rightarrow> (seg @ bs, rest))"

definition asio_read :: "nat \<Rightarrow> connection \<Rightarrow> error_code option \<times> char list \<times> connection" where
  "asio_read n c = (case take_bytes n (incoming c) of
       (bs, rest) \<Rightarrow> (if length bs < n then Some Eof else None, bs, c\<lparr>incoming := rest\<rparr>))"

definition read_some :: "nat \<Rightarrow> connection \<Rightarrow> error_code option \<times> char list \<times> connection" where
  "read_some n c = (case incoming c of
       [] \<Rightarrow> (Some Eof, [], c)
     | seg # segs \<Rightarrow> (None, take n seg, c\<lparr>incoming := push_back_segment (drop n seg) segs\<rparr>))"

definition asio_write :: "char list \<Rightarrow> connection \<Rightarrow> error_code option \<times> connection" where
  "asio_write bs c =
     (if length bs \<le> budget c then (None, c\<lparr>outgoing := outgoing c @ bs, budget := budget c - length bs\<rparr>)
      else (Some BrokenPipe, c\<lparr>outgoing := outgoing c @ take (budget c) bs, budget := 0\<rparr>))"

definition write_some :: "char list \<Rightarrow> connection \<Rightarrow> error_code option \<times> connection" where
  "write_some bs c = asio_write (take (window c) bs) c"

section \<open>BaseConnection\<close>

text \<open>\<^verbatim>\<open>readNumber\<close> overwrites as many bytes of the number as have arrived.\<close>

definition readNumber :: "nat \<Rightarrow> connection \<Rightarrow> error_code option \<times> nat \<times> connection" where
  "readNumber num c = (case read_some 8 c of
       (e, bs, c') \<Rightarrow> (e, le_nat (bs @ drop (length bs) (le_bytes 8 num)), c'))"

definition sendNumber :: "nat \<Rightarrow> connection \<Rightarrow> error_code option \<times> connection" where
  "sendNumber num = write_some (le_bytes 8 num)"

text \<open>\<^verbatim>\<open>readText\<close> fills a string that has the right size already.\<close>

definition conn_readText :: "string \<Rightarrow> connection \<Rightarrow> error_code option \<times> string \<times> connection" where
  "conn_readText buf c = (case asio_read (length buf) c of
       (e, bs, c') \<Rightarrow> (e, bs @ drop (length bs) buf, c'))"

definition sendText :: "string \<Rightarrow> connection \<Rightarrow> error_code option \<times> connection" where
  "sendText message = asio_write message"

definition send_json :: "(json \<Rightarrow> string) \<Rightarrow> json \<Rightarrow> connection \<Rightarrow> error_code option \<times> connection" where
  "send_json serialize j c =
     (let json_str = serialize j in
      case asio_write (le_bytes 8 (length json_str)) c of
        (Some e, c') \<Rightarrow> (Some e, c')
      | (None, c') \<Rightarrow> asio_write json_str c')"

text \<open>
  The length is read by the overload that throws, and the buffer for the text may not be had: \<open>mem\<close> is
  the greatest size a buffer or a string can get. An error code is returned, as the other functions do; an
  exception is the left result.
\<close>

definition read_json ::
    "(string \<Rightarrow> json option) \<Rightarrow> nat \<Rightarrow> json \<Rightarrow> connection \<Rightarrow> (failure + error_code option \<times> json) \<times> connection" where
  "read_json parse_json mem j0 c =
     (case asio_read 8 c of
        (Some e, bs, c') \<Rightarrow> (Inl (SystemError e), c')
      | (None, bs, c') \<Rightarrow>
          if mem < le_nat bs then (Inl BadAlloc, c')
          else (case asio_read (le_nat bs) c' of
             (Some e, txt, c'') \<Rightarrow> (Inr (Some e, j0), c'')
           | (None, txt, c'') \<Rightarrow> (case parse_json txt of
                 None \<Rightarrow> (Inr (Some JsonSyntax, JNull), c'') | Some j \<Rightarrow> (Inr (None, j), c''))))"

section \<open>Framing\<close>

definition frame :: "string \<Rightarrow> char list" where
  "frame t = le_bytes 8 (length t) @ t"

lemma le_nat_le_bytes_8: "n < SIZE_MOD \<Longrightarrow> le_nat (le_bytes 8 n) = n"
  using le_nat_le_bytes [of 8 n] by simp

lemma take_bytes_spec:
  "take_bytes n segs = (bs, rest) \<Longrightarrow> bs = take n (concat segs) \<and> concat rest = drop n (concat segs)"
proof (induction n segs arbitrary: bs rest rule: take_bytes.induct)
  case (2 n seg segs)
  then show ?case by (auto simp: push_back_segment_def split: if_splits prod.splits)
qed simp

text \<open>Reading a whole text, however it is cut into segments.\<close>

lemma asio_read_text:
  assumes "concat (incoming c) = t @ u"
  shows "\<exists>rest. asio_read (length t) c = (None, t, c\<lparr>incoming := rest\<rparr>) \<and> concat rest = u"
proof (cases "take_bytes (length t) (incoming c)")
  case (Pair bs rest)
  then show ?thesis using take_bytes_spec [OF Pair] assms by (intro exI [of _ rest]) (simp add: asio_read_def)
qed

lemma asio_read_end:
  assumes "concat (incoming c) = []" and "0 < n"
  shows "\<exists>rest. asio_read n c = (Some Eof, [], c\<lparr>incoming := rest\<rparr>)"
proof (cases "take_bytes n (incoming c)")
  case (Pair bs rest)
  then have "bs = []" using take_bytes_spec [OF Pair] unfolding assms(1) by simp
  then show ?thesis using Pair assms(2) by (intro exI [of _ rest]) (simp add: asio_read_def)
qed

lemma send_json_ok:
  "length (frame (serialize j)) \<le> budget c \<Longrightarrow>
   send_json serialize j c = (None, c\<lparr>outgoing := outgoing c @ frame (serialize j),
     budget := budget c - length (frame (serialize j))\<rparr>)"
  by (simp add: send_json_def asio_write_def frame_def Let_def)

lemma read_sent_json:
  assumes "send_json serialize j c = (None, c')" and "outgoing c = []"
    and "concat (incoming d) = outgoing c' @ u" and "parse_json (serialize j) = Some j" and "length (serialize j) < SIZE_MOD" and "length (serialize j) \<le> mem"
  shows "\<exists>rest. read_json parse_json mem j0 d = (Inr (None, j), d\<lparr>incoming := rest\<rparr>) \<and> concat rest = u"
proof -
  have "outgoing c' = frame (serialize j)"
    using assms(1,2) by (auto simp: send_json_def asio_write_def frame_def Let_def split: if_splits)
  then have in1: "concat (incoming d) = le_bytes 8 (length (serialize j)) @ serialize j @ u"
    using assms(3) by (simp add: frame_def)
  obtain r1 where r1: "asio_read 8 d = (None, le_bytes 8 (length (serialize j)), d\<lparr>incoming := r1\<rparr>)" "concat r1 = serialize j @ u"
    using asio_read_text [OF in1] by auto
  obtain r2 where "asio_read (length (serialize j)) (d\<lparr>incoming := r1\<rparr>) = (None, serialize j, d\<lparr>incoming := r2\<rparr>)" "concat r2 = u"
    using asio_read_text [of "d\<lparr>incoming := r1\<rparr>" "serialize j" u] r1(2) by auto
  then show ?thesis using r1(1) assms(4-6) by (intro exI [of _ r2]) (simp add: read_json_def le_nat_le_bytes_8)
qed

text \<open>
  A value that is sent arrives, however the network cuts the bytes: \<^verbatim>\<open>read_json\<close> on what
  \<^verbatim>\<open>send_json\<close> has written gives the value back and leaves the bytes after it alone.
\<close>

theorem json_message_roundtrip:
  assumes "send_json serialize j c = (None, c')" and "outgoing c = []"
    and "concat (incoming d) = outgoing c' @ u" and "parse_json (serialize j) = Some j" and "length (serialize j) < SIZE_MOD" and "length (serialize j) \<le> mem"
  shows "\<exists>rest. read_json parse_json mem j0 d = (Inr (None, j), d\<lparr>incoming := rest\<rparr>) \<and> concat rest = u"
  using assms by (rule read_sent_json)

theorem json_message_roundtrip_witness:
  "\<exists>rest. read_json (\<lambda>t. Some (JBool True)) 100 (JBool False)
       \<lparr>incoming = [frame ''true'', ''x''], outgoing = [], budget = 0, window = 1\<rparr> =
     (Inr (None, JBool True), \<lparr>incoming = rest, outgoing = [], budget = 0, window = 1\<rparr>) \<and> concat rest = ''x''"
proof -
  let ?c = "\<lparr>incoming = [], outgoing = [], budget = 100, window = 1\<rparr>"
  let ?d = "\<lparr>incoming = [frame ''true'', ''x''], outgoing = [], budget = 0, window = 1\<rparr>"
  have "send_json (\<lambda>j. ''true'') (JBool True) ?c = (None, ?c\<lparr>outgoing := frame ''true'', budget := 88\<rparr>)"
    by (simp add: send_json_ok frame_def)
  then show ?thesis
    using json_message_roundtrip [OF \<open>send_json _ _ _ = _\<close>, of ?d "''x''" "\<lambda>t. Some (JBool True)" 100 "JBool False"] by simp
qed

text \<open>
  The length of a request is read with \<^verbatim>\<open>read_some\<close>: when only its first byte has arrived, the
  other bytes keep what was there, so a text of 256 bytes or more is taken for a shorter one, and the rest
  of its length stays in the stream as if it were text.
\<close>

theorem split_length_is_misread:
  assumes "256 \<le> length t" and "length t < SIZE_MOD" and "incoming c = [take 1 (frame t), drop 1 (frame t)]"
  shows "readNumber 0 c = (None, length t mod 256, c\<lparr>incoming := [drop 1 (frame t)]\<rparr>) \<and> length t mod 256 \<noteq> length t"
proof -
  have f: "le_bytes 8 n = char_of (n mod 256) # le_bytes 7 (n div 256)" for n
    using le_bytes.simps(2) [of 7 n] by (simp del: le_bytes.simps)
  have z: "le_nat (le_bytes 7 0) = 0" using le_nat_le_bytes [of 7 0] by simp
  have "of_char (char_of (length t mod 256) :: char) = length t mod 256" by simp
  then have "readNumber 0 c = (None, length t mod 256, c\<lparr>incoming := [drop 1 (frame t)]\<rparr>)"
    using assms(3) z by (simp add: readNumber_def read_some_def push_back_segment_def frame_def f)
  moreover have "length t mod 256 < 256" by simp
  ultimately show ?thesis using assms(1) by simp
qed

theorem split_length_is_misread_witness:
  "\<exists>t c. readNumber 0 c = (None, 44, c\<lparr>incoming := [drop 1 (frame t)]\<rparr>) \<and> length t = 300"
proof -
  let ?t = "replicate 300 (CHR ''x'')"
  let ?c = "\<lparr>incoming = [take 1 (frame ?t), drop 1 (frame ?t)], outgoing = [], budget = 0, window = 1\<rparr>"
  have "readNumber 0 ?c = (None, 44, ?c\<lparr>incoming := [drop 1 (frame ?t)]\<rparr>)"
    using split_length_is_misread [of ?t ?c] by simp
  then show ?thesis by (intro exI [of _ ?t] exI [of _ ?c]) simp
qed

end
