(* ===== verification/Commands_Parser.thy ===== *)
theory Commands_Parser
  imports Streams
begin

text \<open>
  \<^verbatim>\<open>src/src/parser/Commands.h\<close> and \<^verbatim>\<open>src/src/parser/CommandsParser.h\<close>: the system
  commands and their parser. \<^verbatim>\<open>CreateTableForDatabaseCommand\<close> keeps a reference to the stream;
  the model keeps the stream as the parser leaves it.
\<close>

datatype CommandsVariant =
    AttachCommand string
  | CreateDatabaseCommand string
  | CreateTableForDatabaseCommand istr
  | BackupDatabase string string  \<comment> \<open>base, backup\<close>
  | RestoreDatabase string string  \<comment> \<open>backup, base: the order of the constructor's arguments\<close>
  | ShowStructure
  | DropDatabase string
  | HelpCommand

text \<open>
  One buffer serves all extractions; where an extraction fails the buffer keeps the word before it.
  The last branch tests \<^verbatim>\<open>buf == "HELP" or "help"\<close>, which is true for every buffer.
\<close>

definition parse_command :: "istr \<Rightarrow> exn + CommandsVariant" where
  "parse_command s0 =
     (let (_, buf, s) = read_str s0 [];
          unknown = (\<lambda>b. Inl (IncorrectInputException (''Unknown command: '' @ b)))
      in
      if buf = ''CREATE'' then
        (let (_, buf, s) = read_str s buf in
         if buf = ''TABLE'' then
           (let (_, buf, s) = read_str s buf in
            if buf = ''FOR'' then Inr (CreateTableForDatabaseCommand s) else unknown buf)
         else if buf = ''DATABASE'' then
           (let (_, buf, s) = read_str s buf in Inr (CreateDatabaseCommand buf))
         else unknown buf)
      else if buf = ''ATTACH'' then
        (let (_, buf, s) = read_str s buf in
         if buf = ''TO'' then (let (_, buf, s) = read_str s buf in Inr (AttachCommand buf)) else unknown buf)
      else if buf = ''BACKUP'' then
        (let (_, name1, s) = read_str s []; (_, buf, s) = read_str s buf in
         if buf = ''AS'' then (let (_, name2, s) = read_str s [] in Inr (BackupDatabase name1 name2))
         else unknown buf)
      else if buf = ''RESTORE'' then
        (let (_, name1, s) = read_str s []; (_, buf, s) = read_str s buf in
         if buf = ''AS'' then (let (_, name2, s) = read_str s [] in Inr (RestoreDatabase name1 name2))
         else unknown buf)
      else if buf = ''SHOW'' then Inr ShowStructure
      else if buf = ''DROP'' then
        (let (_, buf, s) = read_str s buf in
         if buf = ''DATABASE'' \<or> buf = ''BASE'' then
           (let (_, buf, s) = read_str s buf in Inr (DropDatabase buf))
         else unknown buf)
      else Inr HelpCommand)"

section \<open>Properties\<close>

text \<open>The words of a command in the syntax the parser accepts.\<close>

fun show_command :: "CommandsVariant \<Rightarrow> string list" where
  "show_command (AttachCommand n) = [''ATTACH'', ''TO'', n]"
| "show_command (CreateDatabaseCommand n) = [''CREATE'', ''DATABASE'', n]"
| "show_command (CreateTableForDatabaseCommand s) = [''CREATE'', ''TABLE'', ''FOR'']"
| "show_command (BackupDatabase b k) = [''BACKUP'', b, ''AS'', k]"
| "show_command (RestoreDatabase k b) = [''RESTORE'', k, ''AS'', b]"
| "show_command ShowStructure = [''SHOW'']"
| "show_command (DropDatabase n) = [''DROP'', ''DATABASE'', n]"
| "show_command HelpCommand = [''HELP'']"

text \<open>The names a command carries are words, and the stream of a table command is what follows.\<close>

fun printable :: "CommandsVariant \<Rightarrow> string list \<Rightarrow> bool" where
  "printable (AttachCommand n) rest = word_tok n"
| "printable (CreateDatabaseCommand n) rest = word_tok n"
| "printable (CreateTableForDatabaseCommand s) rest = (s = istr_of (blanks rest))"
| "printable (BackupDatabase b k) rest = (word_tok b \<and> word_tok k)"
| "printable (RestoreDatabase k b) rest = (word_tok k \<and> word_tok b)"
| "printable (DropDatabase n) rest = word_tok n"
| "printable ShowStructure rest = True"
| "printable HelpCommand rest = True"

lemma command_words [simp]:
  "word_tok ''ATTACH''" "word_tok ''TO''" "word_tok ''CREATE''" "word_tok ''DATABASE''"
  "word_tok ''TABLE''" "word_tok ''FOR''" "word_tok ''BACKUP''" "word_tok ''AS''"
  "word_tok ''RESTORE''" "word_tok ''SHOW''" "word_tok ''DROP''" "word_tok ''HELP''"
  by (simp_all add: word_tok_def is_space_def)

lemma parse_command_text:
  assumes "printable c rest"
  shows "parse_command (istr_of (blanks (show_command c @ rest))) = Inr c"
  using assms
  by (cases c) (simp_all add: parse_command_def read_str_blanks del: blanks_simps(2))

text \<open>
  Every command, printed in the documented syntax, is parsed back; words after a complete
  command are ignored, and those after \<^verbatim>\<open>CREATE TABLE FOR\<close> stay in the stream.
\<close>

theorem parse_command_show:
  assumes "printable c rest"
  shows "parse_command (istr_of (blanks (show_command c @ rest))) = Inr c"
  using assms by (rule parse_command_text)

theorem parse_command_show_witness:
  "parse_command (istr_of (blanks (show_command (BackupDatabase ''mydb'' ''monday'') @ [''now'']))) =
   Inr (BackupDatabase ''mydb'' ''monday'')"
  by (rule parse_command_show) (simp add: word_tok_def is_space_def)

text \<open>The first word of a command the parser knows, except \<^verbatim>\<open>HELP\<close>.\<close>

definition command_verbs :: "string set" where
  "command_verbs = {''CREATE'', ''ATTACH'', ''BACKUP'', ''RESTORE'', ''SHOW'', ''DROP''}"

text \<open>
  A text whose first word is none of the known verbs is answered with the help text: the
  branch for unknown commands is reached only after a known verb.
\<close>

theorem parse_command_unknown_is_help:
  assumes "word_tok w" and "w \<notin> command_verbs"
  shows "parse_command (istr_of (blanks (w # ws))) = Inr HelpCommand"
  using assms by (simp add: parse_command_def read_str_blanks command_verbs_def del: blanks_simps(2))

theorem parse_command_unknown_is_help_witness:
  "parse_command (istr_of (blanks (''SELEKT'' # [''x'']))) = Inr HelpCommand"
  by (rule parse_command_unknown_is_help) (simp_all add: word_tok_def is_space_def command_verbs_def)

end
