(* ===== verification/Commands_Executor.thy ===== *)
theory Commands_Executor
  imports System Commands_Parser
begin

text \<open>
  \<^verbatim>\<open>src/src/data_base/CommandsExecutor.h\<close>, \<^verbatim>\<open>src/src/parser/Help.h\<close>, the class
  \<^verbatim>\<open>ClientInfo\<close> of \<^verbatim>\<open>src/src/clients/Client.h\<close> and \<^verbatim>\<open>src/src/clients/Operator.h\<close>:
  the commands on the system of databases, the state of a client, and the two entry points through which
  the server runs what a client sends.
\<close>

section \<open>Help\<close>

text \<open>
  The texts of \<^verbatim>\<open>helpArray\<close>; after the second blank line a comma is missing, so that line and the
  heading after it are one text.
\<close>

definition helpArray :: "string list" where
  "helpArray =
     ['' '',
      ''*** SQLid Database System ***'',
      '' '',
      ''=== System commands ==='',
      [CHR 0x27] @ ''SHOW' - display 'database1 [ table1 ... tableN ]'' @ [CHR 0x27],
      [CHR 0x27] @ ''CREATE DATABASE DATABASE_NAME'' @ [CHR 0x27],
      [CHR 0x27] @ ''CREATE TABLE FOR DATABASE_NAME TABLE_NAME COL1_NAME COL1_TYPE ... COLN_NAME COLN_TYPE'' @ [CHR 0x27],
      [CHR 0x27] @ ''ATTACH TO DATABASE_NAME' - connect to some database'',
      [CHR 0x27] @ ''BACKUP DATABASE_NAME AS DATABASE_BACKUP_NAME'' @ [CHR 0x27],
      [CHR 0x27] @ ''RESTORE DATABASE_BACKUP_NAME AS DATABASE_NAME'' @ [CHR 0x27],
      [CHR 0x27] @ ''DROP DATABASE_NAME' - delete database'',
      [CHR 0x27] @ ''DISCONNECT' - turn off connection'',
      [CHR 0x27] @ ''LEAVE' - dettach from current database'',
      '' '',
      ''=== SQLid SYNTAX ==='',
      '' --- CONDITIONS ---'',
      [CHR 0x27] @ ''... WHERE id == x' - direct indexing, O(1)'',
      [CHR 0x27] @ ''... WHERE id >= x AND id <= y' - range indexing, O(y-x)'',
      [CHR 0x27] @ ''... WHERE col1 == x AND col2 > y AND col3 < z OR col1 != v' - O(n)'',
      [CHR 0x27] @ ''... WHERE some_cond LIMIT L' - O(n)'',
      ''Valid examples: '',
      ''1) '... WHERE id == 100'' @ [CHR 0x27],
      ''2) '... WHERE id >= 10 AND id <= 80 AND name < Numa AND age > 20 OR SALARY == 1.1 LIMIT 10'',
      '' '',
      ''--- Queries ---'',
      [CHR 0x27] @ ''SELECT col1 ... col2 FROM table_name WHERE ...' - '*' is supported'',
      [CHR 0x27] @ ''INSERT INTO table_name val1 ... valN' - you can also insert multiple data using one insert'',
      [CHR 0x27] @ ''UPDATE table_name SET col1 = val1 ... colN = valN WHERE ...'' @ [CHR 0x27],
      [CHR 0x27] @ ''DELETE FROM table_name WHERE ...' - 'WHERE' is required'',
      '' '',
      ''--- ORDER BY for SELECT ---'',
      ''ORDER BY MUST CONTAIN THE SAME COLUMNS TO SORT AS SELECT'S OUTPUT'',
      ''Example: table[name, age, salary]'',
      ''SELECT name FROM table WHERE cond LIMIT N ORDER BY age DESC - incorrect'',
      ''SELECT * FROM table WHERE cond LIMIT N ORDER BY age DESC - correct'',
      ''SELECT * FROM table WHERE cond LIMIT N ORDER BY firstname DESC - incorrect'',
      ''DESC and ASC supported as usual.'',
      ''ORDER BY must be at the end of query.'',
      '' '',
      ''=== Supported types ==='',
      ''Integers: 'INT32', 'INT64'' @ [CHR 0x27],
      ''Floats: 'FLOAT', 'DOUBLE'' @ [CHR 0x27],
      [CHR 0x27] @ ''STRING[N]' - Fixed-size string (N characters)'',
      [CHR 0x27] @ ''TEXT'' @ [CHR 0x27] @ [CHR 0x09] @ ''- cString (128 chars fixed)'',
      ''Boolean: 'BOOL'' @ [CHR 0x27]]"

definition getHelp :: "variant_types list list" where
  "getHelp = map (\<lambda>str. [VString str]) helpArray"

section \<open>Clients\<close>

record ClientInfo =
  client_id :: nat
  isConsole :: bool
  joinedToDataBase :: bool
  baseId :: nat

definition new_ClientInfo :: "nat \<Rightarrow> ClientInfo" where
  "new_ClientInfo i = \<lparr>client_id = i, isConsole = False, joinedToDataBase = False, baseId = 0\<rparr>"

section \<open>Commands\<close>

text \<open>The three objects a command works on: the result, the client and the system.\<close>

record desk =
  answer :: Result
  client :: ClientInfo
  sys :: System

definition on_sys :: "(System, 'a) act \<Rightarrow> (desk, 'a) act" where
  "on_sys = zoom sys (\<lambda>s k. k\<lparr>sys := s\<rparr>)"

definition set_messeage :: "string \<Rightarrow> (desk, unit) act" where
  "set_messeage msg = modify (\<lambda>k. k\<lparr>answer := (answer k)\<lparr>messeage := msg\<rparr>\<rparr>)"

definition showStructure :: "(desk, unit) act" where
  "showStructure = modify (\<lambda>k. k\<lparr>answer := (answer k)\<lparr>body := body (answer k) @
     map (\<lambda>d. [VString (getBaseNameAndTablesNames d)]) (List.map_filter id (getBases (sys k)))\<rparr>\<rparr>)"

fun run_command :: "CommandsVariant \<Rightarrow> (desk, unit) act" where
  "run_command (AttachCommand databaseName) =
     bnd (reads (\<lambda>k. rethrow_as (IncorrectInputException (''Unknown database: '' @ databaseName))
            (getDataBaseId (sys k) databaseName))) (\<lambda>ind.
     bnd (modify (\<lambda>k. k\<lparr>client := (client k)\<lparr>baseId := ind, joinedToDataBase := True\<rparr>\<rparr>)) (\<lambda>_.
     set_messeage ''Succes''))"
| "run_command (CreateDatabaseCommand databaseName) =
     bnd (on_sys (createDataBase databaseName)) (\<lambda>_. set_messeage ''Database created'')"
| "run_command (CreateTableForDatabaseCommand stream) =
     bnd (on_sys (sys_createTable stream)) (\<lambda>_. set_messeage ''Table created'')"
| "run_command (BackupDatabase dbName backup) =
     bnd (on_sys (backUpDatabase dbName backup)) (\<lambda>_. set_messeage ''Backuped'')"
| "run_command (RestoreDatabase backup dbName) =
     bnd (on_sys (restoreDatabase backup dbName)) (\<lambda>_. set_messeage ''Restored'')"
| "run_command ShowStructure = bnd showStructure (\<lambda>_. set_messeage ''Info:'')"
| "run_command (DropDatabase dbName) =
     bnd (on_sys (deleteDatabase dbName)) (\<lambda>_. set_messeage ''Base dropped'')"
| "run_command HelpCommand =
     bnd (modify (\<lambda>k. k\<lparr>answer := (answer k)\<lparr>body := getHelp\<rparr>\<rparr>)) (\<lambda>_. set_messeage ''Some info ...'')"

definition execute_command :: "CommandsVariant \<Rightarrow> (desk, unit) act" where
  "execute_command command =
     bnd (run_command command) (\<lambda>_. modify (\<lambda>k. k\<lparr>answer := (answer k)\<lparr>isSucces := True\<rparr>\<rparr>))"

section \<open>Operator\<close>

text \<open>
  What \<^verbatim>\<open>Operator::execute\<close> and \<^verbatim>\<open>Operator::executeCommand\<close> do with an exception: the two
  classes of the program become an error in the result, every other one leaves the function. What was
  done before the exception stays done.
\<close>

definition operator_executeCommand :: "string \<Rightarrow> ClientInfo \<times> System \<Rightarrow> (exn + Result) \<times> ClientInfo \<times> System" where
  "operator_executeCommand command cs =
     (case bnd (reads (\<lambda>_. parse_command (istr_of command))) execute_command
             \<lparr>answer = new_Result, client = fst cs, sys = snd cs\<rparr> of
        (Inr _, k) \<Rightarrow> (Inr ((answer k)\<lparr>isSucces := True\<rparr>), client k, sys k)
      | (Inl e, k) \<Rightarrow> (if caught_by_operator e then Inr ((answer k)\<lparr>error := what e, isSucces := False\<rparr>) else Inl e,
                       client k, sys k))"

text \<open>
  \<^verbatim>\<open>Operator::execute\<close> for a client: the database is found before the \<^verbatim>\<open>try\<close> block, and the
  query changes it in place.
\<close>

definition operator_query :: "ClientInfo \<Rightarrow> string \<Rightarrow> (System, Result) act" where
  "operator_query cl command s =
     (case getDataBaseById s (baseId cl) of
        Inl e \<Rightarrow> (Inl e, s)
      | Inr d \<Rightarrow> (case operator_execute command d of
                     (r, d') \<Rightarrow> (r, s\<lparr>bases := (bases s)[baseId cl := Some d']\<rparr>)))"

definition operator_createDataBase :: "string \<Rightarrow> (System, unit) act" where
  "operator_createDataBase name = createDataBase name"

definition operator_createTableInDataBase :: "istr \<Rightarrow> (System, unit) act" where
  "operator_createTableInDataBase stream = sys_createTable stream"

end
