(* ===== verification/Session.thy ===== *)
theory Session
  imports Connection Commands_Executor
begin

text \<open>
  \<^verbatim>\<open>SyncServer::processQueries\<close> of \<^verbatim>\<open>src/src/clients/SyncServer.h\<close>: the loop that serves one
  connection, byte by byte; and what it comes to, a conversation of requests and answers.
\<close>

section \<open>One request\<close>

text \<open>
  What is done with a request: the answer, and whether the loop goes on. An exception that
  \<^verbatim>\<open>Operator\<close> does not catch leaves the thread, which ends the process.
\<close>

definition farewell :: Result where
  "farewell = new_Result\<lparr>isSucces := True, messeage := ''DISCONNECTED''\<rparr>"

definition left_base :: Result where
  "left_base = new_Result\<lparr>isSucces := True, messeage := ''LEAVED''\<rparr>"

definition handle_request :: "string \<Rightarrow> ClientInfo \<times> System \<Rightarrow> (exn + Result \<times> bool) \<times> ClientInfo \<times> System" where
  "handle_request buf cs =
     (if buf = ''DISCONNECT'' then (Inr (farewell, False), cs)
      else if buf = ''LEAVE'' then (Inr (left_base, True), (fst cs)\<lparr>joinedToDataBase := False\<rparr>, snd cs)
      else if joinedToDataBase (fst cs) then
        (case operator_query (fst cs) buf (snd cs) of
           (Inl e, s) \<Rightarrow> (Inl e, fst cs, s) | (Inr r, s) \<Rightarrow> (Inr (r, True), fst cs, s))
      else
        (case operator_executeCommand buf cs of
           (Inl e, cs') \<Rightarrow> (Inl e, cs') | (Inr r, cs') \<Rightarrow> (Inr (r, True), cs')))"

section \<open>The loop\<close>

record session =
  conn :: connection
  num :: nat
  err :: "error_code option"
  who :: "ClientInfo \<times> System"

datatype ending = Stopped | Finished | Escaped exn

text \<open>
  One round. The error of \<^verbatim>\<open>readNumber\<close> is dropped: \<^verbatim>\<open>err\<close> still has the value of the round
  before. \<open>mem\<close> is the greatest size a string can be resized to. The answer to \<^verbatim>\<open>LEAVE\<close> is sent
  without a look at the error, which ends the next round.
\<close>

definition serve_round :: "(json \<Rightarrow> string) \<Rightarrow> nat \<Rightarrow> session \<Rightarrow> ending option \<times> session" where
  "serve_round serialize mem s0 =
     (case readNumber (num s0) (conn s0) of (_, n, c) \<Rightarrow>
      let s = s0\<lparr>num := n, conn := c\<rparr> in
      if err s \<noteq> None then (Some Finished, s)
      else if mem < n then (Some (Escaped (RuntimeError ''std::bad_alloc'')), s)
      else case conn_readText (replicate n NUL) (conn s) of (e, buf, c) \<Rightarrow>
      let s = s\<lparr>err := e, conn := c\<rparr> in
      if e \<noteq> None then (Some Finished, s)
      else case handle_request buf (who s) of
          (Inl e, w) \<Rightarrow> (Some (Escaped e), s\<lparr>who := w\<rparr>)
        | (Inr (r, goes_on), w) \<Rightarrow>
            (case send_json serialize (to_json r) (conn s) of (e, c) \<Rightarrow>
             let s = s\<lparr>err := e, conn := c, who := w\<rparr> in
             if \<not> goes_on then (Some Finished, s)
             else if buf = ''LEAVE'' then (None, s)
             else if e \<noteq> None then (Some Finished, s)
             else (None, s)))"

text \<open>The loop, when a stop is requested after a number of rounds.\<close>

fun processQueries :: "(json \<Rightarrow> string) \<Rightarrow> nat \<Rightarrow> nat \<Rightarrow> session \<Rightarrow> ending \<times> session" where
  "processQueries serialize mem 0 s = (Stopped, s)"
| "processQueries serialize mem (Suc n) s =
     (case serve_round serialize mem s of
        (Some e, s') \<Rightarrow> (e, s') | (None, s') \<Rightarrow> processQueries serialize mem n s')"

definition new_session :: "connection \<Rightarrow> nat \<Rightarrow> System \<Rightarrow> session" where
  "new_session c i s = \<lparr>conn = c, num = 0, err = None, who = (new_ClientInfo i, s)\<rparr>"

section \<open>Conversations\<close>

text \<open>What a session is about: requests are handled one after the other, and each is answered.\<close>

fun conversation :: "string list \<Rightarrow> ClientInfo \<times> System \<Rightarrow> Result list \<times> ending \<times> ClientInfo \<times> System" where
  "conversation [] w = ([], Finished, w)"
| "conversation (t # ts) w =
     (case handle_request t w of
        (Inl e, w') \<Rightarrow> ([], Escaped e, w')
      | (Inr (r, goes_on), w') \<Rightarrow>
          if goes_on then (case conversation ts w' of (rs, k, w'') \<Rightarrow> (r # rs, k, w'')) else ([r], Finished, w'))"

text \<open>
  The texts arrive in frames, cut into segments in such a way that the length of each text is within one
  segment.
\<close>

fun delivered :: "string list \<Rightarrow> char list list \<Rightarrow> bool" where
  "delivered [] segs \<longleftrightarrow> segs = []"
| "delivered (t # ts) [] \<longleftrightarrow> False"
| "delivered (t # ts) (seg # segs) \<longleftrightarrow> 8 \<le> length seg \<and> take 8 seg = le_bytes 8 (length t) \<and>
     (case take_bytes (length t) (push_back_segment (drop 8 seg) segs) of (bs, rest) \<Rightarrow> bs = t \<and> delivered ts rest)"

definition answer_bytes :: "(json \<Rightarrow> string) \<Rightarrow> Result list \<Rightarrow> char list" where
  "answer_bytes serialize rs = concat (map (\<lambda>r. frame (serialize (to_json r))) rs)"

definition request_text :: "nat \<Rightarrow> string \<Rightarrow> bool" where
  "request_text mem t \<longleftrightarrow> t \<noteq> [] \<and> length t \<le> mem \<and> length t < SIZE_MOD"

lemma frames_delivered: "(\<forall>t\<in>set ts. t \<noteq> []) \<Longrightarrow> delivered ts (map frame ts)"
  by (induction ts) (simp_all add: frame_def push_back_segment_def)

lemma read_request:
  assumes "delivered (t # ts) (incoming c)" and "length t < SIZE_MOD"
  shows "\<exists>c1 rest. readNumber n c = (None, length t, c1) \<and>
     conn_readText (replicate (length t) NUL) c1 = (None, t, c\<lparr>incoming := rest\<rparr>) \<and> delivered ts rest"
proof -
  obtain seg segs where c: "incoming c = seg # segs" using assms(1) by (cases "incoming c") auto
  obtain bs rest where r: "take_bytes (length t) (push_back_segment (drop 8 seg) segs) = (bs, rest)" by force
  have s: "8 \<le> length seg" "take 8 seg = le_bytes 8 (length t)" "bs = t" "delivered ts rest"
    using assms(1) by (simp_all add: c r)
  have "readNumber n c = (None, length t, c\<lparr>incoming := push_back_segment (drop 8 seg) segs\<rparr>)"
    using s(1,2) assms(2) by (simp add: readNumber_def read_some_def c le_nat_le_bytes_8)
  moreover have "conn_readText (replicate (length t) NUL) (c\<lparr>incoming := push_back_segment (drop 8 seg) segs\<rparr>) =
      (None, t, c\<lparr>incoming := rest\<rparr>)" using r s(3) by (simp add: conn_readText_def asio_read_def)
  ultimately show ?thesis using s(4) by blast
qed

lemma serve_round_request:
  assumes "delivered (t # ts) (incoming (conn s))" and "request_text mem t" and "err s = None"
    and "handle_request t (who s) = (Inr (r, goes_on), w)" and "length (frame (serialize (to_json r))) \<le> budget (conn s)"
  shows "\<exists>rest. serve_round serialize mem s = (if goes_on then None else Some Finished, s\<lparr>num := length t, who := w,
       conn := (conn s)\<lparr>incoming := rest, outgoing := outgoing (conn s) @ frame (serialize (to_json r)),
         budget := budget (conn s) - length (frame (serialize (to_json r)))\<rparr>\<rparr>) \<and> delivered ts rest"
proof -
  obtain c1 rest where c: "readNumber (num s) (conn s) = (None, length t, c1)"
    "conn_readText (replicate (length t) NUL) c1 = (None, t, (conn s)\<lparr>incoming := rest\<rparr>)" "delivered ts rest"
    using read_request [OF assms(1)] assms(2) unfolding request_text_def by blast
  have "send_json serialize (to_json r) ((conn s)\<lparr>incoming := rest\<rparr>) = (None, (conn s)\<lparr>incoming := rest,
      outgoing := outgoing (conn s) @ frame (serialize (to_json r)),
      budget := budget (conn s) - length (frame (serialize (to_json r)))\<rparr>)"
    using send_json_ok [of serialize "to_json r" "(conn s)\<lparr>incoming := rest\<rparr>"] assms(5) by simp
  then have "serve_round serialize mem s = (if goes_on then None else Some Finished, s\<lparr>num := length t, who := w,
       conn := (conn s)\<lparr>incoming := rest, outgoing := outgoing (conn s) @ frame (serialize (to_json r)),
         budget := budget (conn s) - length (frame (serialize (to_json r)))\<rparr>\<rparr>)"
    using c(1,2) assms(2-4) by (simp add: serve_round_def request_text_def Let_def)
  then show ?thesis using c(3) by blast
qed

lemma serve_round_escape:
  assumes "delivered (t # ts) (incoming (conn s))" and "request_text mem t" and "err s = None"
    and "handle_request t (who s) = (Inl e, w)"
  shows "\<exists>rest. serve_round serialize mem s = (Some (Escaped e), s\<lparr>num := length t, who := w,
       conn := (conn s)\<lparr>incoming := rest\<rparr>\<rparr>)"
proof -
  obtain c1 rest where "readNumber (num s) (conn s) = (None, length t, c1)"
    "conn_readText (replicate (length t) NUL) c1 = (None, t, (conn s)\<lparr>incoming := rest\<rparr>)"
    using read_request [OF assms(1)] assms(2) unfolding request_text_def by blast
  then show ?thesis
    using assms(2-4) by (intro exI [of _ rest]) (simp add: serve_round_def request_text_def Let_def)
qed

lemma serve_round_hangup:
  assumes "incoming (conn s) = []" and "0 < num s" and "num s \<le> mem" and "err s = None" and "num s < SIZE_MOD"
  shows "\<exists>s'. serve_round serialize mem s = (Some Finished, s') \<and> who s' = who s \<and> outgoing (conn s') = outgoing (conn s)"
proof -
  have "readNumber (num s) (conn s) = (Some Eof, num s, conn s)"
    using assms(1,5) by (simp add: readNumber_def read_some_def le_nat_le_bytes_8)
  moreover have "conn_readText (replicate (num s) NUL) (conn s) = (Some Eof, replicate (num s) NUL, conn s)"
    using assms(1,2) by (simp add: conn_readText_def asio_read_def)
  ultimately show ?thesis using assms(2-4) by (simp add: serve_round_def Let_def)
qed

lemma processQueries_conversation:
  assumes "delivered ts (incoming (conn s))" and "\<forall>t\<in>set ts. request_text mem t" and "err s = None"
    and "ts = [] \<Longrightarrow> 0 < num s \<and> num s \<le> mem \<and> num s < SIZE_MOD"
    and "conversation ts (who s) = (rs, k, w)" and "length (answer_bytes serialize rs) \<le> budget (conn s)" and "length ts < n"
  shows "\<exists>s'. processQueries serialize mem n s = (k, s') \<and> who s' = w \<and>
     outgoing (conn s') = outgoing (conn s) @ answer_bytes serialize rs"
  using assms
proof (induction ts arbitrary: s rs n)
  case Nil
  then obtain m where n: "n = Suc m" by (cases n) auto
  have "incoming (conn s) = []" "0 < num s" "num s \<le> mem" "num s < SIZE_MOD" using Nil by simp_all
  then obtain s' where "serve_round serialize mem s = (Some Finished, s')" "who s' = who s" "outgoing (conn s') = outgoing (conn s)"
    using serve_round_hangup [of s mem serialize] Nil.prems(3) by blast
  then show ?case using Nil.prems(5) by (simp add: n answer_bytes_def)
next
  case (Cons t ts)
  then obtain m where n: "n = Suc m" by (cases n) auto
  have t: "request_text mem t" using Cons.prems(2) by simp
  obtain r w' where Pair: "handle_request t (who s) = (r, w')" by (metis surj_pair)
  show ?case
  proof (cases r)
    case (Inl e)
    then have "rs = []" "k = Escaped e" "w = w'" using Cons.prems(5) Pair by simp_all
    then show ?thesis
      using serve_round_escape [OF Cons.prems(1) t Cons.prems(3), of e w' serialize] Pair Inl
      by (auto simp: n answer_bytes_def)
  next
    case (Inr rm)
    obtain r1 goes_on where rm: "rm = (r1, goes_on)" by force
    obtain rs' where rs: "rs = r1 # rs'" using Cons.prems(5) Pair Inr by (auto simp: rm split: if_splits prod.splits)
    have b: "length (frame (serialize (to_json r1))) \<le> budget (conn s)"
      using Cons.prems(6) by (simp add: rs answer_bytes_def)
    obtain rest where r: "serve_round serialize mem s = (if goes_on then None else Some Finished, s\<lparr>num := length t, who := w',
       conn := (conn s)\<lparr>incoming := rest, outgoing := outgoing (conn s) @ frame (serialize (to_json r1)),
       budget := budget (conn s) - length (frame (serialize (to_json r1)))\<rparr>\<rparr>)" "delivered ts rest"
      using serve_round_request [OF Cons.prems(1) t Cons.prems(3), of r1 goes_on w' serialize] b Pair Inr rm by blast
    let ?s = "s\<lparr>num := length t, who := w',
       conn := (conn s)\<lparr>incoming := rest, outgoing := outgoing (conn s) @ frame (serialize (to_json r1)),
       budget := budget (conn s) - length (frame (serialize (to_json r1)))\<rparr>\<rparr>"
    show ?thesis
    proof (cases goes_on)
      case True
      then have cv: "conversation ts w' = (rs', k, w)" using Cons.prems(5) Pair Inr by (auto simp: rm rs split: prod.splits)
      have "\<exists>s'. processQueries serialize mem m ?s = (k, s') \<and> who s' = w \<and>
          outgoing (conn s') = outgoing (conn ?s) @ answer_bytes serialize rs'"
        by (rule Cons.IH) (use Cons.prems r(2) cv t in \<open>auto simp: n rs answer_bytes_def request_text_def\<close>)
      then show ?thesis using r(1) True by (simp add: n rs answer_bytes_def)
    next
      case False
      then have "rs' = []" "k = Finished" "w = w'" using Cons.prems(5) Pair Inr by (simp_all add: rm rs)
      then show ?thesis using r(1) False by (simp add: n rs answer_bytes_def)
    qed
  qed
qed

end
