(* ===== verification/Administration.thy ===== *)
theory Administration
  imports Sample_System Session
begin

text \<open>
  The system commands as clients send them: what creating, backing up, dropping and restoring databases
  and creating tables guarantee, and the commands that end the process or lose data.
\<close>

section \<open>Commands as texts\<close>

definition command_text :: "CommandsVariant \<Rightarrow> string" where
  "command_text c = blanks (show_command c)"

lemma executeCommand_ok:
  assumes "parse_command (istr_of text) = Inr c"
    and "run_command c \<lparr>answer = new_Result, client = cl, sys = s\<rparr> = (Inr (), k)"
  shows "operator_executeCommand text (cl, s) = (Inr ((answer k)\<lparr>isSucces := True\<rparr>), client k, sys k)"
  using assms by (simp add: operator_executeCommand_def execute_command_def bnd_Inr)

lemma executeCommand_fails:
  assumes "parse_command (istr_of text) = Inr c"
    and "run_command c \<lparr>answer = new_Result, client = cl, sys = s\<rparr> = (Inl e, k)"
  shows "operator_executeCommand text (cl, s) =
     (if caught_by_operator e then Inr ((answer k)\<lparr>error := what e, isSucces := False\<rparr>) else Inl e, client k, sys k)"
  using assms by (simp add: operator_executeCommand_def execute_command_def bnd_def)

lemma parse_command_text0: "printable c [] \<Longrightarrow> parse_command (istr_of (command_text c)) = Inr c"
  using parse_command_text [of c "[]"] by (simp add: command_text_def)

text \<open>A command that is one operation of the system and a message.\<close>

lemma system_command_ok:
  assumes "printable c []" and "run_command c = bnd (on_sys m) (\<lambda>_. set_messeage msg)" and "m s = (Inr x, s')"
  shows "operator_executeCommand (command_text c) (cl, s) = (Inr (new_Result\<lparr>messeage := msg, isSucces := True\<rparr>), cl, s')"
  using executeCommand_ok [OF parse_command_text0 [OF assms(1)], of cl s] assms(2,3)
  by (simp add: bnd_def on_sys_def zoom_def set_messeage_def new_Result_def)

lemma system_command_fails:
  assumes "parse_command (istr_of text) = Inr c" and "run_command c = bnd (on_sys m) (\<lambda>_. set_messeage msg)" and "m s = (Inl e, s')"
  shows "operator_executeCommand text (cl, s) =
     (if caught_by_operator e then Inr (new_Result\<lparr>error := what e, isSucces := False\<rparr>) else Inl e, cl, s')"
  using executeCommand_fails [OF assms(1), of cl s] assms(2,3)
  by (simp add: bnd_def on_sys_def zoom_def set_messeage_def)

lemmas command_runs = system_command_ok [OF _ run_command.simps(2)] system_command_ok [OF _ run_command.simps(4)]
  system_command_ok [OF _ run_command.simps(5)] system_command_ok [OF _ run_command.simps(7)]

section \<open>Backups\<close>

text \<open>
  (C6) A database that is backed up, dropped and restored, under its own name or another one, has the same
  tables with the same rows; the three commands succeed.
\<close>

theorem backup_drop_restore:
  assumes "wf_sys s" and "database_at s n i d" and "openable d" and "word_tok n" and "word_tok b" and "word_tok m"
    and "valid_name b" and "plain_name b" and "find_node (root (sys_vol s)) (backup_dir s @ [b]) = None"
    and "plain_name m" and "m \<noteq> backUpName"
  shows "\<exists>s1 s2 s3 j d'.
     operator_executeCommand (command_text (BackupDatabase n b)) (cl, s) =
       (Inr (new_Result\<lparr>messeage := ''Backuped'', isSucces := True\<rparr>), cl, s1) \<and>
     operator_executeCommand (command_text (DropDatabase n)) (cl, s1) =
       (Inr (new_Result\<lparr>messeage := ''Base dropped'', isSucces := True\<rparr>), cl, s2) \<and>
     operator_executeCommand (command_text (RestoreDatabase b m)) (cl, s2) =
       (Inr (new_Result\<lparr>messeage := ''Restored'', isSucces := True\<rparr>), cl, s3) \<and>
     wf_sys s3 \<and> database_at s3 m j d' \<and> same_tables d d'"
proof -
  obtain v1 where b1: "backUpDatabase n b s = (Inr (), s\<lparr>sys_vol := v1\<rparr>)" "wf_sys (s\<lparr>sys_vol := v1\<rparr>)"
    "holds v1 (backup_dir s @ [b]) d" "limits v1 = limits (sys_vol s)"
    using backup_spec [OF assms(1,2,7-9)] by blast
  let ?s1 = "s\<lparr>sys_vol := v1\<rparr>"
  have at1: "database_at ?s1 n i d" using assms(2) by (simp add: database_at_def)
  obtain v2 where b2: "deleteDatabase n ?s1 = (Inr i, (forget_base n i ?s1)\<lparr>sys_vol := v2\<rparr>)"
    "wf_sys ((forget_base n i ?s1)\<lparr>sys_vol := v2\<rparr>)" "changes_below (abosolutePath ?s1 @ [n]) v1 v2"
    using drop_spec [OF b1(2) at1] by auto
  let ?s2 = "(forget_base n i ?s1)\<lparr>sys_vol := v2\<rparr>"
  have d: "i < length (bases s)" "bases s ! i = Some d" "dataBaseName d = n"
    using assms(2) wf_sys_at [OF assms(1,2)] by (simp_all add: database_at_def)
  note w = wf_sysD [OF assms(1) d(1,2)]
  have bd: "backup_dir ?s2 = backup_dir s" by (simp add: backup_dir_def forget_base_def)
  have "find_node (root v2) (backup_dir s @ [b]) = find_node (root v1) (backup_dir s @ [b])"
    using backup_dir_kept [OF b1(2), of n v2 "[b]"] b2(3) w(4) d(3) by (simp add: backup_dir_def)
  then have h: "holds (sys_vol ?s2) (backup_dir ?s2 @ [b]) d"
    using b1(3) base_dir_cong [of v2 _ v1] unfolding bd by (simp add: holds_def)
  have so: "sound_base (sys_vol ?s2) d"
    using w(1) b1(4) b2(3) sound_base_cong [of v2 "sys_vol s" d] by (simp add: wf_base_def changes_below_def)
  obtain s3 d' j where b3: "restoreDatabase b m ?s2 = (Inr (), s3)" "wf_sys s3" "database_at s3 m j d'" "same_tables d d'"
    using restore_spec [OF b2(2) assms(8,10,11) h so assms(3)] by blast
  show ?thesis
    using command_runs(2) [OF _ b1(1)] command_runs(4) [OF _ b2(1)] command_runs(3) [OF _ b3(1)] assms(4-6) b3(2-4)
    by (intro exI [of _ ?s1] exI [of _ ?s2] exI [of _ s3] exI [of _ j] exI [of _ d'] conjI) simp_all
qed

lemma sample_names:
  "word_tok ''monday''" "valid_name ''monday''" "plain_name ''monday''" "word_tok ''copy''" "plain_name ''copy''"
  "''copy'' \<noteq> backUpName" "word_tok ''backup''"
  by (simp_all add: word_tok_def is_space_def valid_name_def forbidden_chars_def plain_name_def backUpName_def)

theorem backup_drop_restore_witness:
  "\<exists>s d t s3 j d' t' x y. database_at s ''default'' 0 d \<and> table_at d ''people'' 0 t \<and> x \<noteq> y \<and>
     rows t = [x \<mapsto> [VString ''Ann'', VInt32 30], y \<mapsto> [VString ''Bob'', VInt32 20]] \<and>
     database_at s3 ''copy'' j d' \<and> table_at d' ''people'' 0 t' \<and> rows t' = rows t"
proof -
  obtain s d t x y where s: "wf_sys s" "database_at s ''default'' 0 d" "openable d" "table_at d ''people'' 0 t" "x \<noteq> y"
    "rows t = [x \<mapsto> [VString ''Ann'', VInt32 30], y \<mapsto> [VString ''Bob'', VInt32 20]]"
    "find_node (root (sys_vol s)) (backup_dir s) = Some (DirN [])"
    using sample_system by blast
  have none: "find_node (root (sys_vol s)) (backup_dir s @ [''monday'']) = None" using s(7) by (simp add: find_node_append)
  obtain s3 j d' where "database_at s3 ''copy'' j d'" "same_tables d d'"
    using backup_drop_restore [OF s(1-3) valid_people(2) sample_names(1,4,2,3) none sample_names(5,6), of "new_ClientInfo 0"] by blast
  moreover then obtain t' where "table_at d' ''people'' 0 t'" "rows t' = rows t" using same_table_at s(4) by blast
  ultimately show ?thesis using s by blast
qed

section \<open>The first start and the life of a system\<close>

text \<open>
  Started on an empty data directory, the server has one database, \<^verbatim>\<open>default\<close>, without tables,
  and an empty directory for backups, and the system is consistent.
\<close>

theorem first_start_makes_default:
  assumes "find_node (root v) p = Some (DirN [])" and "p \<noteq> []" and "wf_node (root v)"
  shows "\<exists>s d. new_System p v = Inr s \<and> wf_sys s \<and> name_base s = [''default'' \<mapsto> 0] \<and>
     getDataBase s ''default'' = Inr d \<and> tabbles_name d = [] \<and> find_node (root (sys_vol s)) (p @ [backUpName]) = Some (DirN [])"
proof -
  obtain s d where "new_System p v = Inr s" "wf_sys s" "abosolutePath s = p" "name_base s = [''default'' \<mapsto> 0]"
    "database_at s ''default'' 0 d" "tabbles_name d = []" "find_node (root (sys_vol s)) (backup_dir s) = Some (DirN [])"
    using first_start [OF assms] by blast
  then show ?thesis using getDataBase_at by (intro exI [of _ s] exI [of _ d]) (simp add: backup_dir_def)
qed

theorem first_start_makes_default_witness:
  "\<exists>s d. new_System [''data''] sample_volume = Inr s \<and> wf_sys s \<and> name_base s = [''default'' \<mapsto> 0] \<and>
     getDataBase s ''default'' = Inr d \<and> tabbles_name d = [] \<and>
     find_node (root (sys_vol s)) ([''data''] @ [backUpName]) = Some (DirN [])"
  by (rule first_start_makes_default) (simp_all add: sample_volume_def)



section \<open>CREATE TABLE\<close>

definition create_table_text :: "string \<Rightarrow> string \<Rightarrow> (string \<times> Type \<times> nat) list \<Rightarrow> string" where
  "create_table_text n tn ds = blanks ([''CREATE'', ''TABLE'', ''FOR'', n, tn] @ def_words ds)"

lemma parse_create_table:
  "parse_command (istr_of (create_table_text n tn ds)) = Inr (CreateTableForDatabaseCommand (istr_of (blanks (n # tn # def_words ds))))"
  using parse_command_text [of "CreateTableForDatabaseCommand (istr_of (blanks (n # tn # def_words ds)))" "n # tn # def_words ds"]
  by (simp add: create_table_text_def)

lemma insertTabble_keeps_tables:
  assumes "map_of (tabbles_name d) tn = None"
  shows "\<forall>m j u. table_at d m j u \<longrightarrow> table_at (insertTabble t tn d) m j u"
  using assms by (simp add: table_at_def insertTabble_def map_add_def nth_append)



section \<open>Commands that end the process\<close>

text \<open>
  (C36) \<^verbatim>\<open>CREATE TABLE FOR\<close> a database that does not exist is not answered: \<^verbatim>\<open>unordered_map::at\<close>
  throws an exception that neither \<^verbatim>\<open>Operator::executeCommand\<close> nor the loop of the connection catches,
  and the process ends.
\<close>

theorem unknown_database_ends_the_process:
  assumes "word_tok n" and "name_base s n = None" and "\<not> joinedToDataBase cl"
  shows "handle_request (create_table_text n tn ds) (cl, s) = (Inl (StdOutOfRange ''unordered_map::at''), cl, s)"
proof -
  have "sys_createTable (istr_of (blanks (n # tn # def_words ds))) s = (Inl (StdOutOfRange ''unordered_map::at''), s)"
    using read_str_blanks [OF assms(1), of "tn # def_words ds" "[]"] assms(2)
    by (simp add: sys_createTable_def at_map_def del: blanks_simps)
  then have "operator_executeCommand (create_table_text n tn ds) (cl, s) = (Inl (StdOutOfRange ''unordered_map::at''), cl, s)"
    using system_command_fails [OF parse_create_table run_command.simps(3)] by simp
  moreover have "create_table_text n tn ds \<noteq> ''DISCONNECT''" "create_table_text n tn ds \<noteq> ''LEAVE''"
    by (simp_all add: create_table_text_def)
  ultimately show ?thesis using assms(3) by (simp add: handle_request_def)
qed

theorem unknown_database_ends_the_process_witness:
  "\<exists>s. handle_request (create_table_text ''shop'' ''people'' sample_defs) (new_ClientInfo 0, s) =
     (Inl (StdOutOfRange ''unordered_map::at''), new_ClientInfo 0, s) \<and> wf_sys s"
proof -
  obtain s where "wf_sys s" "name_base s = [''default'' \<mapsto> 0]" using sample_started by blast
  then show ?thesis
    using unknown_database_ends_the_process [of "''shop''" s "new_ClientInfo 0" "''people''" sample_defs]
    by (intro exI [of _ s]) (simp add: word_tok_def is_space_def new_ClientInfo_def)
qed

text \<open>
  (C35) Dropping a database that another client is attached to leaves that client with a null pointer: its next
  query is undefined behaviour.
\<close>

theorem query_after_drop_is_undefined:
  assumes "wf_sys s" and "database_at s n i d" and "word_tok n" and "joinedToDataBase other" and "baseId other = i"
    and "q \<noteq> ''DISCONNECT''" and "q \<noteq> ''LEAVE''"
  shows "\<exists>s'. operator_executeCommand (command_text (DropDatabase n)) (cl, s) =
       (Inr (new_Result\<lparr>messeage := ''Base dropped'', isSucces := True\<rparr>), cl, s') \<and>
     handle_request q (other, s') = (Inl (Undefined ''null database pointer''), other, s')"
proof -
  obtain v' where d: "deleteDatabase n s = (Inr i, (forget_base n i s)\<lparr>sys_vol := v'\<rparr>)" using drop_spec [OF assms(1,2)] by blast
  let ?s = "(forget_base n i s)\<lparr>sys_vol := v'\<rparr>"
  have "at_bases ?s i = Inl (Undefined ''null database pointer'')"
    using assms(2) by (simp add: at_bases_def forget_base_def database_at_def)
  then have "handle_request q (other, ?s) = (Inl (Undefined ''null database pointer''), other, ?s)"
    using assms(4-7) by (simp add: handle_request_def operator_query_def getDataBaseById_def)
  then show ?thesis using command_runs(4) [OF _ d] assms(3) by auto
qed

theorem query_after_drop_is_undefined_witness:
  "\<exists>s' other. handle_request ''SELECT * FROM people'' (other, s') = (Inl (Undefined ''null database pointer''), other, s')"
proof -
  obtain s d where s: "wf_sys s" "database_at s ''default'' 0 d" using sample_started by blast
  show ?thesis
    using query_after_drop_is_undefined [OF s valid_people(2), of "(new_ClientInfo 1)\<lparr>joinedToDataBase := True\<rparr>"
        "''SELECT * FROM people''" "new_ClientInfo 0"] by (auto simp: new_ClientInfo_def)
qed

section \<open>Data loss\<close>

text \<open>The path of the empty name is the data directory itself.\<close>

lemma restore_unnamed:
  assumes "wf_sys s" and "plain_name b" and "is_dir (find_node (root (sys_vol s)) (backup_dir s @ [b]))"
  shows "\<exists>msg s'. restoreDatabase b [] s = (Inl (IncorrectInputException (''Restore failed: '' @ msg)), s') \<and>
     find_node (root (sys_vol s')) (abosolutePath s) = None \<and> bases s' = bases s"
proof -
  let ?s = "flushed s" and ?p = "abosolutePath s" and ?bp = "backup_dir s @ [b]"
  define v where "v = sys_vol ?s"
  have s: "?s = s\<lparr>sys_vol := v\<rparr>" by (simp add: flushed_def v_def)
  have wf: "wf_sys ?s" by (rule flushed_spec(1) [OF assms(1)])
  have "find_node (root v) ?bp = find_node (root (sys_vol s)) ?bp"
    using flushed_spec(4) [OF assms(1) backup_not_a_base [OF assms(1)], of "[b]"] by (simp add: backup_dir_def v_def)
  then have bp: "is_dir (find_node (root v) ?bp)" using assms(3) by simp
  have p: "?p \<noteq> []" using way_not_root [OF assms(1), of "[]"] by simp
  have dir: "is_dir (find_node (root v) ?p)" using data_dir [OF wf] by (simp add: s)
  have new: "name_base s [] = None"
  proof (cases "name_base s []")
    case (Some i)
    then obtain d where d: "database_at s [] i d" "dataBaseName d = []" using wf_sys_name [OF assms(1)] by blast
    then show ?thesis using wf_sysD(3) [OF assms(1), of i d] by (simp add: database_at_def plain_name_def)
  qed
  define v1 where "v1 = v\<lparr>root := remove_node (root v) ?p\<rparr>"
  define v2 where "v2 = v1\<lparr>root := put_node (root v1) ?p (DirN [])\<rparr>"
  define v3 where "v3 = v2\<lparr>root := remove_node (root v2) ?p\<rparr>"
  have gone: "find_node (root v1) ?p = None" using p by (simp add: v1_def find_remove_same)
  have "is_dir (find_node (root v) (butlast ?p))" using dir p parent_dir [of "root v" ?p] by (auto simp: is_dir_iff)
  then have up: "is_dir (find_node (root v1) (butlast ?p))"
    using find_remove_dir [of "root v" "butlast ?p" "last ?p" "[]"] p by (simp add: v1_def)
  have made: "create_directory ?p v1 = (Inr True, v2)"
    using gone up p by (simp add: create_directory_def parent_ok_def v2_def)
  have "find_node (root v2) ?p = Some (DirN [])" using find_put_same [OF p up] by (simp add: v2_def)
  then have "find_node (root v2) ?bp = None" by (simp add: backup_dir_def find_node_append)
  define msg where "msg = ''recursive directory iterator cannot open directory: '' @ path_str v2 ?bp"
  have fails: "copy_tree ?bp ?p v2 = (Inl (FilesystemError msg), v2)"
    using \<open>find_node (root v2) ?bp = None\<close> by (simp add: copy_tree_def msg_def)
  have "restoreDatabase b [] s = (Inl (IncorrectInputException (''Restore failed: '' @ msg)), s\<lparr>sys_vol := v3\<rparr>)"
    using bp dir made fails new child_plain [OF assms(2), of "?p @ [backUpName]"]
    by (auto simp: restoreDatabase_def s bnd_def reads_def modify_def child_def [of _ "[]"] catch_fs_def on_disk_def zoom_def
        remove_all_def throw_def backup_dir_def v1_def [symmetric] v3_def [symmetric] is_dir_iff)
  moreover have "find_node (root v3) ?p = None" using p by (simp add: v3_def find_remove_same)
  ultimately show ?thesis by (intro exI [of _ msg] exI [of _ "s\<lparr>sys_vol := v3\<rparr>"]) simp
qed

text \<open>
  (C34) \<^verbatim>\<open>RESTORE b AS\<close> without a name after \<^verbatim>\<open>AS\<close> removes the whole data directory, with every
  database and every backup, and is answered with an error.
\<close>

theorem restore_without_name_erases_everything:
  assumes "wf_sys s" and "word_tok b" and "plain_name b" and "is_dir (find_node (root (sys_vol s)) (backup_dir s @ [b]))"
  shows "\<exists>msg s'. operator_executeCommand (blanks [''RESTORE'', b, ''AS'']) (cl, s) =
       (Inr (new_Result\<lparr>error := ''Incorret input: Restore failed: '' @ msg, isSucces := False\<rparr>), cl, s') \<and>
     find_node (root (sys_vol s')) (abosolutePath s) = None \<and> bases s' = bases s"
proof -
  have "parse_command (istr_of (blanks [''RESTORE'', b, ''AS''])) = Inr (RestoreDatabase b [])"
    using assms(2) read_str_end [of "[]"] by (simp add: parse_command_def read_str_blanks del: blanks_simps(2))
  note parsed = this
  obtain msg s' where r: "restoreDatabase b [] s = (Inl (IncorrectInputException (''Restore failed: '' @ msg)), s')"
    "find_node (root (sys_vol s')) (abosolutePath s) = None" "bases s' = bases s"
    using restore_unnamed [OF assms(1,3,4)] by blast
  then show ?thesis
    using system_command_fails [OF parsed run_command.simps(5) r(1), of cl] unfolding caught_by_operator.simps if_True what.simps
    by (intro exI [of _ msg] exI [of _ s'] conjI) simp_all
qed

theorem restore_without_name_erases_everything_witness:
  "\<exists>s d t msg s'. database_at s ''default'' 0 d \<and> table_at d ''people'' 0 t \<and>
     operator_executeCommand '' RESTORE monday AS'' (new_ClientInfo 0, s) =
       (Inr (new_Result\<lparr>error := ''Incorret input: Restore failed: '' @ msg, isSucces := False\<rparr>), new_ClientInfo 0, s') \<and>
     find_node (root (sys_vol s')) (abosolutePath s) = None"
proof -
  obtain s d t where s: "wf_sys s" "database_at s ''default'' 0 d" "openable d" "table_at d ''people'' 0 t"
    "find_node (root (sys_vol s)) (backup_dir s) = Some (DirN [])"
    using sample_system by blast
  have none: "find_node (root (sys_vol s)) (backup_dir s @ [''monday'']) = None" using s(5) by (simp add: find_node_append)
  obtain v where v: "wf_sys (s\<lparr>sys_vol := v\<rparr>)" "holds v (backup_dir s @ [''monday'']) d"
    using backup_spec [OF s(1,2) sample_names(2,3) none] by blast
  let ?s = "s\<lparr>sys_vol := v\<rparr>"
  have dir: "is_dir (find_node (root (sys_vol ?s)) (backup_dir ?s @ [''monday'']))"
    using v(2) by (auto simp: holds_def base_dir_def backup_dir_def is_dir_iff)
  have cmd: "blanks [''RESTORE'', ''monday'', ''AS''] = '' RESTORE monday AS''" by simp
  obtain msg s' where r: "operator_executeCommand '' RESTORE monday AS'' (new_ClientInfo 0, ?s) =
       (Inr (new_Result\<lparr>error := ''Incorret input: Restore failed: '' @ msg, isSucces := False\<rparr>), new_ClientInfo 0, s')"
    "find_node (root (sys_vol s')) (abosolutePath s) = None"
    using restore_without_name_erases_everything [OF v(1) sample_names(1,3) dir, of "new_ClientInfo 0"] unfolding cmd by auto
  then show ?thesis
    using s(2,4) by (intro exI [of _ ?s] exI [of _ d] exI [of _ t] exI [of _ msg] exI [of _ s']) (simp add: database_at_def)
qed

end
