(* ===== verification/Attachment.thy ===== *)
theory Attachment
  imports Schema Session
begin

text \<open>
  What no request of a client can break, whatever its text is and however it ends: the map of names points
  into the vector of databases, two names never share a place, the vector only grows, and a client that is
  attached to a database has a number that is a place of the vector.
\<close>

section \<open>The table of names\<close>

definition names_known :: "System \<Rightarrow> bool" where
  "names_known s \<longleftrightarrow> (\<forall>n i. name_base s n = Some i \<longrightarrow> i < length (bases s)) \<and>
     inj_on (name_base s) (dom (name_base s))"

definition sys_kept :: "System \<Rightarrow> System \<Rightarrow> bool" where
  "sys_kept s s' \<longleftrightarrow> abosolutePath s' = abosolutePath s \<and> length (bases s) \<le> length (bases s') \<and>
     (names_known s \<longrightarrow> names_known s')"

interpretation sk: kept sys_kept
  by unfold_locales (auto simp: sys_kept_def)

lemma sys_kept_frame:
  "name_base s' = name_base s \<Longrightarrow> length (bases s') = length (bases s) \<Longrightarrow> abosolutePath s' = abosolutePath s \<Longrightarrow> sys_kept s s'"
  by (simp add: sys_kept_def names_known_def)

lemma sk_on_disk: "sk.keeps (on_disk m)"
  by (rule sk.keepsI) (auto simp: on_disk_def zoom_def split: prod.splits intro!: sys_kept_frame)

lemma sk_flush: "sk.keeps flush"
  by (rule sk.keepsI) (auto simp: flush_def modify_def intro!: sys_kept_frame)

lemma sk_fails: "sk.keeps (\<lambda>s. (Inl (f s), s))"
  by (rule sk.keepsI) (simp add: sk.kept_refl)

lemma sk_modify: "(\<And>s. sys_kept s (f s)) \<Longrightarrow> sk.keeps (modify f)"
  by (rule sk.keepsI) (simp add: modify_def)

lemma sk_catch_fs: "sk.keeps m \<Longrightarrow> (\<And>e. sk.keeps (h e)) \<Longrightarrow> sk.keeps (catch_fs m h)"
proof (rule sk.keepsI)
  fix s
  assume m: "sk.keeps m" and h: "\<And>e. sk.keeps (h e)"
  have 1: "sys_kept s (snd (m s))" by (rule sk.keepsD [OF m])
  have 2: "sys_kept s' (snd (h e s'))" for e s' by (rule sk.keepsD [OF h])
  show "sys_kept s (snd (catch_fs m h s))"
    using 1 2 by (auto simp: catch_fs_def split: prod.splits sum.splits exn.splits intro: sk.kept_trans)
qed

lemma sk_push_base: "sk.keeps (push_base n d)"
proof (unfold push_base_def, rule sk_modify)
  fix s
  have "inj_on ((name_base s)(n \<mapsto> length (bases s))) (insert n (dom (name_base s)))"
    if "names_known s" "name_base s n = None"
    using that by (auto simp: names_known_def inj_on_def dom_def) (metis less_irrefl)+
  then show "sys_kept s (s\<lparr>bases := bases s @ [Some d],
      name_base := if name_base s n = None then (name_base s)(n \<mapsto> length (bases s)) else name_base s\<rparr>)"
    by (auto simp: sys_kept_def names_known_def less_Suc_eq)
qed

lemma sk_state: "(\<And>s0. sk.keeps (f s0)) \<Longrightarrow> sk.keeps (\<lambda>s. f s s)"
  by (rule sk.keepsI) (rule sk.keepsD)

section \<open>The operations of the system\<close>

lemma sk_createDataBase: "sk.keeps (createDataBase n)"
  unfolding createDataBase_def by (intro sk.keeps_intros sk_on_disk sk_fails sk_push_base)

lemma sk_deleteDatabase: "sk.keeps (deleteDatabase n)"
proof -
  have "sys_kept s (s\<lparr>bases := (bases s)[i := None], name_base := (name_base s)(n := None)\<rparr>)" for s i
    by (auto simp: sys_kept_def names_known_def inj_on_def dom_def)
  then show ?thesis unfolding deleteDatabase_def by (intro sk.keeps_intros sk_on_disk sk_modify)
qed

lemma sk_backUpDatabase: "sk.keeps (backUpDatabase n b)"
  unfolding backUpDatabase_def by (intro sk.keeps_intros sk_on_disk sk_fails sk_flush sk_catch_fs)

lemma sk_restoreDatabase: "sk.keeps (restoreDatabase b n)"
proof -
  have set_base: "sys_kept s (s\<lparr>bases := (bases s)[i := x]\<rparr>)" for s i x by (simp add: sys_kept_frame)
  have "sk.keeps (case ex of None \<Rightarrow> push_base n d | Some i \<Rightarrow> modify (\<lambda>s. s\<lparr>bases := (bases s)[i := Some d]\<rparr>))" for ex d
    using set_base by (auto split: option.splits intro: sk_push_base sk_modify)
  moreover have "sys_kept s (case ex of None \<Rightarrow> s | Some i \<Rightarrow> s\<lparr>bases := (bases s)[i := None]\<rparr>)" for ex s
    using set_base by (auto split: option.splits simp: sk.kept_refl)
  moreover have "sk.keeps (\<lambda>s. on_disk (if p s then a else b) s)" for p :: "System \<Rightarrow> bool" and a b :: "(volume, unit) act"
    by (rule sk_state) (rule sk_on_disk)
  ultimately show ?thesis
    unfolding restoreDatabase_def
    by (intro sk.keeps_intros sk_on_disk sk_flush sk_catch_fs sk_modify)
qed

lemma sk_sys_createTable: "sk.keeps (sys_createTable stream)"
  by (rule sk.keepsI)
    (auto simp: sys_createTable_def Let_def sk.kept_refl split: prod.splits sum.splits intro!: sys_kept_frame)

section \<open>Requests\<close>

text \<open>A client and the system.\<close>

definition attached_known :: "ClientInfo \<Rightarrow> System \<Rightarrow> bool" where
  "attached_known cl s \<longleftrightarrow> (joinedToDataBase cl \<longrightarrow> baseId cl < length (bases s))"

definition desk_kept :: "desk \<Rightarrow> desk \<Rightarrow> bool" where
  "desk_kept k k' \<longleftrightarrow> sys_kept (sys k) (sys k') \<and> client_id (client k') = client_id (client k) \<and>
     (names_known (sys k) \<longrightarrow> attached_known (client k) (sys k) \<longrightarrow> attached_known (client k') (sys k'))"

interpretation dk: kept desk_kept
  by unfold_locales (auto simp: desk_kept_def sys_kept_def)

lemma dk_on_sys:
  assumes "sk.keeps m"
  shows "dk.keeps (on_sys m)"
proof (rule dk.keepsI)
  fix k :: desk
  have "sys_kept (sys k) (snd (m (sys k)))" using assms by (rule sk.keepsD)
  then show "desk_kept k (snd (on_sys m k))"
    by (cases "m (sys k)") (auto simp: on_sys_def zoom_def desk_kept_def sys_kept_def attached_known_def)
qed

lemma dk_answer: "(\<And>k. sys (f k) = sys k \<and> client (f k) = client k) \<Longrightarrow> dk.keeps (modify f)"
  by (rule dk.keepsI) (simp add: modify_def desk_kept_def sk.kept_refl)

lemma dk_set_messeage: "dk.keeps (set_messeage msg)"
  unfolding set_messeage_def by (rule dk_answer) simp

lemma dk_attach: "dk.keeps (run_command (AttachCommand n))"
proof (rule dk.keepsI)
  fix k :: desk
  show "desk_kept k (snd (run_command (AttachCommand n) k))"
    by (auto simp: bnd_def reads_def modify_def rethrow_as_def getDataBaseId_def at_map_def set_messeage_def desk_kept_def
        sk.kept_refl names_known_def attached_known_def split: option.splits sum.splits)
qed

lemma dk_execute_command: "dk.keeps (execute_command c)"
proof -
  have "dk.keeps (run_command c)"
  proof (cases c)
    case (AttachCommand n)
    then show ?thesis using dk_attach by simp
  qed (auto simp: showStructure_def intro!: dk.keeps_bnd dk_on_sys dk_set_messeage dk_answer sk_createDataBase sk_sys_createTable
         sk_backUpDatabase sk_restoreDatabase sk_deleteDatabase)
  then show ?thesis unfolding execute_command_def by (intro dk.keeps_bnd dk_answer) simp_all
qed

lemma executeCommand_kept:
  "desk_kept \<lparr>answer = new_Result, client = cl, sys = s\<rparr>
     \<lparr>answer = new_Result, client = fst (snd (operator_executeCommand q (cl, s))), sys = snd (snd (operator_executeCommand q (cl, s)))\<rparr>"
proof -
  let ?k = "\<lparr>answer = new_Result, client = cl, sys = s\<rparr>"
  have "dk.keeps (bnd (reads (\<lambda>_. parse_command (istr_of q))) execute_command)"
    by (intro dk.keeps_bnd dk.keeps_reads dk_execute_command)
  then have "desk_kept ?k (snd (bnd (reads (\<lambda>_. parse_command (istr_of q))) execute_command ?k))" by (rule dk.keepsD)
  then show ?thesis
    by (auto simp: operator_executeCommand_def desk_kept_def split: prod.splits sum.splits)
qed

lemma operator_query_kept: "sys_kept s (snd (operator_query cl q s))"
  by (auto simp: operator_query_def sk.kept_refl split: prod.splits sum.splits intro!: sys_kept_frame)

lemma handle_request_kept:
  assumes "handle_request q (cl, s) = (r, cl', s')"
  shows "sys_kept s s' \<and> client_id cl' = client_id cl \<and>
     (names_known s \<longrightarrow> attached_known cl s \<longrightarrow> attached_known cl' s')"
proof -
  consider (word) "q = ''DISCONNECT'' \<or> q = ''LEAVE''"
    | (query) "q \<noteq> ''DISCONNECT''" "q \<noteq> ''LEAVE''" "joinedToDataBase cl"
    | (command) "q \<noteq> ''DISCONNECT''" "q \<noteq> ''LEAVE''" "\<not> joinedToDataBase cl"
    by blast
  then show ?thesis
  proof cases
    case word
    then show ?thesis using assms by (auto simp: handle_request_def sk.kept_refl attached_known_def split: if_splits)
  next
    case query
    then have "cl' = cl" "s' = snd (operator_query cl q s)"
      using assms by (auto simp: handle_request_def split: prod.splits sum.splits)
    then show ?thesis using operator_query_kept [of s cl q] by (auto simp: attached_known_def sys_kept_def)
  next
    case command
    then have "cl' = fst (snd (operator_executeCommand q (cl, s)))" "s' = snd (snd (operator_executeCommand q (cl, s)))"
      using assms by (auto simp: handle_request_def split: prod.splits sum.splits)
    then show ?thesis using executeCommand_kept [of cl s q] by (simp add: desk_kept_def)
  qed
qed

end
