(* ===== verification/Server.thy ===== *)
theory Server
  imports Attachment
begin

text \<open>
  The class \<^verbatim>\<open>SyncServer\<close> of \<^verbatim>\<open>src/src/clients/SyncServer.h\<close> with all its clients:
  the acceptor, one thread for each connection, and the shutdown, as a step relation. A thread is before its
  first look at the map of clients, at the head of its loop, in a round, or done; the rounds of different
  threads are taken as wholes, one after the other. What the bytes of a round do is in theory
  \<open>Session\<close>; here a round is a request, or a connection that breaks.
\<close>

section \<open>State\<close>

datatype thread_at = Starting | AtLoop | Serving | Ended

text \<open>
  The acceptor waits for a connection, or has one to admit. The steps of \<^verbatim>\<open>shutdownAll\<close>, which holds the mutex \<^verbatim>\<open>add_mtx\<close> from \<open>Stopping\<close> to
  \<open>Cleared\<close>.
\<close>

datatype acceptor_at = Accepting | Admitting | AcceptorDone

datatype phase = Open | Stopping | Cleared | Down

record server =
  oper :: System
  srv_freeId :: nat
  clients :: "nat \<rightharpoonup> ClientInfo"
  threads :: "nat \<rightharpoonup> thread_at \<times> bool"  \<comment> \<open>and whether a stop was requested\<close>
  acceptor :: acceptor_at
  accept_stop :: bool  \<comment> \<open>whether the acceptor was asked to stop\<close>
  quite :: bool
  at_phase :: phase
  fate :: "exn option"  \<comment> \<open>what ended the process\<close>

definition add_mtx_held :: "server \<Rightarrow> bool" where
  "add_mtx_held s \<longleftrightarrow> at_phase s = Stopping \<or> at_phase s = Cleared"

definition new_SyncServer :: "System \<Rightarrow> server" where
  "new_SyncServer sy =
     \<lparr>oper = sy, srv_freeId = 0, clients = Map.empty, threads = Map.empty, acceptor = Accepting,
      accept_stop = False, quite = False,
      at_phase = Open, fate = None\<rparr>"

section \<open>Operations\<close>

text \<open>\<^verbatim>\<open>unordered_map::emplace\<close> keeps an entry that is there.\<close>

definition emplace :: "nat \<Rightarrow> 'a \<Rightarrow> (nat \<rightharpoonup> 'a) \<Rightarrow> (nat \<rightharpoonup> 'a)" where
  "emplace i x m = (if m i = None then m(i \<mapsto> x) else m)"

definition addNewClient :: "server \<Rightarrow> server" where
  "addNewClient s =
     (let curId = srv_freeId s in
      s\<lparr>srv_freeId := size_add curId 1, clients := emplace curId (new_ClientInfo curId) (clients s),
        threads := emplace curId (Starting, False) (threads s)\<rparr>)"

text \<open>\<^verbatim>\<open>start_accept\<close>, with the connection that was accepted; nothing calls it.\<close>

definition start_accept :: "server \<Rightarrow> server" where
  "start_accept s = addNewClient s"

text \<open>\<^verbatim>\<open>shutdown\<close>: every thread is asked to stop.\<close>

definition shutdown :: "server \<Rightarrow> server" where
  "shutdown s = s\<lparr>threads := (\<lambda>i. map_option (\<lambda>(a, _). (a, True)) (threads s i))\<rparr>"

text \<open>
  \<^verbatim>\<open>shutdownAll\<close> up to the closing of the sockets, the destruction of the clients, and the
  destruction of the threads, which joins them.
\<close>

definition shutdownAll_stop :: "server \<Rightarrow> server" where
  "shutdownAll_stop s = shutdown (s\<lparr>quite := True, accept_stop := True, at_phase := Stopping\<rparr>)"

definition shutdownAll_clear :: "server \<Rightarrow> server" where
  "shutdownAll_clear s = s\<lparr>clients := Map.empty, at_phase := Cleared\<rparr>"

definition shutdownAll_join :: "server \<Rightarrow> server" where
  "shutdownAll_join s = s\<lparr>threads := Map.empty, at_phase := Down\<rparr>"

definition shutdownAll :: "server \<Rightarrow> server" where
  "shutdownAll s = shutdownAll_join (shutdownAll_clear (shutdownAll_stop s))"

definition set_thread :: "nat \<Rightarrow> thread_at \<Rightarrow> bool \<Rightarrow> server \<Rightarrow> server" where
  "set_thread i a stop s = s\<lparr>threads := (threads s)(i \<mapsto> (a, stop))\<rparr>"

section \<open>Steps\<close>

inductive server_step :: "server \<Rightarrow> server \<Rightarrow> bool" where
  accepts: "fate s = None \<Longrightarrow> acceptor s = Accepting \<Longrightarrow> \<not> accept_stop s \<Longrightarrow> server_step s (s\<lparr>acceptor := Admitting\<rparr>)"
| accept_ends: "fate s = None \<Longrightarrow> acceptor s = Accepting \<Longrightarrow> server_step s (s\<lparr>acceptor := AcceptorDone\<rparr>)"
| admits: "fate s = None \<Longrightarrow> acceptor s = Admitting \<Longrightarrow> \<not> add_mtx_held s \<Longrightarrow>
    server_step s ((addNewClient s)\<lparr>acceptor := Accepting\<rparr>)"
| starts: "fate s = None \<Longrightarrow> threads s i = Some (Starting, stop) \<Longrightarrow> \<not> add_mtx_held s \<Longrightarrow> clients s i = Some cl \<Longrightarrow>
    server_step s (set_thread i AtLoop stop s)"
| starts_without_client: "fate s = None \<Longrightarrow> threads s i = Some (Starting, stop) \<Longrightarrow> \<not> add_mtx_held s \<Longrightarrow> clients s i = None \<Longrightarrow>
    server_step s (s\<lparr>fate := Some (StdOutOfRange ''unordered_map::at'')\<rparr>)"
| enters: "fate s = None \<Longrightarrow> threads s i = Some (AtLoop, False) \<Longrightarrow> server_step s (set_thread i Serving False s)"
| stops: "fate s = None \<Longrightarrow> threads s i = Some (AtLoop, True) \<Longrightarrow> server_step s (set_thread i Ended True s)"
| answers: "fate s = None \<Longrightarrow> threads s i = Some (Serving, stop) \<Longrightarrow> clients s i = Some cl \<Longrightarrow>
    handle_request q (cl, oper s) = (Inr (r, goes_on), cl', sy) \<Longrightarrow>
    server_step s (set_thread i (if goes_on then AtLoop else Ended) stop (s\<lparr>oper := sy, clients := (clients s)(i \<mapsto> cl')\<rparr>))"
| escapes: "fate s = None \<Longrightarrow> threads s i = Some (Serving, stop) \<Longrightarrow> clients s i = Some cl \<Longrightarrow>
    handle_request q (cl, oper s) = (Inl e, cl', sy) \<Longrightarrow>
    server_step s (s\<lparr>oper := sy, clients := (clients s)(i \<mapsto> cl'), fate := Some e\<rparr>)"
| breaks: "fate s = None \<Longrightarrow> threads s i = Some (Serving, stop) \<Longrightarrow> server_step s (set_thread i Ended stop s)"
| dangles: "fate s = None \<Longrightarrow> threads s i = Some (Serving, stop) \<Longrightarrow> clients s i = None \<Longrightarrow>
    server_step s (s\<lparr>fate := Some (Undefined ''client destroyed while its thread runs'')\<rparr>)"
| shuts: "fate s = None \<Longrightarrow> at_phase s = Open \<Longrightarrow> server_step s (shutdownAll_stop s)"
| clears: "fate s = None \<Longrightarrow> at_phase s = Stopping \<Longrightarrow> server_step s (shutdownAll_clear s)"
| joins: "fate s = None \<Longrightarrow> at_phase s = Cleared \<Longrightarrow> \<forall>i a stop. threads s i = Some (a, stop) \<longrightarrow> a = Ended \<Longrightarrow>
    server_step s (shutdownAll_join s)"

inductive_cases server_stepE: "server_step s s'"

lemmas server_defs = addNewClient_def emplace_def shutdown_def shutdownAll_stop_def shutdownAll_clear_def shutdownAll_join_def
  set_thread_def add_mtx_held_def Let_def

section \<open>What holds of the clients\<close>

definition clients_known :: "server \<Rightarrow> bool" where
  "clients_known s \<longleftrightarrow> names_known (oper s) \<and>
     (\<forall>i cl. clients s i = Some cl \<longrightarrow> client_id cl = i \<and> attached_known cl (oper s))"

lemma attached_mono: "attached_known cl s \<Longrightarrow> sys_kept s s' \<Longrightarrow> attached_known cl s'"
  by (auto simp: attached_known_def sys_kept_def)

lemma clients_known_request:
  assumes "clients_known s" and "clients s i = Some cl" and "handle_request q (cl, oper s) = (r, cl', sy)"
  shows "clients_known (s\<lparr>oper := sy, clients := (clients s)(i \<mapsto> cl')\<rparr>)"
proof -
  have k: "sys_kept (oper s) sy" "client_id cl' = client_id cl"
    "names_known (oper s) \<longrightarrow> attached_known cl (oper s) \<longrightarrow> attached_known cl' sy"
    using handle_request_kept [OF assms(3)] by simp_all
  then have "names_known sy" using assms(1) by (simp add: clients_known_def sys_kept_def)
  then show ?thesis using assms(1,2) k attached_mono [OF _ k(1)] by (simp add: clients_known_def)
qed

lemma clients_known_threads: "clients_known (set_thread i a stop s) = clients_known s"
  "clients_known (s\<lparr>fate := f\<rparr>) = clients_known s" "clients_known (s\<lparr>acceptor := x\<rparr>) = clients_known s"
  "clients_known (shutdownAll_stop s) = clients_known s"
  "clients_known (shutdownAll_join s) = clients_known s"
  by (simp_all add: clients_known_def server_defs)

lemma clients_known_step: "server_step s s' \<Longrightarrow> clients_known s \<Longrightarrow> clients_known s'"
proof (induction rule: server_step.induct)
  case (admits s)
  then show ?case by (auto simp: clients_known_def server_defs attached_known_def new_ClientInfo_def)
next
  case (escapes s i stop cl q e cl' sy)
  then show ?case
    using clients_known_threads(2) [where s = "s\<lparr>oper := sy, clients := (clients s)(i \<mapsto> cl')\<rparr>" and f = "Some e"] clients_known_request by simp
next
  case (clears s)
  then show ?case by (simp add: clients_known_def server_defs)
qed (simp_all add: clients_known_threads clients_known_request)

lemma new_System_names: "new_System p v = Inr s \<Longrightarrow> names_known s"
proof -
  assume s: "new_System p v = Inr s"
  let ?s0 = "\<lparr>abosolutePath = p, sys_vol = v, bases = [], name_base = Map.empty\<rparr> :: System"
  have loops: "sk.keeps (open_bases es)" for es
  proof (induction es)
    case (Cons e es)
    obtain name n where e: "e = (name, n)" by force
    have "sk.keeps (\<lambda>s. on_disk (new_DataBase (abosolutePath s @ [name]) name) s)" by (rule sk_state) (rule sk_on_disk)
    then show ?case unfolding e open_bases.simps by (intro sk.keeps_intros sk_push_base Cons)
  qed (simp add: sk.keeps_def sk.kept_refl)
  have dflt: "sk.keeps (\<lambda>s. (if f s then createDataBase ''default'' else ret ()) s)" for f
    by (rule sk.keepsI) (simp add: sk.keepsD [OF sk_createDataBase] sk.kept_refl ret_def)
  have bak: "sk.keeps (\<lambda>s. if b then bnd (on_disk (g s)) (\<lambda>_. ret ()) s else (Inr (), s))" for b and g :: "System \<Rightarrow> (volume, bool) act"
  proof (cases b)
    case True
    have "sk.keeps (\<lambda>s. bnd (on_disk (g s)) (\<lambda>_. ret ()) s)" by (rule sk_state) (intro sk.keeps_intros sk_on_disk)
    then show ?thesis using True by simp
  next
    case False
    then show ?thesis by (simp add: sk.keeps_def sk.kept_refl)
  qed
  have "sys_kept ?s0 (snd (loadFoldersAndOpenBases ?s0))"
    unfolding loadFoldersAndOpenBases_def
    by (auto simp: sk.kept_refl split: option.splits node.splits intro!: sk.keepsD sk.keeps_bnd loops dflt bak)
  moreover have "names_known ?s0" by (simp add: names_known_def)
  moreover have "s = snd (loadFoldersAndOpenBases ?s0)"
    using s by (auto simp: new_System_def split: if_splits prod.splits sum.splits)
  ultimately show ?thesis by (simp add: sys_kept_def)
qed

lemma server_clients_known: "server_step\<^sup>*\<^sup>* s s' \<Longrightarrow> clients_known s \<Longrightarrow> clients_known s'"
  by (induction rule: rtranclp_induct) (simp_all add: clients_known_step)

lemma started_clients_known: "new_System p v = Inr sy \<Longrightarrow> clients_known (new_SyncServer sy)"
  using new_System_names by (simp add: clients_known_def new_SyncServer_def)

section \<open>Shutting down\<close>

text \<open>A thread that has not yet looked at the map of clients waits as long as the shutdown holds the mutex.\<close>

lemma starting_waits:
  assumes "server_step s s'" and "at_phase s = Cleared" and "threads s i = Some (Starting, stop)"
  shows "at_phase s' = Cleared \<and> threads s' i = Some (Starting, stop)"
  using assms by (cases rule: server_stepE) (auto simp: server_defs)

lemma starting_waits_ever:
  assumes "server_step\<^sup>*\<^sup>* s s'" and "at_phase s = Cleared" and "threads s i = Some (Starting, stop)"
  shows "at_phase s' = Cleared \<and> threads s' i = Some (Starting, stop)"
  using assms(1)
proof (induction rule: rtranclp_induct)
  case base
  show ?case using assms(2,3) by simp
next
  case (step y z)
  then show ?case using starting_waits [of y z i stop] by blast
qed

lemma shutdown_clears:
  assumes "fate s = None" and "at_phase s = Open"
  shows "server_step\<^sup>*\<^sup>* s (shutdownAll_clear (shutdownAll_stop s))"
proof -
  have "server_step s (shutdownAll_stop s)" using assms by (rule server_step.shuts)
  moreover have "server_step (shutdownAll_stop s) (shutdownAll_clear (shutdownAll_stop s))"
    using assms by (intro server_step.clears) (simp_all add: server_defs)
  ultimately show ?thesis by (rule converse_rtranclp_into_rtranclp [OF _ r_into_rtranclp])
qed

end
