(* ===== verification/Server_Guarantees.thy ===== *)
theory Server_Guarantees
  imports Administration Server
begin

text \<open>
  What the server guarantees whatever its clients do, and the two ways in which its shutdown goes wrong.
\<close>

section \<open>Clients\<close>

lemma attach_request:
  assumes "word_tok n" and "name_base s n = Some i" and "\<not> joinedToDataBase cl"
  shows "handle_request (command_text (AttachCommand n)) (cl, s) =
     (Inr (new_Result\<lparr>messeage := ''Succes'', isSucces := True\<rparr>, True), cl\<lparr>baseId := i, joinedToDataBase := True\<rparr>, s)"
proof -
  have "operator_executeCommand (command_text (AttachCommand n)) (cl, s) =
      (Inr (new_Result\<lparr>messeage := ''Succes'', isSucces := True\<rparr>), cl\<lparr>baseId := i, joinedToDataBase := True\<rparr>, s)"
    using executeCommand_ok [OF parse_command_text0 [of "AttachCommand n"]] assms(1,2)
    by (simp add: bnd_def reads_def modify_def rethrow_as_def getDataBaseId_def at_map_def set_messeage_def new_Result_def)
  moreover have "command_text (AttachCommand n) \<noteq> ''DISCONNECT''" "command_text (AttachCommand n) \<noteq> ''LEAVE''"
    by (simp_all add: command_text_def)
  ultimately show ?thesis using assms(3) by (simp add: handle_request_def)
qed

text \<open>
  (C14) Whatever the clients send, in whatever order their requests are handled, and whatever becomes of
  their connections: names are never shared between databases, every client has the number it is filed
  under, and a client that is attached has the number of a place in the vector of databases.
\<close>

theorem clients_stay_attached:
  assumes "new_System p v = Inr sy" and "server_step\<^sup>*\<^sup>* (new_SyncServer sy) s" and "clients s i = Some cl"
  shows "inj_on (name_base (oper s)) (dom (name_base (oper s))) \<and> client_id cl = i \<and>
    (joinedToDataBase cl \<longrightarrow> baseId cl < length (bases (oper s)) \<and>
       getDataBaseById (oper s) (baseId cl) \<noteq> Inl (StdOutOfRange ''vector::_M_range_check''))"
proof -
  have "clients_known s" by (rule server_clients_known [OF assms(2) started_clients_known [OF assms(1)]])
  then show ?thesis
    using assms(3)
    by (auto simp: clients_known_def names_known_def attached_known_def getDataBaseById_def at_bases_def split: option.splits)
qed

theorem clients_stay_attached_witness:
  "\<exists>sy s cl. new_System [''data''] sample_volume = Inr sy \<and> server_step\<^sup>*\<^sup>* (new_SyncServer sy) s \<and>
     clients s 0 = Some cl \<and> joinedToDataBase cl \<and> baseId cl < length (bases (oper s))"
proof -
  obtain sy where sy: "new_System [''data''] sample_volume = Inr sy" "name_base sy ''default'' = Some 0"
    using sample_started by auto
  let ?cl = "(new_ClientInfo 0)\<lparr>baseId := 0, joinedToDataBase := True\<rparr>"
  let ?s0 = "new_SyncServer sy"
  let ?sa = "?s0\<lparr>acceptor := Admitting\<rparr>"
  let ?s1 = "(addNewClient ?sa)\<lparr>acceptor := Accepting\<rparr>"
  let ?s2 = "set_thread 0 AtLoop False ?s1"
  let ?s3 = "set_thread 0 Serving False ?s2"
  let ?s4 = "set_thread 0 AtLoop False (?s3\<lparr>oper := sy, clients := (clients ?s3)(0 \<mapsto> ?cl)\<rparr>)"
  have c: "clients ?s1 0 = Some (new_ClientInfo 0)" "clients ?s3 0 = Some (new_ClientInfo 0)" "oper ?s3 = sy"
    by (simp_all add: server_defs new_SyncServer_def)
  have "handle_request (command_text (AttachCommand ''default'')) (new_ClientInfo 0, oper ?s3) =
      (Inr (new_Result\<lparr>messeage := ''Succes'', isSucces := True\<rparr>, True), ?cl, sy)"
    using attach_request [OF valid_people(2) sy(2), of "new_ClientInfo 0"] c(3) by (simp add: new_ClientInfo_def)
  note req = this
  have "server_step ?s0 ?sa" by (rule server_step.accepts) (simp_all add: server_defs new_SyncServer_def)
  moreover have "server_step ?sa ?s1" by (rule server_step.admits) (simp_all add: server_defs new_SyncServer_def)
  moreover have "server_step ?s1 ?s2"
    by (rule server_step.starts [OF _ _ _ c(1)]) (simp_all add: server_defs new_SyncServer_def)
  moreover have "server_step ?s2 ?s3" by (rule server_step.enters) (simp_all add: server_defs new_SyncServer_def)
  moreover have "server_step ?s3 ?s4"
    using server_step.answers [OF _ _ c(2) req, of False] by (simp add: set_thread_def new_SyncServer_def addNewClient_def Let_def)
  ultimately have r: "server_step\<^sup>*\<^sup>* ?s0 ?s4" by (meson converse_rtranclp_into_rtranclp rtranclp.rtrancl_refl)
  have cl: "clients ?s4 0 = Some ?cl" by (simp add: set_thread_def)
  have "baseId ?cl < length (bases (oper ?s4))" using clients_stay_attached [OF sy(1) r cl] by simp
  then show ?thesis using sy(1) r cl
    by (intro exI [of _ sy] exI [of _ ?s4] exI [of _ ?cl]) simp
qed

section \<open>Shutting down\<close>

text \<open>
  (C37) A connection that was accepted just before the shutdown hangs the server: \<^verbatim>\<open>shutdownAll\<close>
  joins its thread while it holds the mutex that the thread waits for, so the shutdown never ends.
\<close>

theorem shutdown_deadlocks:
  assumes "fate s = None" and "at_phase s = Open" and "threads s i = Some (Starting, stop)"
  shows "\<exists>s1. server_step\<^sup>*\<^sup>* s s1 \<and> fate s1 = None \<and>
     (\<forall>s2. server_step\<^sup>*\<^sup>* s1 s2 \<longrightarrow> at_phase s2 = Cleared \<and> threads s2 i = Some (Starting, True))"
proof -
  let ?s = "shutdownAll_clear (shutdownAll_stop s)"
  have "at_phase ?s = Cleared" "threads ?s i = Some (Starting, True)" "fate ?s = None"
    using assms by (simp_all add: server_defs)
  then show ?thesis using shutdown_clears [OF assms(1,2)] starting_waits_ever by blast
qed

theorem shutdown_deadlocks_witness:
  "\<exists>sy s1. server_step\<^sup>*\<^sup>* (addNewClient (new_SyncServer sy)) s1 \<and>
     (\<forall>s2. server_step\<^sup>*\<^sup>* s1 s2 \<longrightarrow> at_phase s2 = Cleared \<and> threads s2 0 = Some (Starting, True))"
  using shutdown_deadlocks [of "addNewClient (new_SyncServer sy)" 0 False for sy] by (simp add: server_defs new_SyncServer_def) blast

text \<open>
  The shutdown destroys the clients before it joins their threads: a thread that is in the middle of a
  request goes on with a client that is no more.
\<close>

theorem shutdown_frees_clients_in_use:
  assumes "fate s = None" and "at_phase s = Open" and "threads s i = Some (Serving, stop)"
  shows "\<exists>s'. server_step\<^sup>*\<^sup>* s s' \<and> fate s' = Some (Undefined ''client destroyed while its thread runs'')"
proof -
  let ?s = "shutdownAll_clear (shutdownAll_stop s)"
  have "fate ?s = None" "threads ?s i = Some (Serving, True)" "clients ?s i = None"
    using assms by (simp_all add: server_defs)
  then have "server_step ?s (?s\<lparr>fate := Some (Undefined ''client destroyed while its thread runs'')\<rparr>)"
    by (rule server_step.dangles)
  then have "server_step\<^sup>*\<^sup>* s (?s\<lparr>fate := Some (Undefined ''client destroyed while its thread runs'')\<rparr>)"
    using shutdown_clears [OF assms(1,2)] by (rule rtranclp.rtrancl_into_rtrancl [rotated])
  moreover have "fate (?s\<lparr>fate := f\<rparr>) = f" for f by simp
  ultimately show ?thesis by blast
qed

theorem shutdown_frees_clients_in_use_witness:
  "\<exists>sy s'. server_step\<^sup>*\<^sup>* (set_thread 0 Serving False (addNewClient (new_SyncServer sy))) s' \<and>
     fate s' = Some (Undefined ''client destroyed while its thread runs'')"
  using shutdown_frees_clients_in_use [of "set_thread 0 Serving False (addNewClient (new_SyncServer sy))" 0 False for sy]
  by (simp add: server_defs new_SyncServer_def)

end
