(* ===== verification/Client_Library.thy ===== *)
theory Client_Library
  imports Server_Guarantees
begin

text \<open>
  \<^verbatim>\<open>src/include/SQLid_API.h\<close>: the class a client program uses, over the same framing as the server
  (the class \<^verbatim>\<open>BaseConnection\<close> is repeated in that file); and what a client and a session of the
  server make of each other. An error code that a function throws and an allocation that fails are the left
  result. Resolving a name, connecting and closing are calls of the library and are not modelled.
\<close>

section \<open>SQLid API\<close>

definition check :: "error_code option \<Rightarrow> failure + unit" where
  "check e = (case e of None \<Rightarrow> Inr () | Some c \<Rightarrow> Inl (SystemError c))"

definition api_sendText :: "string \<Rightarrow> connection \<Rightarrow> (failure + unit) \<times> connection" where
  "api_sendText msg c =
     (case sendNumber (length msg) c of (e, c') \<Rightarrow>
      case check e of Inl f \<Rightarrow> (Inl f, c')
      | Inr _ \<Rightarrow> (case sendText msg c' of (e, c'') \<Rightarrow> (check e, c'')))"

definition api_readText :: "nat \<Rightarrow> connection \<Rightarrow> (failure + string) \<times> connection" where
  "api_readText mem c =
     (case readNumber 0 c of (e, sz, c') \<Rightarrow>
      case check e of Inl f \<Rightarrow> (Inl f, c')
      | Inr _ \<Rightarrow>
         if mem < sz then (Inl BadAlloc, c')
         else (case conn_readText (replicate sz NUL) c' of (e, buf, c'') \<Rightarrow>
               case check e of Inl f \<Rightarrow> (Inl f, c'') | Inr _ \<Rightarrow> (Inr buf, c'')))"

definition api_sendJson :: "(json \<Rightarrow> string) \<Rightarrow> json \<Rightarrow> connection \<Rightarrow> (failure + unit) \<times> connection" where
  "api_sendJson serialize j c = (case send_json serialize j c of (e, c') \<Rightarrow> (check e, c'))"

definition api_readJson :: "(string \<Rightarrow> json option) \<Rightarrow> nat \<Rightarrow> connection \<Rightarrow> (failure + json) \<times> connection" where
  "api_readJson parse_json mem c =
     (case read_json parse_json mem JNull c of
        (Inl f, c') \<Rightarrow> (Inl f, c')
      | (Inr (e, j), c') \<Rightarrow> (case check e of Inl f \<Rightarrow> (Inl f, c') | Inr _ \<Rightarrow> (Inr j, c')))"

text \<open>
  The exchanges of the class. Between sending and reading the server's bytes arrive: \<open>net\<close> is what the
  network does to the connection meanwhile.
\<close>

definition joinToDataBase :: "nat \<Rightarrow> (connection \<Rightarrow> connection) \<Rightarrow> string \<Rightarrow> connection \<Rightarrow> (failure + string) \<times> connection" where
  "joinToDataBase mem net name c =
     (case api_sendText name c of (Inl f, c') \<Rightarrow> (Inl f, c') | (Inr _, c') \<Rightarrow> api_readText mem (net c'))"

definition request ::
    "(string \<Rightarrow> json option) \<Rightarrow> nat \<Rightarrow> (connection \<Rightarrow> connection) \<Rightarrow> string \<Rightarrow> connection \<Rightarrow> (failure + json) \<times> connection" where
  "request parse_json mem net req c =
     (case api_sendText req c of (Inl f, c') \<Rightarrow> (Inl f, c') | (Inr _, c') \<Rightarrow> api_readJson parse_json mem (net c'))"

text \<open>The destructor says goodbye and ignores what becomes of it.\<close>

definition close_API :: "connection \<Rightarrow> connection" where
  "close_API c = snd (api_sendText ''DISCONNECT'' c)"

section \<open>Sending and reading\<close>

lemma length_le_bytes_8 [simp]: "length (le_bytes 8 n) = 8"
  by simp

lemma api_sendText_ok:
  assumes "8 \<le> window c" and "length (frame t) \<le> budget c"
  shows "api_sendText t c = (Inr (), c\<lparr>outgoing := outgoing c @ frame t, budget := budget c - length (frame t)\<rparr>)"
  using assms
  by (simp add: api_sendText_def sendNumber_def write_some_def asio_write_def sendText_def check_def frame_def del: le_bytes.simps)

lemma api_readJson_frame:
  assumes "concat (incoming d) = frame (serialize j) @ u" and "parse_json (serialize j) = Some j"
    and "length (serialize j) < SIZE_MOD" and "length (serialize j) \<le> mem"
  shows "\<exists>rest. api_readJson parse_json mem d = (Inr j, d\<lparr>incoming := rest\<rparr>) \<and> concat rest = u"
proof -
  let ?c = "\<lparr>incoming = [], outgoing = [], budget = length (frame (serialize j)), window = 0\<rparr>"
  have s: "send_json serialize j ?c = (None, ?c\<lparr>outgoing := frame (serialize j), budget := 0\<rparr>)"
    by (simp add: send_json_ok)
  obtain rest where "read_json parse_json mem JNull d = (Inr (None, j), d\<lparr>incoming := rest\<rparr>)" "concat rest = u"
    using read_sent_json [OF s, of d u parse_json mem JNull] assms by auto
  then show ?thesis by (intro exI [of _ rest]) (simp add: api_readJson_def check_def)
qed

text \<open>One frame, of which the first segment has the length.\<close>

lemma take_bytes_all: "[] \<notin> set segs \<Longrightarrow> concat segs = t \<Longrightarrow> take_bytes (length t) segs = (t, [])"
proof (induction segs arbitrary: t)
  case (Cons seg segs)
  then have "segs = []" if "concat segs = []" using that by (cases segs) auto
  then show ?case using Cons by (auto simp: push_back_segment_def)
qed simp

lemma one_frame_delivered:
  assumes "concat segs = frame t" and "[] \<notin> set segs" and "8 \<le> length (hd segs)"
  shows "delivered [t] segs"
proof (cases segs)
  case (Cons seg rest)
  have s: "seg @ concat rest = le_bytes 8 (length t) @ t" using assms(1) by (simp add: Cons frame_def)
  have "take 8 seg = take 8 (seg @ concat rest)" "drop 8 seg @ concat rest = drop 8 (seg @ concat rest)"
    using assms(3) Cons by simp_all
  then have "take 8 seg = le_bytes 8 (length t)" "drop 8 seg @ concat rest = t" unfolding s by (simp_all del: le_bytes.simps)
  moreover have "take_bytes (length t) (push_back_segment (drop 8 seg) rest) = (t, [])"
    using assms(2) Cons calculation(2) by (intro take_bytes_all) (auto simp: push_back_segment_def)
  ultimately show ?thesis using assms(3) Cons by simp
next
  case Nil
  then show ?thesis using arg_cong [OF assms(1), of length] by (simp add: frame_def)
qed

section \<open>A request and its answer\<close>


definition attached_answer :: Result where
  "attached_answer = new_Result\<lparr>messeage := ''Succes'', isSucces := True\<rparr>"

lemma sample_attach:
  assumes "name_base s ''default'' = Some 0"
  shows "handle_request '' ATTACH TO default'' (new_ClientInfo i, s) =
     (Inr (attached_answer, True), (new_ClientInfo i)\<lparr>baseId := 0, joinedToDataBase := True\<rparr>, s)"
proof -
  have "command_text (AttachCommand ''default'') = '' ATTACH TO default''" by (simp add: command_text_def)
  then show ?thesis
    using attach_request [OF valid_people(2) assms, of "new_ClientInfo i"] unfolding attached_answer_def
    by (simp add: new_ClientInfo_def)
qed

lemma sample_text: "request_text 100 '' ATTACH TO default''" "request_text 100 ''DISCONNECT''"
  by (simp_all add: request_text_def)

lemma length_frame: "length (frame t) = 8 + length t"
  by (simp add: frame_def del: le_bytes.simps)


section \<open>Sessions\<close>


lemma sample_conversation:
  assumes "name_base sy ''default'' = Some 0"
  shows "conversation ['' ATTACH TO default'', ''DISCONNECT''] (new_ClientInfo i, sy) =
     ([attached_answer, farewell], Finished, (new_ClientInfo i)\<lparr>baseId := 0, joinedToDataBase := True\<rparr>, sy)"
  using sample_attach [OF assms, of i] by (simp add: handle_request_def [of "''DISCONNECT''"])


end
