(* ===== verification/Dialogue.thy ===== *)
theory Dialogue
  imports Client_Library
begin

text \<open>
  Exchanges with the server that do not go the way a client expects: texts that are no command, a client that
  stops sending, and \<^verbatim>\<open>joinToDataBase\<close> of the client library.
\<close>

section \<open>The answer to a text that is no command\<close>

definition help_answer :: Result where
  "help_answer = new_Result\<lparr>body := getHelp, messeage := ''Some info ...'', isSucces := True\<rparr>"

lemma help_request:
  assumes "parse_command (istr_of q) = Inr HelpCommand" and "\<not> joinedToDataBase cl" and "q \<noteq> ''DISCONNECT''" and "q \<noteq> ''LEAVE''"
  shows "handle_request q (cl, s) = (Inr (help_answer, True), cl, s)"
proof -
  have "run_command HelpCommand \<lparr>answer = new_Result, client = cl, sys = s\<rparr> =
      (Inr (), \<lparr>answer = new_Result\<lparr>body := getHelp, messeage := ''Some info ...''\<rparr>, client = cl, sys = s\<rparr>)"
    by (simp add: bnd_def modify_def set_messeage_def)
  then have "operator_executeCommand q (cl, s) = (Inr help_answer, cl, s)"
    using executeCommand_ok [OF assms(1)] by (simp add: help_answer_def)
  then show ?thesis using assms(2-4) by (simp add: handle_request_def)
qed

lemma empty_text_is_help: "parse_command (istr_of []) = Inr HelpCommand"
  by (simp add: parse_command_def read_str_end)

section \<open>Joining\<close>

lemma single_frame_delivered: "delivered [t] [frame t]"
proof (rule one_frame_delivered)
  have "frame t \<noteq> []" using length_frame [of t] by (metis add_is_0 list.size(3) zero_neq_numeral)
  then show "[] \<notin> set [frame t]" by simp
qed (simp_all add: length_frame)

text \<open>
  The client library joins a database by sending its name alone. To the server that is no command: it
  answers with the help text, and the client is not attached.
\<close>

theorem join_does_not_attach:
  assumes "word_tok n" and "n \<notin> command_verbs" and "n \<noteq> ''DISCONNECT''" and "n \<noteq> ''LEAVE''" and "\<not> joinedToDataBase cl"
    and "8 \<le> window c" and "length (frame n) \<le> budget c"
    and "length (serialize (to_json help_answer)) \<le> mem" and "length (serialize (to_json help_answer)) < SIZE_MOD"
  shows "handle_request n (cl, s) = (Inr (help_answer, True), cl, s) \<and>
     fst (joinToDataBase mem (\<lambda>c'. c'\<lparr>incoming := [frame (serialize (to_json help_answer))]\<rparr>) n c) =
       Inr (serialize (to_json help_answer))"
proof
  have "parse_command (istr_of n) = Inr HelpCommand"
    using read_str_word [OF assms(1), of "[]" "[]"] assms(2) by (simp add: parse_command_def command_verbs_def)
  then show "handle_request n (cl, s) = (Inr (help_answer, True), cl, s)" using assms(3-5) by (simp add: help_request)
next
  let ?t = "serialize (to_json help_answer)"
  let ?net = "\<lambda>c'. c'\<lparr>incoming := [frame ?t]\<rparr>"
  obtain c1 where c1: "api_sendText n c = (Inr (), c1)" using api_sendText_ok [OF assms(6,7)] by simp
  have "delivered [?t] (incoming (?net c1))"
    using single_frame_delivered [of ?t] by simp
  then obtain c2 rest where "readNumber 0 (?net c1) = (None, length ?t, c2)"
    "conn_readText (replicate (length ?t) NUL) c2 = (None, ?t, (?net c1)\<lparr>incoming := rest\<rparr>)"
    using read_request [of ?t "[]" "?net c1" 0] assms(9) by blast
  then show "fst (joinToDataBase mem ?net n c) = Inr ?t"
    using c1 assms(8) by (simp add: joinToDataBase_def api_readText_def check_def)
qed

theorem join_does_not_attach_witness:
  "\<exists>s. name_base s ''default'' = Some 0 \<and>
     handle_request ''default'' (new_ClientInfo 0, s) = (Inr (help_answer, True), new_ClientInfo 0, s) \<and>
     fst (joinToDataBase 100 (\<lambda>c. c\<lparr>incoming := [frame ''help'']\<rparr>) ''default''
       \<lparr>incoming = [], outgoing = [], budget = 100, window = 8\<rparr>) = Inr ''help''"
proof -
  obtain s :: System where s: "name_base s = [''default'' \<mapsto> 0]" using sample_started by blast
  have "handle_request ''default'' (new_ClientInfo 0, s) = (Inr (help_answer, True), new_ClientInfo 0, s) \<and>
     fst (joinToDataBase 100 (\<lambda>c. c\<lparr>incoming := [frame ((\<lambda>j. ''help'') (to_json help_answer))]\<rparr>) ''default''
       \<lparr>incoming = [], outgoing = [], budget = 100, window = 8\<rparr>) = Inr ((\<lambda>j. ''help'') (to_json help_answer))"
    by (rule join_does_not_attach) (use valid_people(2) in \<open>simp_all add: command_verbs_def new_ClientInfo_def length_frame\<close>)
  then show ?thesis using s by (intro exI [of _ s]) simp
qed

section \<open>A client that stops sending\<close>

lemma help_round:
  assumes "incoming (conn s) = []" and "num s = 0" and "err s = None" and "\<not> joinedToDataBase (fst (who s))"
    and "length (frame (serialize (to_json help_answer))) \<le> budget (conn s)"
  shows "serve_round serialize mem s = (None, s\<lparr>conn := (conn s)\<lparr>outgoing := outgoing (conn s) @ frame (serialize (to_json help_answer)),
     budget := budget (conn s) - length (frame (serialize (to_json help_answer)))\<rparr>\<rparr>)"
proof -
  have "readNumber (num s) (conn s) = (Some Eof, 0, conn s)"
    using assms(1,2) le_nat_le_bytes_8 [of 0] by (simp add: readNumber_def read_some_def)
  moreover have "conn_readText [] (conn s) = (None, [], conn s)"
    using assms(1) by (simp add: conn_readText_def asio_read_def)
  moreover have "handle_request [] (who s) = (Inr (help_answer, True), who s)"
    using help_request [OF empty_text_is_help assms(4)] by (metis list.distinct(1) prod.collapse)
  ultimately show ?thesis
    using assms(2,3) send_json_ok [of serialize "to_json help_answer" "conn s"] assms(5) by (simp add: serve_round_def Let_def)
qed

text \<open>
  (C38) A client that connects and ends its side of the connection without sending anything is answered with
  the help text again and again: the error of \<^verbatim>\<open>readNumber\<close> is dropped, the length stays 0, and the
  loop goes on until a stop is requested or the connection takes no more.
\<close>

theorem silent_client_is_answered_for_ever:
  assumes "incoming c = []" and "outgoing c = []" and "n * length (frame (serialize (to_json help_answer))) \<le> budget c"
  shows "\<exists>s'. processQueries serialize mem n (new_session c i sy) = (Stopped, s') \<and>
     outgoing (conn s') = concat (replicate n (frame (serialize (to_json help_answer)))) \<and> who s' = (new_ClientInfo i, sy)"
proof -
  let ?f = "frame (serialize (to_json help_answer))"
  have "\<exists>s'. processQueries serialize mem n s = (Stopped, s') \<and> outgoing (conn s') = outgoing (conn s) @ concat (replicate n ?f) \<and>
      who s' = who s"
    if "incoming (conn s) = []" "num s = 0" "err s = None" "\<not> joinedToDataBase (fst (who s))" "n * length ?f \<le> budget (conn s)" for s
    using that
  proof (induction n arbitrary: s)
    case (Suc n)
    have b: "length ?f \<le> budget (conn s)" using Suc.prems(5) by simp
    let ?s = "s\<lparr>conn := (conn s)\<lparr>outgoing := outgoing (conn s) @ ?f, budget := budget (conn s) - length ?f\<rparr>\<rparr>"
    have "\<exists>s'. processQueries serialize mem n ?s = (Stopped, s') \<and>
        outgoing (conn s') = outgoing (conn ?s) @ concat (replicate n ?f) \<and> who s' = who ?s"
      by (rule Suc.IH) (use Suc.prems in \<open>simp_all add: algebra_simps\<close>)
    then show ?case using help_round [where serialize = serialize, OF Suc.prems(1-4) b] by simp
  qed simp
  from this [of "new_session c i sy"] show ?thesis using assms by (simp add: new_session_def new_ClientInfo_def)
qed

theorem silent_client_is_answered_for_ever_witness:
  "\<exists>sy s'. processQueries (\<lambda>j. ''help'') 100 3 (new_session \<lparr>incoming = [], outgoing = [], budget = 36, window = 8\<rparr> 0 sy) = (Stopped, s') \<and>
     outgoing (conn s') = frame ''help'' @ frame ''help'' @ frame ''help''"
proof -
  have "concat (replicate 3 (frame ''help'')) = frame ''help'' @ frame ''help'' @ frame ''help''"
    by (simp add: numeral_3_eq_3)
  then show ?thesis
    using silent_client_is_answered_for_ever [of "\<lparr>incoming = [], outgoing = [], budget = 36, window = 8\<rparr>" 3 "\<lambda>j. ''help''" 100 0 sy]
    by (auto simp: length_frame)
qed

end
