(* ===== verification/Memory_Map_Windows.thy ===== *)
theory Memory_Map_Windows
  imports Memory_Map
begin

text \<open>
  \<^verbatim>\<open>src/src/files/MemoryMapWindows.h\<close>: the storage of a table over the Win32 API, in place of
  \<^verbatim>\<open>MemoryMapLinux.h\<close>. Of the API the model has what its documentation promises for the calls of
  the file: the file pointer, the two halves of sizes, the mapping object and the view. The two limits
  are as for Linux. The program checks none of the calls in \<^verbatim>\<open>expandFile\<close>.

  Below two gigabytes the two implementations agree; beyond, the 32-bit halves are cut off.
\<close>

section \<open>The Win32 calls\<close>

record windows_map =
  hFile :: bool
  hMap :: "nat option"  \<comment> \<open>the size of the mapping object\<close>
  view :: "nat option"  \<comment> \<open>\<^verbatim>\<open>mappedData\<close>: the size of the view, none for the null pointer\<close>
  disk_bytes :: "char list"
  file_pointer :: nat
  win_fileSize :: nat
  win_lineLength :: nat
  disk_max :: nat
  view_max :: nat

text \<open>The low half of a size; a distance is signed, and a negative one from the start of the file is refused.\<close>

definition low_half :: "nat \<Rightarrow> nat" where
  "low_half n = n mod 2 ^ 32"

definition SetFilePointer :: "nat \<Rightarrow> windows_map \<Rightarrow> windows_map" where
  "SetFilePointer n w = (if low_half n < 2 ^ 31 then w\<lparr>file_pointer := low_half n\<rparr> else w)"

definition SetEndOfFile :: "windows_map \<Rightarrow> windows_map" where
  "SetEndOfFile w =
     (if disk_max w < file_pointer w then w else w\<lparr>disk_bytes := str_resize (file_pointer w) (disk_bytes w)\<rparr>)"

text \<open>
  A mapping object of size 0 has the size of the file, and there is none for an empty file; a greater size
  than the file's extends the file.
\<close>

definition CreateFileMapping :: "nat \<Rightarrow> windows_map \<Rightarrow> windows_map" where
  "CreateFileMapping n w =
     (let m = low_half n; len = length (disk_bytes w) in
      if m = 0 then w\<lparr>hMap := (if len = 0 then None else Some len)\<rparr>
      else if m \<le> len then w\<lparr>hMap := Some m\<rparr>
      else if disk_max w < m then w\<lparr>hMap := None\<rparr>
      else w\<lparr>hMap := Some m, disk_bytes := str_resize m (disk_bytes w)\<rparr>)"

definition MapViewOfFile :: "nat \<Rightarrow> windows_map \<Rightarrow> windows_map" where
  "MapViewOfFile n w = w\<lparr>view := (case hMap w of None \<Rightarrow> None
       | Some m \<Rightarrow> let k = (if n = 0 then m else n) in if k \<le> m \<and> k \<le> view_max w then Some k else None)\<rparr>"

section \<open>MemoryMapWindows\<close>

definition win_getMaxLine :: "windows_map \<Rightarrow> exn + nat" where
  "win_getMaxLine w = (if win_lineLength w = 0 then Inl (Undefined ''division by zero'')
                       else Inr (win_fileSize w div win_lineLength w))"

definition win_expandFile :: "(windows_map, bool) act" where
  "win_expandFile w0 =
     (let w = w0\<lparr>view := None, hMap := None\<rparr>;
          newFileSize = size_mul (win_fileSize w) 2;
          w = MapViewOfFile newFileSize (CreateFileMapping newFileSize (SetEndOfFile (SetFilePointer newFileSize w)));
          w = w\<lparr>win_fileSize := newFileSize\<rparr>
      in (Inr (view w \<noteq> None), w))"

definition win_close :: "windows_map \<Rightarrow> windows_map" where
  "win_close w = w\<lparr>view := None, hMap := None, hFile := False, win_fileSize := 0\<rparr>"

definition new_MemoryMapWindows :: "nat \<Rightarrow> nat \<Rightarrow> nat \<Rightarrow> windows_map" where
  "new_MemoryMapWindows len maxf maxm =
     \<lparr>hFile = False, hMap = None, view = None, disk_bytes = [], file_pointer = 0, win_fileSize = 0, win_lineLength = len,
      disk_max = maxf, view_max = maxm\<rparr>"

text \<open>Given what \<^verbatim>\<open>CreateFile\<close> delivers: no handle, or the bytes of the file.\<close>

definition win_openFile :: "string \<Rightarrow> char list option \<Rightarrow> (windows_map, bool) act" where
  "win_openFile filename contents w0 =
     (let w = win_close w0 in
      case contents of
        None \<Rightarrow> (Inl (RuntimeError (''Cannot open file: '' @ filename)), w)
      | Some bs \<Rightarrow>
          let w = w\<lparr>hFile := True, disk_bytes := bs, file_pointer := 0, win_fileSize := low_half (length bs)\<rparr>;
              w = (if win_fileSize w \<le> win_lineLength w
                   then (let w = w\<lparr>win_fileSize := size_mul (win_lineLength w) 100\<rparr>
                         in SetEndOfFile (SetFilePointer (win_fileSize w) w))
                   else w);
              w = CreateFileMapping 0 w
          in if hMap w = None then (Inl (RuntimeError ''CreateFileMapping failed''), w\<lparr>hFile := False\<rparr>)
             else let w = MapViewOfFile (win_fileSize w) w
                  in if view w = None then (Inl (RuntimeError ''MapViewOfFile failed''), w\<lparr>hMap := None, hFile := False\<rparr>)
                     else (Inr True, w))"

definition win_findLine :: "windows_map \<Rightarrow> nat \<Rightarrow> nat option" where
  "win_findLine w lineNumber =
     (if view w = None then None
      else let current = size_mul lineNumber (win_lineLength w)
           in if current < win_fileSize w then Some current else None)"

definition in_view :: "windows_map \<Rightarrow> nat \<Rightarrow> nat \<Rightarrow> bool" where
  "in_view w p n \<longleftrightarrow> (case view w of None \<Rightarrow> False | Some m \<Rightarrow> p + n \<le> m)"

definition win_memcpy_to :: "nat \<Rightarrow> nat \<Rightarrow> char list \<Rightarrow> (windows_map, unit) act" where
  "win_memcpy_to lineNumber offset bs w =
     (case win_findLine w lineNumber of
        None \<Rightarrow> (Inl (Undefined ''memcpy: null pointer''), w)
      | Some p \<Rightarrow> if in_view w (p + offset) (length bs)
                 then (Inr (), w\<lparr>disk_bytes := put_bytes (p + offset) bs (disk_bytes w)\<rparr>)
                 else (Inl (Undefined ''memcpy: outside the mapping''), w))"

definition win_writeText :: "nat \<Rightarrow> nat \<Rightarrow> string \<Rightarrow> (windows_map, unit) act" where
  "win_writeText lineNumber offset value w =
     (if size_sub (win_lineLength w) offset < length value
      then (Inl (RuntimeError ''Text is too long for the field''), w)
      else win_memcpy_to lineNumber offset value w)"

definition win_readText :: "windows_map \<Rightarrow> nat \<Rightarrow> nat \<Rightarrow> nat \<Rightarrow> exn + string" where
  "win_readText w lineNumber offset sz =
     (case win_findLine w lineNumber of
        None \<Rightarrow> if offset = 0 \<or> sz = 0 then Inr [] else Inl (Undefined ''readText: null pointer'')
      | Some p \<Rightarrow>
          let avail = (case view w of None \<Rightarrow> [] | Some m \<Rightarrow> drop (p + offset) (take m (disk_bytes w)))
          in if sz \<le> length avail \<or> NUL \<in> set avail then Inr (c_str (take sz avail))
             else Inl (Undefined ''readText: outside the mapping''))"

definition win_writeNumber :: "nat \<Rightarrow> nat \<Rightarrow> char list \<Rightarrow> (windows_map, unit) act" where
  "win_writeNumber lineNumber offset bs w =
     (if size_sub (win_lineLength w) offset < length bs
      then (Inl (RuntimeError ''Number is too long for the field''), w)
      else win_memcpy_to lineNumber offset bs w)"

definition win_readNumber :: "windows_map \<Rightarrow> nat \<Rightarrow> nat \<Rightarrow> nat \<Rightarrow> exn + char list" where
  "win_readNumber w lineNumber offset n =
     (case win_findLine w lineNumber of
        None \<Rightarrow> Inl (Undefined ''memcpy: null pointer'')
      | Some p \<Rightarrow> if in_view w (p + offset) n then Inr (get_bytes (p + offset) n (disk_bytes w))
                 else Inl (Undefined ''memcpy: outside the mapping''))"

definition win_getLineCount :: "windows_map \<Rightarrow> nat" where
  "win_getLineCount w = (if view w = None then 0
                         else length (filter (\<lambda>c. c = CHR 0x0A) (take (win_fileSize w) (disk_bytes w))))"

section \<open>Both implementations\<close>

text \<open>The calls the class \<^verbatim>\<open>MemoryMap\<close> makes on its core, whichever it is.\<close>

datatype core_call =
    WriteText nat nat string
  | ReadText nat nat nat
  | WriteNumber nat nat "char list"
  | ReadNumber nat nat nat
  | MaxLine
  | Expand

datatype core_reply = Done | Flag bool | Bytes "char list" | Lines nat

definition reply_with :: "('a \<Rightarrow> core_reply) \<Rightarrow> (exn + 'a) \<times> 's \<Rightarrow> (exn + core_reply) \<times> 's" where
  "reply_with f x = (map_sum id f (fst x), snd x)"

fun linux_call :: "core_call \<Rightarrow> (memory_map, core_reply) act" where
  "linux_call (WriteText l off t) m = reply_with (\<lambda>_. Done) (core_writeText l off t m)"
| "linux_call (ReadText l off n) m = reply_with Bytes (core_readText m l off n, m)"
| "linux_call (WriteNumber l off bs) m = reply_with (\<lambda>_. Done) (core_writeNumber l off bs m)"
| "linux_call (ReadNumber l off n) m = reply_with Bytes (core_readNumber m l off n, m)"
| "linux_call MaxLine m = reply_with Lines (getMaxLine m, m)"
| "linux_call Expand m = reply_with Flag (expandFile m)"

fun windows_call :: "core_call \<Rightarrow> (windows_map, core_reply) act" where
  "windows_call (WriteText l off t) w = reply_with (\<lambda>_. Done) (win_writeText l off t w)"
| "windows_call (ReadText l off n) w = reply_with Bytes (win_readText w l off n, w)"
| "windows_call (WriteNumber l off bs) w = reply_with (\<lambda>_. Done) (win_writeNumber l off bs w)"
| "windows_call (ReadNumber l off n) w = reply_with Bytes (win_readNumber w l off n, w)"
| "windows_call MaxLine w = reply_with Lines (win_getMaxLine w, w)"
| "windows_call Expand w = reply_with Flag (win_expandFile w)"

fun run_calls :: "('c \<Rightarrow> ('s, 'r) act) \<Rightarrow> 'c list \<Rightarrow> 's \<Rightarrow> (exn + 'r) list \<times> 's" where
  "run_calls call [] s = ([], s)"
| "run_calls call (c # cs) s =
     (case call c s of (r, s') \<Rightarrow> (case run_calls call cs s' of (rs, s'') \<Rightarrow> (r # rs, s'')))"

definition expansions :: "core_call list \<Rightarrow> nat" where
  "expansions cs = length (filter (\<lambda>c. c = Expand) cs)"

section \<open>Agreement\<close>

definition wf_win :: "windows_map \<Rightarrow> bool" where
  "wf_win w \<longleftrightarrow> view w = Some (win_fileSize w) \<and> length (disk_bytes w) = win_fileSize w \<and> 0 < win_fileSize w"

definition linux_of :: "windows_map \<Rightarrow> memory_map" where
  "linux_of w = \<lparr>mappedData = (if view w = None then NullMap else Mapped), file_bytes = disk_bytes w, fileSize = win_fileSize w,
     lineLength = win_lineLength w, expanding = False, max_file = disk_max w, max_map = view_max w\<rparr>"

definition small_enough :: "windows_map \<Rightarrow> nat \<Rightarrow> bool" where
  "small_enough w n \<longleftrightarrow> n < 2 ^ 31 \<and> n \<le> disk_max w \<and> n \<le> view_max w"

lemma small_enough_mono: "small_enough w n \<Longrightarrow> m \<le> n \<Longrightarrow> small_enough w m"
  by (simp add: small_enough_def)

lemma expand_agrees:
  assumes "wf_win w" and "small_enough w (2 * win_fileSize w)"
  shows "fst (win_expandFile w) = Inr True \<and> expandFile (linux_of w) = (Inr True, linux_of (snd (win_expandFile w))) \<and>
     wf_win (snd (win_expandFile w)) \<and> win_fileSize (snd (win_expandFile w)) = 2 * win_fileSize w \<and>
     disk_max (snd (win_expandFile w)) = disk_max w \<and> view_max (snd (win_expandFile w)) = view_max w"
proof -
  let ?n = "2 * win_fileSize w"
  have n: "?n < 2 ^ 31" "?n \<le> disk_max w" "?n \<le> view_max w" "0 < win_fileSize w" "length (disk_bytes w) = win_fileSize w"
    using assms by (simp_all add: small_enough_def wf_win_def)
  have l: "low_half ?n = ?n" using n(1) by (simp add: low_half_def)
  have m: "size_mul (win_fileSize w) 2 = ?n" using n(1) by (simp add: size_mul_def)
  have "win_expandFile w = (Inr True, w\<lparr>view := Some ?n, hMap := Some ?n, file_pointer := ?n,
      disk_bytes := str_resize ?n (disk_bytes w), win_fileSize := ?n\<rparr>)"
    using n by (simp add: win_expandFile_def Let_def m SetFilePointer_def l SetEndOfFile_def CreateFileMapping_def MapViewOfFile_def)
  moreover have "expandFile (linux_of w) = (Inr True, (linux_of w)\<lparr>file_bytes := str_resize ?n (disk_bytes w), fileSize := ?n\<rparr>)"
    using n assms(1) by (simp add: expandFile_def Let_def linux_of_def m wf_win_def)
  ultimately show ?thesis using assms(1) n by (simp add: wf_win_def linux_of_def)
qed

lemma access_agrees:
  assumes "wf_win w"
  shows "findLine (linux_of w) l = win_findLine w l" and "accessible (linux_of w) p n = in_view w p n"
    and "getMaxLine (linux_of w) = win_getMaxLine w"
  using assms by (simp_all add: findLine_def win_findLine_def accessible_def in_view_def linux_of_def wf_win_def
      getMaxLine_def win_getMaxLine_def)

lemma memcpy_agrees:
  assumes "wf_win w"
  shows "memcpy_to l off bs (linux_of w) = (fst (win_memcpy_to l off bs w), linux_of (snd (win_memcpy_to l off bs w))) \<and>
     wf_win (snd (win_memcpy_to l off bs w)) \<and> win_fileSize (snd (win_memcpy_to l off bs w)) = win_fileSize w \<and>
     disk_max (snd (win_memcpy_to l off bs w)) = disk_max w \<and> view_max (snd (win_memcpy_to l off bs w)) = view_max w"
proof -
  have "length (put_bytes p bs (disk_bytes w)) = win_fileSize w" if "in_view w p (length bs)" for p
    using that assms by (simp add: in_view_def wf_win_def)
  then show ?thesis
    using assms access_agrees [OF assms]
    by (auto simp: memcpy_to_def win_memcpy_to_def split: option.splits) (simp_all add: linux_of_def wf_win_def)
qed

lemma call_agrees:
  assumes "wf_win w" and "c = Expand \<Longrightarrow> small_enough w (2 * win_fileSize w)"
  shows "linux_call c (linux_of w) = (fst (windows_call c w), linux_of (snd (windows_call c w))) \<and> wf_win (snd (windows_call c w)) \<and>
     win_fileSize (snd (windows_call c w)) = (if c = Expand then 2 else 1) * win_fileSize w \<and>
     disk_max (snd (windows_call c w)) = disk_max w \<and> view_max (snd (windows_call c w)) = view_max w"
proof (cases c)
  case (WriteText l off t)
  then show ?thesis using memcpy_agrees [OF assms(1), of l off t] assms(1)
    by (simp add: core_writeText_def win_writeText_def reply_with_def linux_of_def)
next
  case (WriteNumber l off bs)
  then show ?thesis using memcpy_agrees [OF assms(1), of l off bs] assms(1)
    by (simp add: core_writeNumber_def win_writeNumber_def reply_with_def linux_of_def)
next
  case (ReadText l off n)
  have f: "mappedData (linux_of w) = Mapped" "file_bytes (linux_of w) = disk_bytes w" "view w = Some (win_fileSize w)"
    "take (win_fileSize w) (disk_bytes w) = disk_bytes w"
    using assms(1) by (simp_all add: linux_of_def wf_win_def)
  have "core_readText (linux_of w) l off n = win_readText w l off n"
    using f by (cases "win_findLine w l") (simp_all add: core_readText_def win_readText_def access_agrees(1) [OF assms(1)])
  then show ?thesis using ReadText assms(1) by (simp add: reply_with_def)
next
  case (ReadNumber l off n)
  have "core_readNumber (linux_of w) l off n = win_readNumber w l off n"
    unfolding core_readNumber_def memcpy_from_def win_readNumber_def access_agrees(1,2) [OF assms(1)]
    by (cases "win_findLine w l") (simp_all add: linux_of_def)
  then show ?thesis using ReadNumber assms(1) by (simp add: reply_with_def)
next
  case MaxLine
  then show ?thesis using access_agrees(3) [OF assms(1)] assms(1) by (simp add: reply_with_def)
next
  case Expand
  then show ?thesis using expand_agrees [OF assms(1)] assms(2) by (simp add: reply_with_def)
qed

lemma calls_agree:
  assumes "wf_win w" and "small_enough w (win_fileSize w * 2 ^ expansions cs)"
  shows "run_calls linux_call cs (linux_of w) = (fst (run_calls windows_call cs w), linux_of (snd (run_calls windows_call cs w))) \<and>
     wf_win (snd (run_calls windows_call cs w))"
  using assms
proof (induction cs arbitrary: w)
  case (Cons c cs)
  have e: "expansions (c # cs) = (if c = Expand then Suc (expansions cs) else expansions cs)" by (simp add: expansions_def)
  have "2 * win_fileSize w \<le> win_fileSize w * 2 ^ Suc (expansions cs)" by simp
  then have "c = Expand \<Longrightarrow> small_enough w (2 * win_fileSize w)"
    using small_enough_mono [OF Cons.prems(2), of "2 * win_fileSize w"] e by simp
  note a = call_agrees [OF Cons.prems(1), of c, OF this]
  obtain r w' where w': "windows_call c w = (r, w')" by (cases "windows_call c w")
  have f: "win_fileSize w' = (if c = Expand then 2 else 1) * win_fileSize w" using a by (simp add: w')
  have "win_fileSize w' * 2 ^ expansions cs = win_fileSize w * 2 ^ expansions (c # cs)"
    using e by (simp add: f)
  moreover have "disk_max w' = disk_max w" "view_max w' = view_max w" using a by (simp_all add: w')
  ultimately have "small_enough w' (win_fileSize w' * 2 ^ expansions cs)"
    using Cons.prems(2) unfolding small_enough_def by simp
  then show ?case using Cons.IH [of w'] a by (auto simp: w' split: prod.splits)
qed simp



section \<open>Great files\<close>

text \<open>
  A table file of between one and two gigabytes that has been opened and then grows loses every row on
  Windows: the distance given to \<^verbatim>\<open>SetFilePointer\<close> is negative as a 32-bit number, the pointer
  stays at the start of the file, and \<^verbatim>\<open>SetEndOfFile\<close> cuts the file off there; the expansion
  reports success.
\<close>

theorem windows_expansion_loses_rows:
  assumes "length bs = n" and "2 ^ 31 \<le> 2 * n" and "n < 2 ^ 31"
    and "2 * n \<le> disk_max w0" and "2 * n \<le> view_max w0" and "win_lineLength w0 < n"
  shows "fst (win_openFile name (Some bs) w0) = Inr True \<and> fst (win_expandFile (snd (win_openFile name (Some bs) w0))) = Inr True \<and>
     disk_bytes (snd (win_openFile name (Some bs) w0)) = bs \<and>
     disk_bytes (snd (win_expandFile (snd (win_openFile name (Some bs) w0)))) = replicate (2 * n) NUL"
proof -
  have n: "low_half n = n" "low_half (2 * n) = 2 * n" "size_mul n 2 = 2 * n" "0 < n" "\<not> 2 * n < 2 ^ 31"
    using assms(2,3) by (simp_all add: low_half_def size_mul_def)
  have o: "win_openFile name (Some bs) w0 = (Inr True, (win_close w0)\<lparr>hFile := True, disk_bytes := bs, file_pointer := 0,
      win_fileSize := n, hMap := Some n, view := Some n\<rparr>)"
    using assms(1,5,6) n(1,3,4) by (auto simp: win_openFile_def Let_def win_close_def CreateFileMapping_def MapViewOfFile_def low_half_def)
  show ?thesis
    unfolding o
    using assms(4,5) n
    by (simp add: win_expandFile_def Let_def win_close_def SetFilePointer_def SetEndOfFile_def CreateFileMapping_def
        MapViewOfFile_def str_resize_def)
qed

theorem windows_expansion_loses_rows_witness:
  "\<exists>w bs. length bs = 2 ^ 30 \<and> bs ! 0 = CHR ''x'' \<and> disk_bytes (snd (win_openFile ''people_storage.db'' (Some bs) w)) = bs \<and>
     disk_bytes (snd (win_expandFile (snd (win_openFile ''people_storage.db'' (Some bs) w)))) = replicate (2 ^ 31) NUL"
proof -
  define n :: nat where "n = 2 ^ 30"
  have n: "2 ^ 31 \<le> 2 * n" "n < 2 ^ 31" "2 * n \<le> 2 ^ 40" "16 < n" "2 * n = 2 ^ 31" "0 < n" by (simp_all add: n_def)
  let ?w = "new_MemoryMapWindows 16 (2 ^ 40) (2 ^ 40)" and ?bs = "replicate n (CHR ''x'')"
  have "disk_bytes (snd (win_openFile ''people_storage.db'' (Some ?bs) ?w)) = ?bs \<and>
     disk_bytes (snd (win_expandFile (snd (win_openFile ''people_storage.db'' (Some ?bs) ?w)))) = replicate (2 * n) NUL"
    using windows_expansion_loses_rows [of ?bs n ?w "''people_storage.db''"] n(1-4) by (simp add: new_MemoryMapWindows_def)
  moreover have "length ?bs = 2 ^ 30" by (simp add: n_def)
  moreover have "?bs ! 0 = CHR ''x''" using n(6) by simp
  ultimately show ?thesis unfolding n(5) by blast
qed

end
