(* ===== verification/Concurrency.thy ===== *)
theory Concurrency
  imports Table
begin

text \<open>
  The two places where threads of different clients meet inside a table: \<^verbatim>\<open>Tabble::allocateId\<close> of
  \<^verbatim>\<open>src/src/files/Tabble.h\<close>, and the stripe locks and the flag of \<^verbatim>\<open>MemoryMap::expand\<close> of
  \<^verbatim>\<open>src/src/files/MemoryMap.h\<close>. Each is a step relation whose steps are the atomic operations
  and critical sections of the code, taken by any number of threads in any order.
\<close>

section \<open>Handing out numbers\<close>

text \<open>
  Where a thread is in \<^verbatim>\<open>allocateId\<close>; the number it has, from the stack or fresh. The counters are
  atomic and do not reach their greatest value.
\<close>

datatype alloc_at = Start | Loading | Loaded nat | Grown nat | Counted nat | Reused nat | Fresh nat

record allocator =
  free_stack :: "nat list"
  next_line :: nat
  places :: nat
  max_lines :: nat
  alloc_pc :: "nat \<Rightarrow> alloc_at"

inductive alloc_step :: "allocator \<Rightarrow> allocator \<Rightarrow> bool" where
  pops: "alloc_pc s t = Start \<Longrightarrow> free_stack s = i # st \<Longrightarrow>
    alloc_step s (s\<lparr>free_stack := st, alloc_pc := (alloc_pc s)(t := Reused i)\<rparr>)"
| misses: "alloc_pc s t = Start \<Longrightarrow> free_stack s = [] \<Longrightarrow> alloc_step s (s\<lparr>alloc_pc := (alloc_pc s)(t := Loading)\<rparr>)"
| loads: "alloc_pc s t = Loading \<Longrightarrow> alloc_step s (s\<lparr>alloc_pc := (alloc_pc s)(t := Loaded (next_line s))\<rparr>)"
| grows_file: "alloc_pc s t = Loaded cur \<Longrightarrow> max_lines s \<le> cur \<Longrightarrow>
    alloc_step s (s\<lparr>max_lines := 2 * max_lines s, alloc_pc := (alloc_pc s)(t := Grown cur)\<rparr>)"
| fits: "alloc_pc s t = Loaded cur \<Longrightarrow> cur < max_lines s \<Longrightarrow> alloc_step s (s\<lparr>alloc_pc := (alloc_pc s)(t := Grown cur)\<rparr>)"
| adds_place: "alloc_pc s t = Grown cur \<Longrightarrow>
    alloc_step s (s\<lparr>places := Suc (places s), alloc_pc := (alloc_pc s)(t := Counted cur)\<rparr>)"
| advances: "alloc_pc s t = Counted cur \<Longrightarrow>
    alloc_step s (s\<lparr>next_line := Suc (next_line s), alloc_pc := (alloc_pc s)(t := Fresh cur)\<rparr>)"

fun fresh_number :: "alloc_at \<Rightarrow> nat option" where
  "fresh_number (Loaded n) = Some n"
| "fresh_number (Grown n) = Some n"
| "fresh_number (Counted n) = Some n"
| "fresh_number (Fresh n) = Some n"
| "fresh_number _ = None"

text \<open>Numbers from the stack are below the counter at the start, fresh ones are not.\<close>

definition stack_safe :: "nat \<Rightarrow> allocator \<Rightarrow> bool" where
  "stack_safe n0 s \<longleftrightarrow> distinct (free_stack s) \<and> (\<forall>i\<in>set (free_stack s). i < n0) \<and> n0 \<le> next_line s \<and>
     (\<forall>t i. alloc_pc s t = Reused i \<longrightarrow> i < n0 \<and> i \<notin> set (free_stack s)) \<and>
     (\<forall>t t' i. alloc_pc s t = Reused i \<and> alloc_pc s t' = Reused i \<longrightarrow> t = t') \<and>
     (\<forall>t n. fresh_number (alloc_pc s t) = Some n \<longrightarrow> n0 \<le> n)"

lemma stack_safe_goto:
  assumes "stack_safe n0 s" and "free_stack s' = free_stack s" and "next_line s \<le> next_line s'"
    and "alloc_pc s' = (alloc_pc s)(t := a)" and "\<forall>i. a \<noteq> Reused i" and "\<forall>n. fresh_number a = Some n \<longrightarrow> n0 \<le> n"
  shows "stack_safe n0 s'"
  using assms unfolding stack_safe_def by (auto intro: order_trans)

lemma fresh_number_bound: "stack_safe n0 s \<Longrightarrow> fresh_number (alloc_pc s t) = Some n \<Longrightarrow> n0 \<le> n"
  unfolding stack_safe_def by blast

lemma stack_safe_step:
  assumes "alloc_step s s'" and "stack_safe n0 s"
  shows "stack_safe n0 s'"
  using assms
proof (induction rule: alloc_step.induct)
  case (pops s t i st)
  let ?s = "s\<lparr>free_stack := st, alloc_pc := (alloc_pc s)(t := Reused i)\<rparr>"
  have st: "distinct (i # st)" "\<forall>j\<in>set (i # st). j < n0" using pops by (simp_all add: stack_safe_def)
  have new: "alloc_pc s u \<noteq> Reused i" for u
    using pops(2,3) by (metis stack_safe_def list.set_intros(1))
  have old: "j < n0 \<and> j \<notin> set (i # st)" if "alloc_pc s u = Reused j" for u j
    using pops(2,3) that by (metis stack_safe_def)
  have one: "u = v" if "alloc_pc s u = Reused j" "alloc_pc s v = Reused j" for u v j
    using pops(3) that unfolding stack_safe_def by blast
  have "\<forall>u j. ((alloc_pc s)(t := Reused i)) u = Reused j \<longrightarrow> j < n0 \<and> j \<notin> set st" using st old by auto
  moreover have "\<forall>u v j. ((alloc_pc s)(t := Reused i)) u = Reused j \<and> ((alloc_pc s)(t := Reused i)) v = Reused j \<longrightarrow> u = v"
  proof (intro allI impI)
    fix u v j
    assume "((alloc_pc s)(t := Reused i)) u = Reused j \<and> ((alloc_pc s)(t := Reused i)) v = Reused j"
    then show "u = v" using new [of u] new [of v] one [of u j v] by (cases "u = t"; cases "v = t") simp_all
  qed
  moreover have "\<forall>u n. fresh_number (((alloc_pc s)(t := Reused i)) u) = Some n \<longrightarrow> n0 \<le> n"
    using fresh_number_bound [OF pops(3)] by auto
  moreover have "n0 \<le> next_line s" using pops(3) by (simp add: stack_safe_def)
  moreover have "distinct st" "\<forall>j\<in>set st. j < n0" using st by simp_all
  moreover have "free_stack ?s = st" "next_line ?s = next_line s" "alloc_pc ?s = (alloc_pc s)(t := Reused i)" by simp_all
  ultimately show ?case unfolding stack_safe_def by presburger
next
  case (misses s t)
  show ?case by (rule stack_safe_goto [OF misses(3), of _ t Loading]) simp_all
next
  case (loads s t)
  have "n0 \<le> next_line s" using loads(2) by (simp add: stack_safe_def)
  then show ?case by (intro stack_safe_goto [OF loads(2), of _ t "Loaded (next_line s)"]) simp_all
next
  case (grows_file s t cur)
  have "n0 \<le> cur" using fresh_number_bound [OF grows_file(3), of t cur] grows_file(1) by simp
  then show ?case by (intro stack_safe_goto [OF grows_file(3), of _ t "Grown cur"]) simp_all
next
  case (fits s t cur)
  have "n0 \<le> cur" using fresh_number_bound [OF fits(3), of t cur] fits(1) by simp
  then show ?case by (intro stack_safe_goto [OF fits(3), of _ t "Grown cur"]) simp_all
next
  case (adds_place s t cur)
  have "n0 \<le> cur" using fresh_number_bound [OF adds_place(2), of t cur] adds_place(1) by simp
  then show ?case by (intro stack_safe_goto [OF adds_place(2), of _ t "Counted cur"]) simp_all
next
  case (advances s t cur)
  have "n0 \<le> cur" using fresh_number_bound [OF advances(2), of t cur] advances(1) by simp
  then show ?case by (intro stack_safe_goto [OF advances(2), of _ t "Fresh cur"]) simp_all
qed

lemma stack_safe_ever: "alloc_step\<^sup>*\<^sup>* s s' \<Longrightarrow> stack_safe n0 s \<Longrightarrow> stack_safe n0 s'"
  by (induction rule: rtranclp_induct) (simp_all add: stack_safe_step)

text \<open>
  However the threads are interleaved, the lines of erased rows are never handed out twice: a thread
  whose number comes from the stack shares it with no other thread.
\<close>

theorem reused_numbers_are_not_shared:
  assumes "alloc_step\<^sup>*\<^sup>* s s'" and "\<forall>t. alloc_pc s t = Start" and "distinct (free_stack s)"
    and "\<forall>i\<in>set (free_stack s). i < next_line s" and "alloc_pc s' t = Reused i" and "t \<noteq> u"
  shows "alloc_pc s' u \<noteq> Reused i \<and> alloc_pc s' u \<noteq> Fresh i \<and> i \<notin> set (free_stack s')"
proof -
  have "stack_safe (next_line s) s" using assms(2-4) by (simp add: stack_safe_def)
  then have s': "stack_safe (next_line s) s'" by (rule stack_safe_ever [OF assms(1)])
  have "alloc_pc s' u \<noteq> Fresh i"
  proof
    assume "alloc_pc s' u = Fresh i"
    then have "fresh_number (alloc_pc s' u) = Some i" by simp
    then have "next_line s \<le> i" using s' unfolding stack_safe_def by blast
    moreover have "i < next_line s" using s' assms(5) unfolding stack_safe_def by blast
    ultimately show False by simp
  qed
  then show ?thesis using s' assms(5,6) unfolding stack_safe_def by blast
qed

lemma finishes:
  assumes "alloc_pc s t = Loaded cur"
  shows "\<exists>s'. alloc_step\<^sup>*\<^sup>* s s' \<and> alloc_pc s' = (alloc_pc s)(t := Fresh cur) \<and> next_line s' = Suc (next_line s)"
proof -
  obtain s1 where s1: "alloc_step s s1" "alloc_pc s1 = (alloc_pc s)(t := Grown cur)" "next_line s1 = next_line s"
  proof (cases "max_lines s \<le> cur")
    case True
    then show ?thesis using that [OF alloc_step.grows_file [OF assms True]] by simp
  next
    case False
    then have "cur < max_lines s" by simp
    then show ?thesis using that [OF alloc_step.fits [OF assms]] by simp
  qed
  let ?s2 = "s1\<lparr>places := Suc (places s1), alloc_pc := (alloc_pc s1)(t := Counted cur)\<rparr>"
  let ?s3 = "?s2\<lparr>next_line := Suc (next_line ?s2), alloc_pc := (alloc_pc ?s2)(t := Fresh cur)\<rparr>"
  have "alloc_step s1 ?s2" using s1(2) by (intro alloc_step.adds_place) simp
  moreover have "alloc_step ?s2 ?s3" by (intro alloc_step.advances) simp
  ultimately have "alloc_step\<^sup>*\<^sup>* s ?s3" using s1(1) by (meson converse_rtranclp_into_rtranclp rtranclp.rtrancl_refl)
  then show ?thesis using s1(2,3) by (intro exI [of _ ?s3]) simp
qed

text \<open>
  Two insertions at a time can get the same fresh line: the counter is read and advanced in two steps.
  Both rows are then written to one line, and a line that was counted stays empty.
\<close>

theorem fresh_numbers_collide:
  assumes "free_stack s = []" and "alloc_pc s t = Start" and "alloc_pc s u = Start" and "t \<noteq> u"
  shows "\<exists>s'. alloc_step\<^sup>*\<^sup>* s s' \<and> alloc_pc s' t = Fresh (next_line s) \<and> alloc_pc s' u = Fresh (next_line s) \<and>
     next_line s' = next_line s + 2"
proof -
  let ?n = "next_line s"
  let ?s1 = "s\<lparr>alloc_pc := (alloc_pc s)(t := Loading)\<rparr>"
  let ?s2 = "?s1\<lparr>alloc_pc := (alloc_pc ?s1)(t := Loaded ?n)\<rparr>"
  let ?s3 = "?s2\<lparr>alloc_pc := (alloc_pc ?s2)(u := Loading)\<rparr>"
  let ?s4 = "?s3\<lparr>alloc_pc := (alloc_pc ?s3)(u := Loaded ?n)\<rparr>"
  have "alloc_step s ?s1" using assms(1,2) by (intro alloc_step.misses)
  moreover have "alloc_step ?s1 ?s2" using alloc_step.loads [of ?s1 t] by simp
  moreover have "alloc_step ?s2 ?s3" using assms by (intro alloc_step.misses) simp_all
  moreover have "alloc_step ?s3 ?s4" using alloc_step.loads [of ?s3 u] by simp
  ultimately have r4: "alloc_step\<^sup>*\<^sup>* s ?s4" by (meson converse_rtranclp_into_rtranclp rtranclp.rtrancl_refl)
  have "alloc_pc ?s4 t = Loaded ?n" using assms(4) by simp
  then obtain s5 where s5: "alloc_step\<^sup>*\<^sup>* ?s4 s5" "alloc_pc s5 = (alloc_pc ?s4)(t := Fresh ?n)" "next_line s5 = Suc (next_line ?s4)"
    using finishes by blast
  have "alloc_pc s5 u = Loaded ?n" using s5(2) assms(4) by simp
  then obtain s6 where s6: "alloc_step\<^sup>*\<^sup>* s5 s6" "alloc_pc s6 = (alloc_pc s5)(u := Fresh ?n)" "next_line s6 = Suc (next_line s5)"
    using finishes by blast
  have "alloc_step\<^sup>*\<^sup>* s s6" using r4 s5(1) s6(1) by (meson rtranclp_trans)
  then show ?thesis using s5(2,3) s6(2,3) assms(4) by (intro exI [of _ s6]) simp
qed

definition sample_allocator :: "nat list \<Rightarrow> allocator" where
  "sample_allocator st = \<lparr>free_stack = st, next_line = 7, places = 7, max_lines = 100, alloc_pc = (\<lambda>_. Start)\<rparr>"

theorem reused_numbers_are_not_shared_witness:
  "\<exists>s. alloc_step\<^sup>*\<^sup>* (sample_allocator [3, 5]) s \<and> alloc_pc s 0 = Reused 3 \<and> alloc_pc s 1 \<noteq> Reused 3 \<and> alloc_pc s 1 \<noteq> Fresh 3"
proof -
  let ?s = "(sample_allocator [3, 5])\<lparr>free_stack := [5], alloc_pc := (alloc_pc (sample_allocator [3, 5]))(0 := Reused 3)\<rparr>"
  have "alloc_step (sample_allocator [3, 5]) ?s" by (intro alloc_step.pops) (simp_all add: sample_allocator_def)
  then have r: "alloc_step\<^sup>*\<^sup>* (sample_allocator [3, 5]) ?s" by simp
  show ?thesis
    using reused_numbers_are_not_shared [OF r, of 0 3 1] r
    by (intro exI [of _ ?s]) (simp add: sample_allocator_def)
qed

theorem fresh_numbers_collide_witness:
  "\<exists>s. alloc_step\<^sup>*\<^sup>* (sample_allocator []) s \<and> alloc_pc s 0 = Fresh 7 \<and> alloc_pc s 1 = Fresh 7 \<and> next_line s = 9"
  using fresh_numbers_collide [of "sample_allocator []" 0 1] by (simp add: sample_allocator_def)

section \<open>Growing the file\<close>

text \<open>
  Where a thread is in the class \<^verbatim>\<open>MemoryMap\<close>: reading or writing a line under the lock of its
  stripe, holding a text that \<^verbatim>\<open>readText\<close> returned (a view into the mapping, with the lock given
  back), or in \<^verbatim>\<open>expand\<close>.
\<close>

datatype map_at =
    Idle
  | Reading nat
  | Writing nat
  | Viewing nat  \<comment> \<open>the mapping the view points into\<close>
  | Asking
  | Spinning
  | Collecting nat  \<comment> \<open>how many stripes are locked\<close>
  | Expanding
  | Releasing
  | Returned bool
  | Threw

record shared_map =
  expanding_flag :: bool
  generation :: nat  \<comment> \<open>which mapping of the file is in force\<close>
  map_pc :: "nat \<Rightarrow> map_at"

fun shares :: "map_at \<Rightarrow> nat \<Rightarrow> bool" where
  "shares (Reading k) j = (j = k)"
| "shares _ j = False"

fun owns :: "map_at \<Rightarrow> nat \<Rightarrow> bool" where
  "owns (Writing k) j = (j = k)"
| "owns (Collecting n) j = (j < n)"
| "owns Expanding j = (j < STRIPE_COUNT)"
| "owns Releasing j = (j < STRIPE_COUNT)"
| "owns _ j = False"

definition may_share :: "shared_map \<Rightarrow> nat \<Rightarrow> bool" where
  "may_share s k \<longleftrightarrow> (\<forall>t. \<not> owns (map_pc s t) k)"

definition may_own :: "shared_map \<Rightarrow> nat \<Rightarrow> bool" where
  "may_own s k \<longleftrightarrow> (\<forall>t. \<not> owns (map_pc s t) k \<and> \<not> shares (map_pc s t) k)"

definition goto :: "nat \<Rightarrow> map_at \<Rightarrow> shared_map \<Rightarrow> shared_map" where
  "goto t a s = s\<lparr>map_pc := (map_pc s)(t := a)\<rparr>"

text \<open>An expansion that throws gives the locks back and leaves the flag; the old mapping is gone in any case.\<close>

inductive map_step :: "shared_map \<Rightarrow> shared_map \<Rightarrow> bool" where
  begins_read: "map_pc s t = Idle \<Longrightarrow> may_share s (get_stripe l) \<Longrightarrow> map_step s (goto t (Reading (get_stripe l)) s)"
| begins_write: "map_pc s t = Idle \<Longrightarrow> may_own s (get_stripe l) \<Longrightarrow> map_step s (goto t (Writing (get_stripe l)) s)"
| ends_read: "map_pc s t = Reading k \<Longrightarrow> map_step s (goto t Idle s)"
| ends_write: "map_pc s t = Writing k \<Longrightarrow> map_step s (goto t Idle s)"
| returns_view: "map_pc s t = Reading k \<Longrightarrow> map_step s (goto t (Viewing (generation s)) s)"
| drops_view: "map_pc s t = Viewing g \<Longrightarrow> map_step s (goto t Idle s)"
| asks: "map_pc s t = Idle \<Longrightarrow> map_step s (goto t Asking s)"
| wins: "map_pc s t = Asking \<Longrightarrow> \<not> expanding_flag s \<Longrightarrow> map_step s (goto t (Collecting 0) (s\<lparr>expanding_flag := True\<rparr>))"
| loses: "map_pc s t = Asking \<Longrightarrow> expanding_flag s \<Longrightarrow> map_step s (goto t Spinning s)"
| gives_up: "map_pc s t = Spinning \<Longrightarrow> \<not> expanding_flag s \<Longrightarrow> map_step s (goto t (Returned False) s)"
| locks: "map_pc s t = Collecting n \<Longrightarrow> n < STRIPE_COUNT \<Longrightarrow> may_own s n \<Longrightarrow> map_step s (goto t (Collecting (Suc n)) s)"
| has_all: "map_pc s t = Collecting STRIPE_COUNT \<Longrightarrow> map_step s (goto t Expanding s)"
| succeeds: "map_pc s t = Expanding \<Longrightarrow>
    map_step s (goto t Releasing (s\<lparr>expanding_flag := False, generation := Suc (generation s)\<rparr>))"
| throws: "map_pc s t = Expanding \<Longrightarrow> map_step s (goto t Threw (s\<lparr>generation := Suc (generation s)\<rparr>))"
| releases: "map_pc s t = Releasing \<Longrightarrow> map_step s (goto t (Returned True) s)"
| goes_on: "map_pc s t = Returned b \<Longrightarrow> map_step s (goto t Idle s)"

definition locked_apart :: "shared_map \<Rightarrow> bool" where
  "locked_apart s \<longleftrightarrow>
     (\<forall>t u k. owns (map_pc s t) k \<and> t \<noteq> u \<longrightarrow> \<not> owns (map_pc s u) k \<and> \<not> shares (map_pc s u) k) \<and>
     (\<forall>t k. map_pc s t = Reading k \<or> map_pc s t = Writing k \<longrightarrow> k < STRIPE_COUNT)"

lemma less_stripes: "get_stripe l < STRIPE_COUNT"
  by (simp add: get_stripe_def STRIPE_COUNT_def)

text \<open>A thread moves: what it holds afterwards it held before, or nobody else is in the way.\<close>

lemma locked_apart_goto:
  assumes "locked_apart s" and "map_pc s' = map_pc s"
    and "\<And>k. owns a k \<Longrightarrow> owns (map_pc s t) k \<or> (\<forall>u. u \<noteq> t \<longrightarrow> \<not> owns (map_pc s u) k \<and> \<not> shares (map_pc s u) k)"
    and "\<And>k. shares a k \<Longrightarrow> shares (map_pc s t) k \<or> (\<forall>u. u \<noteq> t \<longrightarrow> \<not> owns (map_pc s u) k)"
    and "\<And>k. a = Reading k \<or> a = Writing k \<Longrightarrow> k < STRIPE_COUNT"
  shows "locked_apart (goto t a s')"
proof -
  let ?f = "(map_pc s)(t := a)"
  have l: "\<not> owns (map_pc s u) k \<and> \<not> shares (map_pc s u) k" if "owns (map_pc s v) k" "v \<noteq> u" for u v k
    using assms(1) that unfolding locked_apart_def by blast
  have "\<not> owns (?f v) k \<and> \<not> shares (?f v) k" if "owns (?f u) k" "u \<noteq> v" for u v k
  proof (cases "u = t")
    case True
    then show ?thesis using that assms(3) [of k] l [of t k v] by auto
  next
    case False
    then have o: "owns (map_pc s u) k" using that by simp
    show ?thesis
    proof (cases "v = t")
      case True
      then show ?thesis using o False l [of u k t] assms(3,4) [of k] by auto
    next
      case vf: False
      then show ?thesis using l [OF o that(2)] by simp
    qed
  qed
  moreover have "k < STRIPE_COUNT" if "?f u = Reading k \<or> ?f u = Writing k" for u k
    using that assms(1,5) unfolding locked_apart_def by (cases "u = t") auto
  moreover have "map_pc (goto t a s') = ?f" by (simp add: goto_def assms(2))
  ultimately show ?thesis unfolding locked_apart_def by metis
qed

lemma locked_apart_step: "map_step s s' \<Longrightarrow> locked_apart s \<Longrightarrow> locked_apart s'"
  by (induction rule: map_step.induct)
    (erule locked_apart_goto; auto simp: may_share_def may_own_def less_stripes less_Suc_eq)+

lemma locked_apart_ever: "map_step\<^sup>*\<^sup>* s s' \<Longrightarrow> locked_apart s \<Longrightarrow> locked_apart s'"
  by (induction rule: rtranclp_induct) (simp_all add: locked_apart_step)


lemma collects_all:
  assumes "map_pc s t = Collecting n" and "n \<le> STRIPE_COUNT"
    and "\<forall>u k. u \<noteq> t \<longrightarrow> \<not> owns (map_pc s u) k \<and> \<not> shares (map_pc s u) k"
  shows "map_step\<^sup>*\<^sup>* s (goto t (Collecting STRIPE_COUNT) s)"
  using assms
proof (induction "STRIPE_COUNT - n" arbitrary: n s)
  case 0
  then have "goto t (Collecting STRIPE_COUNT) s = s" by (simp add: goto_def fun_upd_idem)
  then show ?case by simp
next
  case (Suc m)
  let ?s = "goto t (Collecting (Suc n)) s"
  have "\<not> owns (map_pc s u) n \<and> \<not> shares (map_pc s u) n" for u
    using Suc.prems(1,3) by (cases "u = t") simp_all
  then have "may_own s n" by (simp add: may_own_def)
  then have "map_step s ?s" using Suc.prems(1) Suc.hyps(2) by (intro map_step.locks) simp_all
  moreover have "map_step\<^sup>*\<^sup>* ?s (goto t (Collecting STRIPE_COUNT) ?s)"
    by (rule Suc.hyps(1) [of "Suc n"]) (use Suc.hyps(2) Suc.prems in \<open>auto simp: goto_def\<close>)
  moreover have "goto t (Collecting STRIPE_COUNT) ?s = goto t (Collecting STRIPE_COUNT) s" by (simp add: goto_def)
  ultimately show ?case by (metis converse_rtranclp_into_rtranclp)
qed

text \<open>
  The text that \<^verbatim>\<open>readText\<close> returns is a view into the mapping, and the lock is given back
  before it is used: an expansion by another thread unmaps the bytes under it.
\<close>

theorem text_view_can_dangle:
  assumes "map_pc s t = Reading k" and "map_pc s u = Asking" and "t \<noteq> u" and "\<not> expanding_flag s"
    and "\<forall>v. v \<noteq> t \<and> v \<noteq> u \<longrightarrow> map_pc s v = Idle"
  shows "\<exists>s'. map_step\<^sup>*\<^sup>* s s' \<and> map_pc s' t = Viewing (generation s) \<and> generation s' = Suc (generation s)"
proof -
  let ?s1 = "goto t (Viewing (generation s)) s"
  let ?s2 = "goto u (Collecting 0) (?s1\<lparr>expanding_flag := True\<rparr>)"
  let ?s3 = "goto u (Collecting STRIPE_COUNT) ?s2"
  let ?s4 = "goto u Expanding ?s3"
  let ?s5 = "goto u Releasing (?s4\<lparr>expanding_flag := False, generation := Suc (generation ?s4)\<rparr>)"
  have "map_step s ?s1" using assms(1) by (rule map_step.returns_view)
  moreover have "map_step ?s1 ?s2" using assms(2-4) by (intro map_step.wins) (simp_all add: goto_def)
  ultimately have "map_step\<^sup>*\<^sup>* s ?s2" by (meson converse_rtranclp_into_rtranclp rtranclp.rtrancl_refl)
  moreover have "map_step\<^sup>*\<^sup>* ?s2 ?s3"
  proof (rule collects_all [of _ _ 0])
    show "\<forall>v k. v \<noteq> u \<longrightarrow> \<not> owns (map_pc ?s2 v) k \<and> \<not> shares (map_pc ?s2 v) k"
      using assms(3,5) by (simp add: goto_def)
  qed (simp_all add: goto_def)
  moreover have "map_step ?s3 ?s4" by (rule map_step.has_all) (simp add: goto_def)
  moreover have "map_step ?s4 ?s5" by (rule map_step.succeeds) (simp add: goto_def)
  ultimately have "map_step\<^sup>*\<^sup>* s ?s5" by (meson rtranclp_trans rtranclp.rtrancl_into_rtrancl)
  then show ?thesis using assms(3) by (intro exI [of _ ?s5]) (simp add: goto_def)
qed

definition sample_shared :: shared_map where
  "sample_shared = \<lparr>expanding_flag = False, generation = 4, map_pc = (\<lambda>_. Idle)\<rparr>"


theorem text_view_can_dangle_witness:
  "\<exists>s s'. map_step\<^sup>*\<^sup>* s s' \<and> map_pc s' 0 = Viewing 4 \<and> generation s' = 5"
proof -
  let ?s = "goto 1 Asking (goto 0 (Reading 9) sample_shared)"
  have "\<exists>s'. map_step\<^sup>*\<^sup>* ?s s' \<and> map_pc s' 0 = Viewing (generation ?s) \<and> generation s' = Suc (generation ?s)"
    by (rule text_view_can_dangle [of _ _ 9 1]) (simp_all add: goto_def sample_shared_def)
  moreover have "generation ?s = 4" by (simp add: goto_def sample_shared_def)
  ultimately show ?thesis by (metis numeral_plus_one add.commute eval_nat_numeral(3) semiring_norm(2))
qed

end
