(* ===== verification/Line_Writes.thy ===== *)
theory Line_Writes
  imports Memory_Map
begin

text \<open>
  Sequences of writes into lines of a storage, as several threads make them: writes to different lines commute,
  so the storage is that in which each thread has made its writes at a stretch.
\<close>

section \<open>Writes to lines\<close>

lemma put_bytes_commute:
  assumes "p + length as \<le> length xs" and "q + length bs \<le> length xs"
    and "p + length as \<le> q \<or> q + length bs \<le> p"
  shows "put_bytes p as (put_bytes q bs xs) = put_bytes q bs (put_bytes p as xs)"
  by (rule nth_equalityI) (use assms in \<open>auto simp: nth_put_bytes\<close>)

text \<open>A list of writes, each a position in the line and the bytes put there.\<close>

definition put_all :: "nat \<Rightarrow> (nat \<times> char list) list \<Rightarrow> memory_map \<Rightarrow> memory_map" where
  "put_all l ws m = fold (\<lambda>(off, bs). put_cell l off bs) ws m"

definition within_line :: "nat \<Rightarrow> (nat \<times> char list) list \<Rightarrow> bool" where
  "within_line w ws \<longleftrightarrow> (\<forall>(off, bs)\<in>set ws. off + length bs \<le> w)"

lemma put_all_simps [simp]:
  "put_all l [] m = m" "put_all l ((off, bs) # ws) m = put_all l ws (put_cell l off bs m)"
  "put_all l (us @ ws) m = put_all l ws (put_all l us m)"
  by (simp_all add: put_all_def)

lemma within_line_simps [simp]:
  "within_line w []" "within_line w ((off, bs) # ws) \<longleftrightarrow> off + length bs \<le> w \<and> within_line w ws"
  "within_line w (us @ ws) \<longleftrightarrow> within_line w us \<and> within_line w ws"
  by (auto simp: within_line_def)

lemma within_line_take: "within_line w ws \<Longrightarrow> within_line w (take k ws)"
  by (auto simp: within_line_def dest: in_set_takeD)

lemma put_all_same [simp]:
  "lineLength (put_all l ws m) = lineLength m" "max_line (put_all l ws m) = max_line m"
  by (induction ws arbitrary: m) auto

lemma wf_put_all: "wf_map m \<Longrightarrow> l < max_line m \<Longrightarrow> within_line (lineLength m) ws \<Longrightarrow> wf_map (put_all l ws m)"
proof (induction ws arbitrary: m)
  case (Cons x ws)
  then show ?case by (cases x) (simp add: wf_put_cell)
qed simp

lemma put_cell_commute:
  assumes "wf_map m" and "l < max_line m" and "l' < max_line m" and "l \<noteq> l'"
    and "off + length bs \<le> lineLength m" and "off' + length bs' \<le> lineLength m"
  shows "put_cell l off bs (put_cell l' off' bs' m) = put_cell l' off' bs' (put_cell l off bs m)"
proof -
  have "length (file_bytes m) = fileSize m" using assms(1) by (simp add: wf_map_def)
  then show ?thesis
    using put_bytes_commute [of "l * lineLength m + off" bs "file_bytes m" "l' * lineLength m + off'" bs']
      line_in_file [OF assms(2,5)] line_in_file [OF assms(3,6)] lines_apart [OF assms(4), of off' _ _ off]
      lines_apart [of l l' off' "length bs'" "lineLength m" off "length bs"] assms(4-6)
    by (simp add: put_cell_def disj_commute)
qed

lemma put_cell_all_commute:
  assumes "wf_map m" and "l < max_line m" and "l' < max_line m" and "l \<noteq> l'"
    and "off + length bs \<le> lineLength m" and "within_line (lineLength m) ws"
  shows "put_cell l off bs (put_all l' ws m) = put_all l' ws (put_cell l off bs m)"
  using assms
proof (induction ws arbitrary: m)
  case (Cons x ws)
  obtain o2 b2 where x: "x = (o2, b2)" by force
  show ?case
    using Cons.IH [of "put_cell l' o2 b2 m"] Cons.prems put_cell_commute [OF Cons.prems(1-5), of o2 b2]
    by (simp add: x wf_put_cell)
qed simp

lemma inside_within: "mm.inside m fs \<longleftrightarrow> within_line (lineLength m) (map (\<lambda>(o1, v). (o1, value_bytes v)) fs)"
  by (auto simp: mm.inside_def within_line_def)

lemma store_fields_puts:
  assumes "wf_map m" and "l < max_line m" and "mm.inside m fs"
  shows "snd (mm.store_fields l fs m) = put_all l (map (\<lambda>(o1, v). (o1, value_bytes v)) fs) m"
  using assms
proof (induction fs arbitrary: m)
  case (Cons f fs)
  obtain o1 v where f: "f = (o1, v)" by force
  have o: "o1 + length (value_bytes v) \<le> lineLength m" using Cons.prems(3) by (simp add: mm.inside_def f)
  have "mm.inside (put_cell l o1 (value_bytes v) m) fs" using Cons.prems(3) by (auto simp: mm.inside_def)
  then show ?case
    using Cons.IH [of "put_cell l o1 (value_bytes v) m"] Cons.prems(1,2) o
      mm.store_fields_Cons [OF Cons.prems(1,2) o] writeInfo_wf [OF Cons.prems(1,2) o]
    by (simp add: f wf_put_cell)
qed (simp add: mm.store_fields_Nil)

text \<open>Writing the bytes that are there, and writing to one place twice.\<close>

lemma put_cell_again:
  assumes "cell m l off n = bs" and "n = length bs"
  shows "put_cell l off bs m = m"
proof -
  have "put_bytes p (get_bytes p n xs) xs = xs" if "length (get_bytes p n xs) = n" for p and xs :: "char list"
    using that by (auto simp: put_bytes_def get_bytes_def min_def add.commute [of p] drop_drop [symmetric]
        simp del: drop_drop split: if_splits)
  from this [of "l * lineLength m + off" "file_bytes m"] show ?thesis using assms by (simp add: put_cell_def cell_def)
qed

lemma put_cell_twice:
  assumes "wf_map m" and "l < max_line m" and "off + length bs \<le> lineLength m" and "length bs' = length bs"
  shows "put_cell l off bs' (put_cell l off bs m) = put_cell l off bs' m"
proof -
  have "l * lineLength m + off + length bs \<le> length (file_bytes m)"
    using line_in_file [OF assms(2,3)] assms(1) by (simp add: wf_map_def)
  then have "put_bytes (l * lineLength m + off) bs' (put_bytes (l * lineLength m + off) bs (file_bytes m)) =
      put_bytes (l * lineLength m + off) bs' (file_bytes m)"
    by (intro nth_equalityI) (auto simp: assms(4) nth_put_bytes)
  then show ?thesis by (simp add: put_cell_def)
qed

section \<open>Several writers, each on a line of its own\<close>

lemma put_all_commute:
  assumes "wf_map m" and "l < max_line m" and "l' < max_line m" and "l \<noteq> l'"
    and "within_line (lineLength m) us" and "within_line (lineLength m) ws"
  shows "put_all l us (put_all l' ws m) = put_all l' ws (put_all l us m)"
  using assms
proof (induction us arbitrary: m)
  case (Cons x us)
  obtain off bs where x: "x = (off, bs)" by force
  have "put_cell l off bs (put_all l' ws m) = put_all l' ws (put_cell l off bs m)"
    using Cons.prems by (intro put_cell_all_commute) (auto simp: x)
  then show ?case using Cons.IH [of "put_cell l off bs m"] Cons.prems by (simp add: x wf_put_cell)
qed simp

text \<open>Writer \<open>u\<close> makes the writes \<open>ws u\<close> in line \<open>ln u\<close>.\<close>

definition in_lines :: "('u \<Rightarrow> nat) \<Rightarrow> ('u \<Rightarrow> (nat \<times> char list) list) \<Rightarrow> 'u list \<Rightarrow> memory_map \<Rightarrow> memory_map" where
  "in_lines ln ws us m = fold (\<lambda>u. put_all (ln u) (ws u)) us m"

definition writable :: "('u \<Rightarrow> nat) \<Rightarrow> ('u \<Rightarrow> (nat \<times> char list) list) \<Rightarrow> 'u list \<Rightarrow> memory_map \<Rightarrow> bool" where
  "writable ln ws us m \<longleftrightarrow> (\<forall>u\<in>set us. ln u < max_line m \<and> within_line (lineLength m) (ws u))"

lemma in_lines_simps [simp]:
  "in_lines ln ws [] m = m" "in_lines ln ws (u # us) m = in_lines ln ws us (put_all (ln u) (ws u) m)"
  "in_lines ln ws (us @ vs) m = in_lines ln ws vs (in_lines ln ws us m)"
  by (simp_all add: in_lines_def)

lemma writable_simps [simp]:
  "writable ln ws [] m"
  "writable ln ws (u # us) m \<longleftrightarrow> ln u < max_line m \<and> within_line (lineLength m) (ws u) \<and> writable ln ws us m"
  "writable ln ws (us @ vs) m \<longleftrightarrow> writable ln ws us m \<and> writable ln ws vs m"
  by (auto simp: writable_def)

lemma in_lines_same [simp]:
  "lineLength (in_lines ln ws us m) = lineLength m" "max_line (in_lines ln ws us m) = max_line m"
  by (induction us arbitrary: m) simp_all

lemma writable_cong [simp]: "writable ln ws us (put_all l xs m) = writable ln ws us m"
  "writable ln ws us (in_lines ln' ws' vs m) = writable ln ws us m"
  by (simp_all add: writable_def)

lemma wf_in_lines: "wf_map m \<Longrightarrow> writable ln ws us m \<Longrightarrow> wf_map (in_lines ln ws us m)"
  by (induction us arbitrary: m) (simp_all add: wf_put_all)

lemma in_lines_cong:
  "(\<And>u. u \<in> set us \<Longrightarrow> ln u = ln' u \<and> ws u = ws' u) \<Longrightarrow> in_lines ln ws us m = in_lines ln' ws' us m"
  by (induction us arbitrary: m) simp_all

text \<open>A write to a line that is not one of theirs may as well come first.\<close>

lemma put_all_in_lines:
  assumes "wf_map m" and "writable ln ws us m" and "l < max_line m" and "within_line (lineLength m) xs" and "l \<notin> ln ` set us"
  shows "put_all l xs (in_lines ln ws us m) = in_lines ln ws us (put_all l xs m)"
  using assms
proof (induction us arbitrary: m)
  case (Cons u us)
  have "put_all l xs (put_all (ln u) (ws u) m) = put_all (ln u) (ws u) (put_all l xs m)"
    using Cons.prems by (intro put_all_commute) auto
  then show ?case using Cons.IH [of "put_all (ln u) (ws u) m"] Cons.prems by (simp add: wf_put_all)
qed simp

text \<open>More writes of one of them are as good as made at its turn.\<close>

lemma in_lines_advance:
  assumes "wf_map m" and "writable ln ws us m" and "distinct (map ln us)" and "u \<in> set us" and "within_line (lineLength m) xs"
  shows "put_all (ln u) xs (in_lines ln ws us m) = in_lines ln (ws(u := ws u @ xs)) us m"
proof -
  obtain as bs where us: "us = as @ u # bs" using assms(4) by (meson split_list)
  have not: "u \<notin> set as" "u \<notin> set bs" "ln u \<notin> ln ` set bs" using assms(3) by (auto simp: us)
  let ?m = "put_all (ln u) (ws u) (in_lines ln ws as m)"
  have "wf_map ?m" using assms(1,2) by (simp add: us wf_put_all wf_in_lines)
  then have "put_all (ln u) xs (in_lines ln ws bs ?m) = in_lines ln ws bs (put_all (ln u) xs ?m)"
    using assms(2,5) not(3) by (intro put_all_in_lines) (simp_all add: us)
  moreover have "in_lines ln (ws(u := ws u @ xs)) vs m' = in_lines ln ws vs m'" if "u \<notin> set vs" for vs m'
    using that by (intro in_lines_cong) auto
  ultimately show ?thesis using not by (simp add: us)
qed

end
