(* ===== verification/Concurrent_Insertion.thy ===== *)
theory Concurrent_Insertion
  imports Concurrency Sample Line_Writes
begin

text \<open>
  \<^verbatim>\<open>Tabble::insert\<close> of \<^verbatim>\<open>src/src/files/Tabble.h\<close> taken apart into the steps between which
  threads of other clients can run, on the table of theory \<open>Table\<close>: an operation on an atomic, the
  critical section of the stack, or an access to a line under the lock of its stripe. \<open>expand\<close> is one
  step, as \<open>expansion_excludes_access\<close> of theory \<open>Concurrency\<close> allows.
\<close>

section \<open>The steps of an insertion\<close>

text \<open>Where a thread is in \<^verbatim>\<open>insert\<close>, with the number it has and the fields it has written.\<close>

datatype inserting =
    Begins
  | Missed
  | Read_counter nat
  | Must_expand nat
  | Has_room nat
  | Counted_place nat
  | Has_line nat
  | Writes nat nat
  | Inserted nat
  | Failed exn

text \<open>One step: \<open>after m next\<close> goes on to \<open>next\<close> unless the operation \<open>m\<close> throws.\<close>

definition after :: "(table, 'a) act \<Rightarrow> inserting \<Rightarrow> table \<Rightarrow> table \<times> inserting" where
  "after m next1 t = (case m t of (Inl e, t') \<Rightarrow> (t', Failed e) | (Inr x, t') \<Rightarrow> (t', next1))"

fun insert_move :: "variant_types list \<Rightarrow> Column list \<Rightarrow> nat \<Rightarrow> inserting \<Rightarrow> table \<Rightarrow> table \<times> inserting" where
  "insert_move values cols index Begins t =
     (case stack_freeId t of i # st \<Rightarrow> (t\<lparr>stack_freeId := st\<rparr>, Has_line i) | [] \<Rightarrow> (t, Missed))"
| "insert_move values cols index Missed t = (t, Read_counter (freeId t))"
| "insert_move values cols index (Read_counter cur) t =
     (case getMaxLines (storage t) of
        Inl e \<Rightarrow> (t, Failed e)
      | Inr maxLines \<Rightarrow> (t, if maxLines \<le> cur then Must_expand cur else Has_room cur))"
| "insert_move values cols index (Must_expand cur) t = after (on_storage expand) (Has_room cur) t"
| "insert_move values cols index (Has_room cur) t =
     (t\<lparr>activePlaces := size_add (activePlaces t) 1\<rparr>, Counted_place cur)"
| "insert_move values cols index (Counted_place cur) t = (t\<lparr>freeId := size_add (freeId t) 1\<rparr>, Has_line cur)"
| "insert_move values cols index (Has_line cur) t = after (on_storage (activate cur)) (Writes cur 0) t"
| "insert_move values cols index (Writes cur i) t =
     (if i < length cols
      then if index + i < length values
           then after (on_storage (writeInfo cur (offset (cols ! i)) (values ! (index + i)))) (Writes cur (Suc i)) t
           else (t, Failed (Undefined ''values: index out of range''))
      else (t\<lparr>activePlaces := size_add (activePlaces t) 1\<rparr>, Inserted cur))"
| "insert_move values cols index (Inserted n) t = (t, Inserted n)"
| "insert_move values cols index (Failed e) t = (t, Failed e)"

text \<open>A thread alone, for a number of steps.\<close>

fun insert_moves :: "nat \<Rightarrow> variant_types list \<Rightarrow> Column list \<Rightarrow> nat \<Rightarrow> table \<times> inserting \<Rightarrow> table \<times> inserting" where
  "insert_moves 0 values cols index s = s"
| "insert_moves (Suc k) values cols index s = insert_moves k values cols index (insert_move values cols index (snd s) (fst s))"

text \<open>What a completed call of \<^verbatim>\<open>insert\<close> leaves behind.\<close>

definition outcome :: "(exn + nat) \<times> table \<Rightarrow> table \<times> inserting" where
  "outcome r = (snd r, case fst r of Inr n \<Rightarrow> Inserted n | Inl e \<Rightarrow> Failed e)"

fun finished :: "inserting \<Rightarrow> bool" where
  "finished (Inserted n) = True"
| "finished (Failed e) = True"
| "finished _ = False"

lemma insert_moves_finished: "finished p \<Longrightarrow> insert_moves k values cols index (t, p) = (t, p)"
  by (induction k) (cases p; simp)+

lemma insert_moves_add: "insert_moves (j + k) values cols index s = insert_moves k values cols index (insert_moves j values cols index s)"
  by (induction j arbitrary: s) simp_all

lemma writes_moves:
  assumes "i \<le> length cols" and "length cols - i < k"
  shows "insert_moves k values cols index (t, Writes cur i) =
     outcome (bnd (update_loop values (drop i cols) cur (index + i)) (\<lambda>_.
       bnd (modify (\<lambda>t. t\<lparr>activePlaces := size_add (activePlaces t) 1\<rparr>)) (\<lambda>_. ret cur)) t)"
  using assms
proof (induction k arbitrary: i t)
  case (Suc k)
  show ?case
  proof (cases "i < length cols")
    case False
    then show ?thesis
      using Suc.prems by (simp add: outcome_def bnd_def insert_moves_finished)
  next
    case True
    then have d: "drop i cols = cols ! i # drop (Suc i) cols" by (simp add: Cons_nth_drop_Suc)
    have IH: "insert_moves k values cols index (t', Writes cur (Suc i)) =
      outcome (bnd (update_loop values (drop (Suc i) cols) cur (index + Suc i)) (\<lambda>_.
       bnd (modify (\<lambda>t. t\<lparr>activePlaces := size_add (activePlaces t) 1\<rparr>)) (\<lambda>_. ret cur)) t')" for t'
      by (rule Suc.IH) (use Suc.prems True in auto)
    show ?thesis
    proof (cases "index + i < length values")
      case False
      then show ?thesis using True by (simp add: d insert_moves_finished outcome_def bnd_def)
    next
      case inr: True
      obtain r t' where w: "on_storage (writeInfo cur (offset (cols ! i)) (values ! (index + i))) t = (r, t')"
        by force
      show ?thesis
      proof (cases r)
        case (Inl e)
        then show ?thesis using True inr w by (simp add: d after_def insert_moves_finished outcome_def bnd_def)
      next
        case (Inr x)
        then show ?thesis using True inr w IH [of t'] by (simp add: d after_def bnd_def)
      qed
    qed
  qed
qed simp

lemma has_line_moves:
  assumes "length cols + 2 \<le> k"
  shows "insert_moves k values cols index (t, Has_line cur) =
     outcome (bnd (on_storage (activate cur)) (\<lambda>_. bnd (update values cols cur index) (\<lambda>_.
       bnd (modify (\<lambda>t. t\<lparr>activePlaces := size_add (activePlaces t) 1\<rparr>)) (\<lambda>_. ret cur))) t)"
proof -
  obtain j where k: "k = Suc j" "length cols < j" using assms by (cases k) auto
  obtain r t' where a: "on_storage (activate cur) t = (r, t')" by force
  show ?thesis
  proof (cases r)
    case (Inl e)
    then show ?thesis using a by (simp add: k after_def insert_moves_finished outcome_def bnd_def)
  next
    case (Inr x)
    then show ?thesis
      using a writes_moves [of 0 cols j "values" index t' cur] k(2) by (simp add: k(1) after_def bnd_def update_def)
  qed
qed


section \<open>Several threads\<close>

text \<open>
  \<open>job u\<close> is what thread \<open>u\<close> inserts: the values of its request and the position of the
  row in them. A schedule lists whose turn it is.
\<close>

type_synonym jobs = "nat \<Rightarrow> variant_types list \<times> nat"
type_synonym racing = "table \<times> (nat \<Rightarrow> inserting)"

definition thread_move :: "jobs \<Rightarrow> nat \<Rightarrow> racing \<Rightarrow> racing" where
  "thread_move job u s =
     (case insert_move (fst (job u)) (columns (info (fst s))) (snd (job u)) (snd s u) (fst s) of
        (t', p) \<Rightarrow> (t', (snd s)(u := p)))"

definition run_schedule :: "jobs \<Rightarrow> nat list \<Rightarrow> racing \<Rightarrow> racing" where
  "run_schedule job us s = fold (thread_move job) us s"

lemma run_schedule_simps [simp]:
  "run_schedule job [] s = s"
  "run_schedule job (u # us) s = run_schedule job us (thread_move job u s)"
  "run_schedule job (us @ vs) s = run_schedule job vs (run_schedule job us s)"
  by (simp_all add: run_schedule_def)

section \<open>Insertions into lines of erased rows\<close>

text \<open>The writes of one insertion, the flag first.\<close>

definition row_writes :: "TabbleInfo \<Rightarrow> variant_types list \<times> nat \<Rightarrow> (nat \<times> char list) list" where
  "row_writes ti vi = (0, enc_bool True) # map (\<lambda>(o1, v). (o1, value_bytes v)) (fields_of (columns ti) (row_at ti vi))"

text \<open>How many steps a thread that found a line on the stack has taken, of \<open>n + 3\<close> for \<open>n\<close> columns.\<close>

fun progress :: "nat \<Rightarrow> inserting \<Rightarrow> nat" where
  "progress n (Has_line l) = 1"
| "progress n (Writes l i) = i + 2"
| "progress n (Inserted l) = n + 3"
| "progress n _ = 0"

fun line_of :: "inserting \<Rightarrow> nat" where
  "line_of (Has_line l) = l"
| "line_of (Writes l i) = l"
| "line_of (Inserted l) = l"
| "line_of _ = 0"

fun held :: "nat \<Rightarrow> inserting \<Rightarrow> bool" where
  "held n (Has_line l) = True"
| "held n (Writes l i) = (i \<le> n)"
| "held n (Inserted l) = True"
| "held n _ = False"

definition writes_so_far :: "TabbleInfo \<Rightarrow> variant_types list \<times> nat \<Rightarrow> inserting \<Rightarrow> (nat \<times> char list) list" where
  "writes_so_far ti vi p = take (progress (length (columns ti)) p - 1) (row_writes ti vi)"

lemma within_row_writes:
  assumes "wf_info ti" and "insertable ti vi"
  shows "within_line (info_lineLength ti) (row_writes ti vi)"
proof -
  have "columns ti \<noteq> []" using assms(1) by (auto simp: wf_info_def)
  then have one: "1 \<le> info_lineLength ti"
    using wf_info_column [OF assms(1), of "hd (columns ti)"] by simp
  have "o1 + length (value_bytes v) \<le> info_lineLength ti"
    if ov: "(o1, v) \<in> set (fields_of (columns ti) (row_at ti vi))" for o1 v
  proof -
    from ov obtain j where j: "j < length (columns ti)" "o1 = offset (columns ti ! j)" "v = row_at ti vi ! j"
      by (rule fields_of_member)
    then have "fits (columns ti ! j) v" using assms(2) by (simp add: insertable_def list_all2_nthD)
    then show ?thesis using wf_info_column [OF assms(1), of "columns ti ! j"] j by (simp add: fits_def)
  qed
  then show ?thesis using one by (auto simp: row_writes_def within_line_def bool1.width)
qed

lemma length_row_writes: "insertable ti vi \<Longrightarrow> length (row_writes ti vi) = length (columns ti) + 1"
  by (auto simp: row_writes_def fields_of_def insertable_def dest: list_all2_lengthD)

lemma nth_row_writes:
  assumes "insertable ti vi" and "i < length (columns ti)"
  shows "row_writes ti vi ! Suc i = (offset (columns ti ! i), value_bytes (fst vi ! (snd vi + i)))"
    and "snd vi + i < length (fst vi)"
proof -
  have len: "length (row_at ti vi) = length (columns ti)"
    using assms(1) by (auto simp: insertable_def dest: list_all2_lengthD)
  then show "snd vi + i < length (fst vi)" using assms(2) by (auto simp: row_at_def)
  then show "row_writes ti vi ! Suc i = (offset (columns ti ! i), value_bytes (fst vi ! (snd vi + i)))"
    using assms(2) len by (simp add: row_writes_def fields_of_def row_at_def)
qed

text \<open>A step of a thread that has a line: the next of its writes, or the count.\<close>

lemma held_move:
  assumes "wf_map (storage t)" and "line_of p < max_line (storage t)" and "insertable (info t) vi"
    and "within_line (lineLength (storage t)) (row_writes (info t) vi)" and "held (length (columns (info t))) p"
    and "n = length (columns (info t))"
  obtains p' where "insert_move (fst vi) (columns (info t)) (snd vi) p t =
      (t\<lparr>storage := put_all (line_of p) (take 1 (drop (progress n p - 1) (row_writes (info t) vi))) (storage t),
         activePlaces := (if progress n p = n + 2 then size_add (activePlaces t) 1 else activePlaces t)\<rparr>, p')"
    and "held n p'" and "line_of p' = line_of p" and "progress n p' = min (Suc (progress n p)) (n + 3)"
proof -
  let ?rw = "row_writes (info t) vi"
  have len: "length ?rw = n + 1" using length_row_writes [OF assms(3)] assms(6) by simp
  show ?thesis
  proof (cases p)
    case (Has_line l)
    have "activate l (storage t) = (Inr (), put_cell l 0 (enc_bool True) (storage t))"
      unfolding activate_def using assms(1,2) Has_line
      by (intro core_write_wf) (auto simp: bool1.width wf_map_def)
    then show ?thesis
      using Has_line that [of "Writes l 0"] by (simp add: after_def on_storage_apply row_writes_def)
  next
    case (Writes l i)
    show ?thesis
    proof (cases "i < n")
      case True
      have i: "i < length (columns (info t))" using True assms(6) by simp
      note w = nth_row_writes [OF assms(3) i]
      have d: "take 1 (drop (Suc i) ?rw) = [(offset (columns (info t) ! i), value_bytes (fst vi ! (snd vi + i)))]"
        using True len w(1) by (simp add: take_Suc_conv_app_nth)
      have "(offset (columns (info t) ! i), value_bytes (fst vi ! (snd vi + i))) \<in> set ?rw"
        using True len w(1) by (metis Suc_less_eq2 add.commute nth_mem plus_1_eq_Suc)
      then have "offset (columns (info t) ! i) + length (value_bytes (fst vi ! (snd vi + i))) \<le> lineLength (storage t)"
        using assms(4) unfolding within_line_def by blast
      then have "writeInfo l (offset (columns (info t) ! i)) (fst vi ! (snd vi + i)) (storage t) =
          (Inr (), put_cell l (offset (columns (info t) ! i)) (value_bytes (fst vi ! (snd vi + i))) (storage t))"
        using assms(1,2) Writes by (intro writeInfo_wf) simp_all
      then show ?thesis
        using Writes True i w(2) that [of "Writes l (Suc i)"] d by (simp add: after_def on_storage_apply)
    next
      case False
      then have "i = n" using assms(5,6) Writes by simp
      then show ?thesis using Writes assms(6) len that [of "Inserted l"] by simp
    qed
  next
    case (Inserted l)
    then show ?thesis using that [of "Inserted l"] len by simp
  qed (use assms(5) in simp_all)
qed

text \<open>
  The state after some steps of threads that started on table \<open>t0\<close>: \<open>order\<close> lists the
  threads that have taken a line, in the order in which they did. The storage is that of
  \<open>t0\<close> with the writes of each of them made one thread after the other, as far as it has come.
\<close>

definition written_in_turn :: "TabbleInfo \<Rightarrow> jobs \<Rightarrow> (nat \<Rightarrow> inserting) \<Rightarrow> nat list \<Rightarrow> memory_map \<Rightarrow> memory_map" where
  "written_in_turn ti job pc order m = in_lines (\<lambda>u. line_of (pc u)) (\<lambda>u. writes_so_far ti (job u) (pc u)) order m"

definition all_counted :: "TabbleInfo \<Rightarrow> (nat \<Rightarrow> inserting) \<Rightarrow> nat list \<Rightarrow> nat \<Rightarrow> nat" where
  "all_counted ti pc order a = ((\<lambda>a. size_add a 1) ^^
     length (filter (\<lambda>u. progress (length (columns ti)) (pc u) = length (columns ti) + 3) order)) a"

definition in_turn :: "jobs \<Rightarrow> table \<Rightarrow> nat list \<Rightarrow> nat list \<Rightarrow> racing \<Rightarrow> bool" where
  "in_turn job t0 us order s \<longleftrightarrow>
     distinct order \<and> set order \<subseteq> set us \<and> length order \<le> length (stack_freeId t0) \<and>
     (\<forall>u. u \<notin> set order \<longrightarrow> snd s u = Begins) \<and> (\<forall>u\<in>set order. held (length (columns (info t0))) (snd s u)) \<and>
     map (\<lambda>u. line_of (snd s u)) order = take (length order) (stack_freeId t0) \<and>
     fst s = t0\<lparr>stack_freeId := drop (length order) (stack_freeId t0),
                storage := written_in_turn (info t0) job (snd s) order (storage t0),
                activePlaces := all_counted (info t0) (snd s) order (activePlaces t0)\<rparr>"

abbreviation in_turn_writable :: "TabbleInfo \<Rightarrow> jobs \<Rightarrow> (nat \<Rightarrow> inserting) \<Rightarrow> nat list \<Rightarrow> memory_map \<Rightarrow> bool" where
  "in_turn_writable ti job pc order m \<equiv> writable (\<lambda>u. line_of (pc u)) (\<lambda>u. row_writes ti (job u)) order m"

lemma writable_so_far:
  "in_turn_writable ti job pc order m \<Longrightarrow>
   writable (\<lambda>u. line_of (pc u)) (\<lambda>u. writes_so_far ti (job u) (pc u)) order m"
  by (auto simp: writable_def writes_so_far_def within_line_take)

lemma writes_advance:
  assumes "progress n p' = min (Suc (progress n p)) (n + 3)" and "0 < progress n p" and "n = length (columns ti)"
    and "insertable ti vi"
  shows "writes_so_far ti vi p' = writes_so_far ti vi p @ take 1 (drop (progress n p - 1) (row_writes ti vi))"
proof (cases "progress n p \<le> n + 2")
  case True
  then have "progress n p' - 1 = progress n p - 1 + 1" using assms(1,2) by simp
  then show ?thesis unfolding writes_so_far_def assms(3) [symmetric] by (simp only: take_add)
next
  case False
  then show ?thesis using length_row_writes [OF assms(4)] assms(1,3) by (simp add: writes_so_far_def)
qed

text \<open>One more write of a thread is made at its place in the order.\<close>

lemma written_in_turn_advance:
  assumes "wf_map m" and "in_turn_writable ti job pc order m" and "distinct (map (\<lambda>u. line_of (pc u)) order)"
    and "u \<in> set order" and "line_of p' = line_of (pc u)" and "progress n p' = min (Suc (progress n (pc u))) (n + 3)"
    and "0 < progress n (pc u)" and "n = length (columns ti)" and "insertable ti (job u)"
  shows "put_all (line_of (pc u)) (take 1 (drop (progress n (pc u) - 1) (row_writes ti (job u))))
       (written_in_turn ti job pc order m) = written_in_turn ti job (pc(u := p')) order m"
proof -
  let ?xs = "take 1 (drop (progress n (pc u) - 1) (row_writes ti (job u)))"
  have "within_line (lineLength m) (row_writes ti (job u))" using assms(2,4) by (auto simp: writable_def)
  then have "within_line (lineLength m) ?xs"
    by (auto simp: within_line_def dest!: in_set_takeD in_set_dropD)
  then have "put_all (line_of (pc u)) ?xs (written_in_turn ti job pc order m) =
      in_lines (\<lambda>u. line_of (pc u)) ((\<lambda>u. writes_so_far ti (job u) (pc u))(u := writes_so_far ti (job u) (pc u) @ ?xs)) order m"
    unfolding written_in_turn_def
    using in_lines_advance [OF assms(1) writable_so_far [OF assms(2)] assms(3,4)] by simp
  also have "\<dots> = written_in_turn ti job (pc(u := p')) order m"
    unfolding written_in_turn_def using assms(5) writes_advance [OF assms(6-9)] by (intro in_lines_cong) simp
  finally show ?thesis .
qed

text \<open>The lines that the threads of a well-formed table can take from its stack.\<close>

lemma stack_lines:
  assumes "wf_table t" and "l \<in> set (stack_freeId t)"
  shows "l < max_line (storage t)" and "l < freeId t"
  using assms wf_but_dest(6,8) [of "{}" t] by (auto simp: wf_table_def)

lemma in_turn_lines:
  assumes "wf_table t0" and "\<forall>u\<in>set us. insertable (info t0) (job u)" and "in_turn job t0 us order s"
  shows "in_turn_writable (info t0) job (snd s) order (storage t0)" and "distinct (map (\<lambda>u. line_of (snd s u)) order)"
proof -
  have wf: "wf_but {} t0" using assms(1) by (simp add: wf_table_def)
  have lines: "map (\<lambda>u. line_of (snd s u)) order = take (length order) (stack_freeId t0)"
    using assms(3) by (simp add: in_turn_def)
  have "line_of (snd s u) \<in> set (stack_freeId t0)" if "u \<in> set order" for u
  proof -
    have "line_of (snd s u) \<in> set (map (\<lambda>u. line_of (snd s u)) order)" using that by simp
    then show ?thesis unfolding lines by (rule in_set_takeD)
  qed
  moreover have "within_line (lineLength (storage t0)) (row_writes (info t0) (job u))" if "u \<in> set order" for u
  proof -
    have "insertable (info t0) (job u)" using assms(2,3) that by (auto simp: in_turn_def)
    then show ?thesis using within_row_writes [OF wf_but_dest(2) [OF wf]] wf_but_dest(3) [OF wf] by simp
  qed
  ultimately show "in_turn_writable (info t0) job (snd s) order (storage t0)"
    using stack_lines(1) [OF assms(1)] by (auto simp: writable_def)
  show "distinct (map (\<lambda>u. line_of (snd s u)) order)"
    unfolding lines using wf_but_dest(7) [OF wf] by simp
qed

lemma all_counted_advance:
  assumes "distinct (as @ u # bs)" and "progress n p' = min (Suc (progress n (pc u))) (n + 3)" and "n = length (columns ti)"
    and "held n (pc u)"
  shows "all_counted ti (pc(u := p')) (as @ u # bs) a =
     (if progress n (pc u) = n + 2 then size_add (all_counted ti pc (as @ u # bs) a) 1 else all_counted ti pc (as @ u # bs) a)"
proof -
  have same: "filter (\<lambda>v. progress n ((pc(u := p')) v) = n + 3) cs = filter (\<lambda>v. progress n (pc v) = n + 3) cs"
    if "u \<notin> set cs" for cs
    using that by (intro filter_cong) auto
  have "u \<notin> set as" "u \<notin> set bs" using assms(1) by auto
  moreover have "progress n (pc u) \<le> n + 3" using assms(4) by (cases "pc u") simp_all
  ultimately show ?thesis
    using assms(2) same [of as] same [of bs] unfolding all_counted_def assms(3) [symmetric]
    by (simp add: min_def)
qed

text \<open>A thread that begins takes the next line of the stack and is the last in the order.\<close>

lemma in_turn_takes:
  assumes "in_turn job t0 us order s" and "length us \<le> length (stack_freeId t0)" and "u \<in> set us"
    and "n = length (columns (info t0))" and "u \<notin> set order"
  shows "in_turn job t0 us (order @ [u]) (thread_move job u s)"
    and "snd (thread_move job u s) = (snd s)(u := Has_line (stack_freeId t0 ! length order))"
proof -
  have o: "distinct order" "set order \<subseteq> set us" and pu: "snd s u = Begins" and st: "fst s = t0\<lparr>stack_freeId := drop (length order) (stack_freeId t0),
      storage := written_in_turn (info t0) job (snd s) order (storage t0),
      activePlaces := all_counted (info t0) (snd s) order (activePlaces t0)\<rparr>"
    and lines: "map (\<lambda>u. line_of (snd s u)) order = take (length order) (stack_freeId t0)"
    using assms(1,5) unfolding in_turn_def by blast+
  have "length order < length us"
  proof -
    have "length (u # order) = card (set (u # order))" using o(1) assms(5) by (simp add: distinct_card)
    also have "\<dots> \<le> card (set us)" using o(2) assms(3) by (intro card_mono) auto
    also have "\<dots> \<le> length us" by (rule card_length)
    finally show ?thesis by simp
  qed
  then have k: "length order < length (stack_freeId t0)" using assms(2) by simp
  let ?l = "stack_freeId t0 ! length order" and ?pc = "(snd s)(u := Has_line (stack_freeId t0 ! length order))"
  have d: "drop (length order) (stack_freeId t0) = ?l # drop (Suc (length order)) (stack_freeId t0)"
    using k by (simp add: Cons_nth_drop_Suc)
  have m: "thread_move job u s = ((fst s)\<lparr>stack_freeId := drop (Suc (length order)) (stack_freeId t0)\<rparr>, ?pc)"
    using st d by (simp add: thread_move_def pu)
  have pc: "?pc v = snd s v" if "v \<in> set order" for v using that assms(5) by auto
  have "written_in_turn (info t0) job ?pc order (storage t0) = written_in_turn (info t0) job (snd s) order (storage t0)"
    unfolding written_in_turn_def by (rule in_lines_cong) (simp add: pc del: fun_upd_apply)
  then have w: "written_in_turn (info t0) job ?pc (order @ [u]) (storage t0) = written_in_turn (info t0) job (snd s) order (storage t0)"
    by (simp add: written_in_turn_def writes_so_far_def)
  have "filter (\<lambda>v. progress n (?pc v) = n + 3) order = filter (\<lambda>v. progress n (snd s v) = n + 3) order"
    by (rule filter_cong) (simp_all add: pc del: fun_upd_apply)
  then have c: "all_counted (info t0) ?pc (order @ [u]) (activePlaces t0) = all_counted (info t0) (snd s) order (activePlaces t0)"
    unfolding all_counted_def assms(4) by simp
  have "map (\<lambda>v. line_of (?pc v)) order = map (\<lambda>v. line_of (snd s v)) order"
    using pc by (intro map_cong) (simp_all del: fun_upd_apply)
  then have "map (\<lambda>v. line_of (?pc v)) (order @ [u]) = take (length (order @ [u])) (stack_freeId t0)"
    using lines k by (simp add: take_Suc_conv_app_nth)
  moreover have "\<forall>v. v \<notin> set (order @ [u]) \<longrightarrow> ?pc v = Begins"
    "\<forall>v\<in>set (order @ [u]). held (length (columns (info t0))) (?pc v)"
    using assms(1) by (auto simp: in_turn_def)
  ultimately show "in_turn job t0 us (order @ [u]) (thread_move job u s)"
    unfolding in_turn_def m using o assms(3,5) k by (simp add: st w c)
  show "snd (thread_move job u s) = ?pc" by (simp add: m)
qed

text \<open>A thread that has a line makes its next write; the order stays.\<close>

lemma in_turn_advances:
  assumes "wf_table t0" and "\<forall>u\<in>set us. insertable (info t0) (job u)" and "in_turn job t0 us order s"
    and "u \<in> set order" and "n = length (columns (info t0))"
  obtains p' where "in_turn job t0 us order (thread_move job u s)"
    and "snd (thread_move job u s) = (snd s)(u := p')" and "progress n p' = min (Suc (progress n (snd s u))) (n + 3)"
proof -
  obtain as bs where ab: "order = as @ u # bs" using assms(4) by (meson split_list)
  note wr = in_turn_lines [OF assms(1-3)]
  have o: "distinct order" "set order \<subseteq> set us" "length order \<le> length (stack_freeId t0)"
    and rest: "\<forall>u. u \<notin> set order \<longrightarrow> snd s u = Begins"
    and hd: "\<forall>u\<in>set order. held (length (columns (info t0))) (snd s u)"
    and st: "fst s = t0\<lparr>stack_freeId := drop (length order) (stack_freeId t0),
      storage := written_in_turn (info t0) job (snd s) order (storage t0),
      activePlaces := all_counted (info t0) (snd s) order (activePlaces t0)\<rparr>"
    and lines: "map (\<lambda>u. line_of (snd s u)) order = take (length order) (stack_freeId t0)"
    using assms(3) unfolding in_turn_def by blast+
  have wm: "wf_map (storage t0)" using assms(1) wf_but_dest(1) by (simp add: wf_table_def)
  have inf: "info (fst s) = info t0" by (simp add: st)
  have sto: "storage (fst s) = written_in_turn (info t0) job (snd s) order (storage t0)" by (simp add: st)
  have h: "held n (snd s u)" using hd assms(4,5) by simp
  obtain p' where p': "insert_move (fst (job u)) (columns (info t0)) (snd (job u)) (snd s u) (fst s) =
      ((fst s)\<lparr>storage := put_all (line_of (snd s u)) (take 1 (drop (progress n (snd s u) - 1) (row_writes (info t0) (job u)))) (storage (fst s)),
         activePlaces := (if progress n (snd s u) = n + 2 then size_add (activePlaces (fst s)) 1 else activePlaces (fst s))\<rparr>, p')"
    "held n p'" "line_of p' = line_of (snd s u)" "progress n p' = min (Suc (progress n (snd s u))) (n + 3)"
  proof (rule held_move [of "fst s" "snd s u" "job u" n])
    show "wf_map (storage (fst s))" unfolding sto written_in_turn_def by (rule wf_in_lines [OF wm writable_so_far [OF wr(1)]])
    show "line_of (snd s u) < max_line (storage (fst s))"
      "within_line (lineLength (storage (fst s))) (row_writes (info (fst s)) (job u))"
      using wr(1) assms(4) by (auto simp: writable_def sto inf written_in_turn_def)
    show "insertable (info (fst s)) (job u)" using assms(2,4) o(2) inf by auto
    show "held (length (columns (info (fst s)))) (snd s u)" "n = length (columns (info (fst s)))"
      using h assms(5) inf by simp_all
  qed (use that in \<open>simp add: inf\<close>)
  let ?pc = "(snd s)(u := p')"
  have pos: "0 < progress n (snd s u)" using h by (cases "snd s u") simp_all
  have "put_all (line_of (snd s u)) (take 1 (drop (progress n (snd s u) - 1) (row_writes (info t0) (job u)))) (storage (fst s)) =
      written_in_turn (info t0) job ?pc order (storage t0)"
    using written_in_turn_advance [OF wm wr assms(4) p'(3,4) pos assms(5)] assms(2,4) o(2) by (auto simp: sto)
  moreover have "(if progress n (snd s u) = n + 2 then size_add (activePlaces (fst s)) 1 else activePlaces (fst s)) =
      all_counted (info t0) ?pc order (activePlaces t0)"
    using all_counted_advance [where as = as and u = u and bs = bs and n = n and p' = p' and pc = "snd s" and ti = "info t0"]
      p'(4) assms(5) h o(1) by (simp add: st ab)
  ultimately have m: "thread_move job u s = ((fst s)\<lparr>storage := written_in_turn (info t0) job ?pc order (storage t0),
      activePlaces := all_counted (info t0) ?pc order (activePlaces t0)\<rparr>, ?pc)"
    using p'(1) by (simp add: thread_move_def inf)
  have "map (\<lambda>v. line_of (?pc v)) order = take (length order) (stack_freeId t0)"
    unfolding lines [symmetric] using p'(3) by (intro map_cong) simp_all
  moreover have "\<forall>v. v \<notin> set order \<longrightarrow> ?pc v = Begins" "\<forall>v\<in>set order. held (length (columns (info t0))) (?pc v)"
    using rest hd p'(2) assms(4,5) by auto
  ultimately have "in_turn job t0 us order (thread_move job u s)"
    unfolding in_turn_def m using o by (simp add: st)
  moreover have "snd (thread_move job u s) = ?pc" by (simp add: m)
  ultimately show ?thesis using p'(4) that by blast
qed

lemma in_turn_step:
  assumes "wf_table t0" and "\<forall>u\<in>set us. insertable (info t0) (job u)" and "in_turn job t0 us order s"
    and "length us \<le> length (stack_freeId t0)" and "u \<in> set us" and "n = length (columns (info t0))"
  obtains order' p' where "in_turn job t0 us order' (thread_move job u s)"
    and "snd (thread_move job u s) = (snd s)(u := p')" and "progress n p' = min (Suc (progress n (snd s u))) (n + 3)"
proof (cases "u \<in> set order")
  case True
  then show ?thesis using in_turn_advances [OF assms(1-3) True assms(6)] that by blast
next
  case False
  then have "snd s u = Begins" using assms(3) by (simp add: in_turn_def)
  then show ?thesis using in_turn_takes [OF assms(3-6) False] that by simp
qed

lemma in_turn_ever:
  assumes "wf_table t0" and "\<forall>u\<in>set us. insertable (info t0) (job u)" and "in_turn job t0 us order s"
    and "length us \<le> length (stack_freeId t0)" and "set sched \<subseteq> set us" and "n = length (columns (info t0))"
  shows "\<exists>order'. in_turn job t0 us order' (run_schedule job sched s) \<and>
     (\<forall>u\<in>set us. progress n (snd (run_schedule job sched s) u) = min (progress n (snd s u) + count_list sched u) (n + 3))"
  using assms(3,5)
proof (induction sched arbitrary: order s)
  case Nil
  have "progress n (snd s u) \<le> n + 3" for u
    using Nil.prems(1) assms(6) unfolding in_turn_def by (cases "u \<in> set order"; cases "snd s u") force+
  then show ?case using Nil.prems(1) by (auto simp: min_def)
next
  case (Cons v sched)
  have v: "v \<in> set us" "set sched \<subseteq> set us" using Cons.prems(2) by auto
  obtain order1 p1 where s1: "in_turn job t0 us order1 (thread_move job v s)"
    "snd (thread_move job v s) = (snd s)(v := p1)" "progress n p1 = min (Suc (progress n (snd s v))) (n + 3)"
    using in_turn_step [OF assms(1,2) Cons.prems(1) assms(4) v(1) assms(6)] .
  obtain order2 where "in_turn job t0 us order2 (run_schedule job sched (thread_move job v s))"
    "\<forall>u\<in>set us. progress n (snd (run_schedule job sched (thread_move job v s)) u) =
       min (progress n (((snd s)(v := p1)) u) + count_list sched u) (n + 3)"
    using Cons.IH [OF s1(1) v(2)] s1(2) by auto
  then show ?case using s1(3) by (intro exI [of _ order2]) auto
qed

text \<open>The insertions one after the other, on lines from the stack.\<close>

lemma fill_line:
  assumes "wf_map (storage t)" and "wf_info (info t)" and "lineLength (storage t) = info_lineLength (info t)"
    and "l < max_line (storage t)" and "insertable (info t) vi"
  shows "bnd (on_storage (activate l)) (\<lambda>_. bnd (update (fst vi) (columns (info t)) l (snd vi)) (\<lambda>_.
       bnd (modify (\<lambda>t. t\<lparr>activePlaces := size_add (activePlaces t) 1\<rparr>)) (\<lambda>_. ret l))) t =
     (Inr l, t\<lparr>storage := put_all l (row_writes (info t) vi) (storage t), activePlaces := size_add (activePlaces t) 1\<rparr>)"
proof -
  let ?cs = "columns (info t)" and ?m = "put_cell l 0 (enc_bool True) (storage t)"
  have w: "within_line (lineLength (storage t)) (row_writes (info t) vi)"
    using within_row_writes [OF assms(2,5)] assms(3) by simp
  then have one: "0 + length (enc_bool True) \<le> lineLength (storage t)" by (simp add: row_writes_def)
  have a: "activate l (storage t) = (Inr (), ?m)"
    unfolding activate_def by (rule core_write_wf) (use assms(1,4) one in simp_all)
  have m: "wf_map ?m" "l < max_line ?m" using wf_put_cell [OF assms(1,4) one] assms(4) by simp_all
  have z: "fields_of ?cs (drop (snd vi) (fst vi)) = fields_of ?cs (row_at (info t) vi)"
    by (simp add: fields_of_def row_at_def zip_take_length)
  have ins: "mm.inside ?m (fields_of ?cs (row_at (info t) vi))"
    using w by (simp add: inside_within row_writes_def)
  have "?cs \<noteq> []" using assms(2) by (simp add: wf_info_def)
  then have "snd vi + length ?cs \<le> length (fst vi)" by (rule insertable_length [OF assms(5)])
  then show ?thesis
    using update_loop_fields [of "t\<lparr>storage := ?m\<rparr>" l "snd vi" ?cs "fst vi"] m ins store_fields_puts [OF m ins]
    by (simp add: bnd_def on_storage_apply a update_def z row_writes_def)
qed

lemma insert_reused:
  assumes "wf_map (storage t)" and "wf_info (info t)" and "lineLength (storage t) = info_lineLength (info t)"
    and "stack_freeId t = l # st" and "l < max_line (storage t)" and "insertable (info t) vi"
  shows "insert_at vi t = (Inr l, t\<lparr>stack_freeId := st, storage := put_all l (row_writes (info t) vi) (storage t),
     activePlaces := size_add (activePlaces t) 1\<rparr>)"
  using fill_line [of "t\<lparr>stack_freeId := st\<rparr>" l vi] assms
  by (simp add: insert_at_def insert_row_def allocateId_def bnd_Inr)

lemma insert_all_reused:
  assumes "wf_map (storage t)" and "wf_info (info t)" and "lineLength (storage t) = info_lineLength (info t)"
    and "stack_freeId t = ls @ st" and "length ls = length vis"
    and "\<forall>l\<in>set ls. l < max_line (storage t)" and "\<forall>vi\<in>set vis. insertable (info t) vi"
  shows "tab.ins_all vis t = (Inr ls, t\<lparr>stack_freeId := st,
     storage := fold (\<lambda>(l, vi). put_all l (row_writes (info t) vi)) (zip ls vis) (storage t),
     activePlaces := ((\<lambda>a. size_add a 1) ^^ length ls) (activePlaces t)\<rparr>)"
  using assms(5,1-4,6,7)
proof (induction ls vis arbitrary: t rule: list_induct2)
  case Nil
  then show ?case by simp
next
  case (Cons l ls vi vis)
  let ?m = "put_all l (row_writes (info t) vi) (storage t)"
  let ?t = "t\<lparr>stack_freeId := ls @ st, storage := ?m, activePlaces := size_add (activePlaces t) 1\<rparr>"
  have l: "l < max_line (storage t)" and v: "insertable (info t) vi" using Cons.prems by simp_all
  have "insert_at vi t = (Inr l, ?t)"
    using insert_reused [OF Cons.prems(1-3) _ l v, of "ls @ st"] Cons.prems(4) by simp
  moreover have "wf_map ?m"
    using within_row_writes [OF Cons.prems(2) v] Cons.prems(1,3) l by (intro wf_put_all) simp_all
  ultimately show ?case
    using Cons.IH [of ?t] Cons.prems
    by (simp add: bnd_def funpow_swap1 [of "\<lambda>a. size_add a (Suc 0)"])
qed

lemma written_in_turn_done:
  assumes "\<forall>u\<in>set order. pc u = Inserted (line_of (pc u)) \<and> insertable ti (job u)"
  shows "written_in_turn ti job pc order m =
     fold (\<lambda>(l, vi). put_all l (row_writes ti vi)) (zip (map (\<lambda>u. line_of (pc u)) order) (map job order)) m"
  using assms
proof (induction order arbitrary: m)
  case (Cons u order)
  then obtain l where l: "pc u = Inserted l" by (metis list.set_intros(1))
  have "length (row_writes ti (job u)) \<le> length (columns ti) + 2"
    using length_row_writes [of ti "job u"] Cons.prems by simp
  then show ?case
    using Cons by (simp add: written_in_turn_def writes_so_far_def l)
qed (simp add: written_in_turn_def)

text \<open>
  (C11) Insertions of several threads on a table with enough lines of erased rows, each thread getting enough
  turns: whatever the schedule, every insertion succeeds, and the table is the one that the same
  insertions leave when they are made one after the other, in the order in which the threads took
  their lines.
\<close>

theorem interleaved_insertions_are_serial:
  assumes "wf_table t" and "\<forall>u\<in>set us. insertable (info t) (job u)" and "length us \<le> length (stack_freeId t)"
    and "set sched \<subseteq> set us" and "\<forall>u\<in>set us. length (columns (info t)) + 3 \<le> count_list sched u"
    and "run_schedule job sched (t, \<lambda>_. Begins) = (t', pc)"
  shows "\<exists>order ls. distinct order \<and> set order = set us \<and> map pc order = map Inserted ls \<and>
     tab.ins_all (map job order) t = (Inr ls, t')"
proof -
  let ?n = "length (columns (info t))" and ?s = "run_schedule job sched (t, \<lambda>_. Begins)"
  have wf: "wf_but {} t" using assms(1) by (simp add: wf_table_def)
  note d = wf_but_dest [OF wf]
  have "in_turn job t us [] (t, \<lambda>_. Begins)" by (simp add: in_turn_def written_in_turn_def all_counted_def)
  then obtain order where o: "in_turn job t us order (t', pc)"
    "\<forall>u\<in>set us. progress ?n (pc u) = min (count_list sched u) (?n + 3)"
    using in_turn_ever [OF assms(1,2) _ assms(3,4) refl] assms(6) by fastforce
  have all: "progress ?n (pc u) = ?n + 3" if "u \<in> set us" for u
    using o(2) assms(5) that by (metis min.absorb2)
  have pc: "pc u = Inserted (line_of (pc u))" if "u \<in> set order" for u
  proof -
    have "held ?n (pc u)" "u \<in> set us" using o(1) that by (auto simp: in_turn_def)
    with all [of u] show ?thesis by (cases "pc u") simp_all
  qed
  have "u \<in> set order" if "u \<in> set us" for u
    using o(1) all [OF that] by (auto simp: in_turn_def)
  then have same: "distinct order" "set order = set us" using o(1) by (auto simp: in_turn_def)
  have len: "length order \<le> length (stack_freeId t)" using o(1) by (simp add: in_turn_def)
  let ?ls = "map (\<lambda>u. line_of (pc u)) order"
  have ls: "?ls = take (length order) (stack_freeId t)" using o(1) by (simp add: in_turn_def)
  have "\<forall>u\<in>set order. progress ?n (pc u) = ?n + 3" using pc by (metis progress.simps(3))
  then have "filter (\<lambda>u. progress ?n (pc u) = ?n + 3) order = order" by (simp add: filter_id_conv)
  then have t': "t' = t\<lparr>stack_freeId := drop (length order) (stack_freeId t),
      storage := fold (\<lambda>(l, vi). put_all l (row_writes (info t) vi)) (zip ?ls (map job order)) (storage t),
      activePlaces := ((\<lambda>a. size_add a 1) ^^ length ?ls) (activePlaces t)\<rparr>"
    using o(1) written_in_turn_done [of order pc "info t" job "storage t"] pc same(2) assms(2)
    by (simp add: in_turn_def all_counted_def)
  have "\<forall>l\<in>set ?ls. l < max_line (storage t)"
    unfolding ls using stack_lines(1) [OF assms(1)] by (auto dest: in_set_takeD)
  then have "tab.ins_all (map job order) t = (Inr ?ls, t')"
    unfolding t' using d(1-3) ls same(2) assms(2) append_take_drop_id [of "length order" "stack_freeId t"] len
    by (intro insert_all_reused) (auto simp: min_def)
  moreover have "map pc order = map Inserted ?ls" using pc by simp
  ultimately show ?thesis using same by blast
qed

definition sample_jobs :: jobs where
  "sample_jobs u = ([VString (str_resize 8 ''Ann''), VInt32 30, VString (str_resize 8 ''Bob''), VInt32 20], 2 * u)"

lemma sample_insertable: "u < 2 \<Longrightarrow> insertable sample_info (sample_jobs u)"
  by (auto simp: insertable_def sample_jobs_def row_at_def fits_def int32.width less_2_cases_iff)

text \<open>A table two of whose rows have been erased.\<close>

lemma sample_erased:
  "\<exists>t. wf_table t \<and> info t = sample_info \<and> 2 \<le> length (stack_freeId t)"
proof -
  obtain t i j where t: "wf_table t" "info t = sample_info" "i \<noteq> j"
    "rows t = [i \<mapsto> [VString ''Ann'', VInt32 30], j \<mapsto> [VString ''Bob'', VInt32 20]]"
    using sample_filled by blast
  have "dom (rows t) = {i, j}" using t(3,4) by auto
  then have act: "active (storage t) = {i, j}" using dom_rows [of "{}" t] t(1) by (simp add: wf_table_def)
  obtain t1 where t1: "erase i t = (Inr i, t1)" "wf_table t1" "info t1 = info t" "active (storage t1) = {j}"
    using erase_spec [OF t(1), of i] act t(3) by auto
  obtain t2 where t2: "erase j t1 = (Inr j, t2)" "wf_table t2" "info t2 = info t1"
    using erase_spec [OF t1(2), of j] t1(4) by auto
  have "stack_freeId t2 = j # i # stack_freeId t"
    using erase_wf [OF t(1), of i] erase_wf [OF t1(2), of j] act t1(1,4) t2(1) by auto
  then show ?thesis using t(2) t1(3) t2(2,3) by (intro exI [of _ t2]) simp
qed

text \<open>Two threads taking turns, ten steps in all.\<close>

theorem interleaved_insertions_are_serial_witness:
  "\<exists>t t' pc order ls. wf_table t \<and> run_schedule sample_jobs [0, 1, 1, 0, 0, 1, 0, 1, 1, 0] (t, \<lambda>_. Begins) = (t', pc) \<and>
     set order = {0, 1} \<and> map pc order = map Inserted ls \<and> tab.ins_all (map sample_jobs order) t = (Inr ls, t')"
proof -
  obtain t where t: "wf_table t" "info t = sample_info" "2 \<le> length (stack_freeId t)" using sample_erased by blast
  obtain t' pc where r: "run_schedule sample_jobs [0, 1, 1, 0, 0, 1, 0, 1, 1, 0] (t, \<lambda>_. Begins) = (t', pc)" by force
  have "insertable (info t) (sample_jobs 0)" "insertable (info t) (sample_jobs 1)"
    using sample_insertable t(2) by simp_all
  then have ins: "\<forall>u\<in>set [0, 1]. insertable (info t) (sample_jobs u)" by simp
  have turns: "set [0, 1, 1, 0, 0, 1, 0, 1, 1, 0 :: nat] \<subseteq> set [0, 1]"
    "\<forall>u\<in>set [0, 1 :: nat]. length (columns (info t)) + 3 \<le> count_list [0, 1, 1, 0, 0, 1, 0, 1, 1, 0] u"
    by (simp_all add: t(2))
  have "length [0, 1 :: nat] \<le> length (stack_freeId t)" using t(3) by simp
  then obtain order ls where "set order = set [0, 1]" "map pc order = map Inserted ls"
    "tab.ins_all (map sample_jobs order) t = (Inr ls, t')"
    using interleaved_insertions_are_serial [OF t(1) ins _ turns r] by blast
  moreover have "set [0, 1 :: nat] = {0, 1}" by simp
  ultimately show ?thesis using t(1) r by metis
qed

end
