(* ===== verification/Racing_Insertions.thy ===== *)
theory Racing_Insertions
  imports Concurrent_Insertion
begin

text \<open>
  Schedules of \<^verbatim>\<open>Tabble::insert\<close> under which the table is not what insertions one after the other
  would leave: two threads that read the counter of fresh lines before either advances it, and a
  thread that makes a line active before it has written the fields.
\<close>

section \<open>Insertions into fresh lines\<close>

definition fresh_row :: "nat \<Rightarrow> variant_types list \<times> nat \<Rightarrow> table \<Rightarrow> table" where
  "fresh_row l vi t = t\<lparr>freeId := size_add (freeId t) 1, storage := put_all l (row_writes (info t) vi) (storage t),
     activePlaces := size_add (size_add (activePlaces t) 1) 1\<rparr>"

lemma fresh_row_simps [simp]:
  "info (fresh_row l vi t) = info t" "stack_freeId (fresh_row l vi t) = stack_freeId t"
  "max_line (storage (fresh_row l vi t)) = max_line (storage t)"
  by (simp_all add: fresh_row_def)

lemma counter_moves:
  assumes "wf_map (storage t)" and "wf_info (info t)" and "lineLength (storage t) = info_lineLength (info t)"
    and "l < max_line (storage t)" and "insertable (info t) vi"
  shows "insert_moves (length (columns (info t)) + 5) (fst vi) (columns (info t)) (snd vi) (t, Read_counter l) =
     (fresh_row l vi t, Inserted l)"
proof -
  let ?t = "t\<lparr>activePlaces := size_add (activePlaces t) 1, freeId := size_add (freeId t) 1\<rparr>"
  have "insert_moves (length (columns (info t)) + 2) (fst vi) (columns (info t)) (snd vi) (?t, Has_line l) =
      (fresh_row l vi t, Inserted l)"
    using fill_line [of ?t l vi] assms by (subst has_line_moves) (simp_all add: outcome_def fresh_row_def)
  then show ?thesis using assms(1,4) by (simp add: numeral_eq_Suc)
qed

lemma insert_fresh:
  assumes "wf_table t" and "stack_freeId t = []" and "freeId t < max_line (storage t)" and "insertable (info t) vi"
  shows "insert_at vi t = (Inr (freeId t), fresh_row (freeId t) vi t)"
proof -
  have wf: "wf_but {} t" using assms(1) by (simp add: wf_table_def)
  note d = wf_but_dest [OF wf]
  let ?t = "t\<lparr>activePlaces := size_add (activePlaces t) 1, freeId := size_add (freeId t) 1\<rparr>"
  show ?thesis
    using fill_line [of ?t "freeId t" vi] d(1-3) assms(2-4)
    by (simp add: insert_at_def insert_row_def allocateId_def Let_def fresh_row_def bnd_def)
qed

text \<open>A row written into an allocated line.\<close>

lemma filled_line_wf:
  assumes "allocated t0 l t" and "insertable (info t) vi"
    and "t' = t\<lparr>storage := put_all l (row_writes (info t) vi) (storage t), activePlaces := size_add (activePlaces t) 1\<rparr>"
  shows "wf_table t'" and "rows t' = (rows t)(l \<mapsto> map as_read (row_at (info t) vi))" and "l \<in> active (storage t')"
proof -
  have wf: "wf_but {l} t" using assms(1) by (simp add: allocated_def)
  let ?cs = "columns (info t)" and ?vs = "row_at (info t) vi"
  let ?m = "put_cell l 0 (enc_bool True) (storage t)"
  have f: "list_all2 fits ?cs ?vs" using assms(2) by (simp add: insertable_def)
  have "snd (mm.store_fields l (fields_of ?cs ?vs) ?m) = put_all l (row_writes (info t) vi) (storage t)"
    using fill_row(3-5) [OF assms(1) f refl refl] by (simp add: store_fields_puts row_writes_def)
  moreover have "activePlaces t + 1 < SIZE_MOD" using activePlaces_bound(1) [OF wf] by simp
  ultimately have t': "t' = t\<lparr>storage := snd (mm.store_fields l (fields_of ?cs ?vs) ?m), activePlaces := activePlaces t + 1\<rparr>"
    by (simp add: assms(3) size_add_small)
  note fill = fill_row [OF assms(1) f refl t']
  show "wf_table t'" "rows t' = (rows t)(l \<mapsto> map as_read ?vs)" "l \<in> active (storage t')"
    using fill(1,2,7) by (simp_all add: wf_table_def)
qed

lemma fresh_row_wf:
  assumes "wf_table t" and "stack_freeId t = []" and "freeId t < max_line (storage t)" and "insertable (info t) vi"
  shows "wf_table (fresh_row (freeId t) vi t)"
    and "rows (fresh_row (freeId t) vi t) = (rows t)(freeId t \<mapsto> map as_read (row_at (info t) vi))"
    and "freeId (fresh_row (freeId t) vi t) = freeId t + 1"
    and "freeId t \<in> active (storage (fresh_row (freeId t) vi t))"
proof -
  have wf: "wf_but {} t" using assms(1) by (simp add: wf_table_def)
  let ?t = "t\<lparr>activePlaces := activePlaces t + 1, freeId := freeId t + 1\<rparr>"
  have al: "allocated t (freeId t) ?t" by (rule allocate_fresh [OF wf assms(2,3)])
  have "activePlaces t + 1 < SIZE_MOD" "freeId t + 1 < SIZE_MOD" using activePlaces_bound [OF wf] by simp_all
  then have fr: "fresh_row (freeId t) vi t = ?t\<lparr>storage := put_all (freeId t) (row_writes (info ?t) vi) (storage ?t),
      activePlaces := size_add (activePlaces ?t) 1\<rparr>"
    by (simp add: fresh_row_def size_add_small)
  have ins: "insertable (info ?t) vi" using assms(4) by simp
  note fill = filled_line_wf [OF al ins fr]
  show "wf_table (fresh_row (freeId t) vi t)" "freeId t \<in> active (storage (fresh_row (freeId t) vi t))"
    using fill(1,3) .
  show "rows (fresh_row (freeId t) vi t) = (rows t)(freeId t \<mapsto> map as_read (row_at (info t) vi))"
    using fill(2) al by (simp add: allocated_def)
  show "freeId (fresh_row (freeId t) vi t) = freeId t + 1" by (simp add: fr)
qed

section \<open>Overwriting a row\<close>

lemma overwritten_row:
  assumes "wf_table t" and "l \<in> active (storage t)" and "insertable (info t) vi"
    and "t' = t\<lparr>storage := put_all l (row_writes (info t) vi) (storage t)\<rparr>"
  shows "wf_table t'" and "rows t' = (rows t)(l \<mapsto> map as_read (row_at (info t) vi))"
    and "active (storage t') = active (storage t)"
proof -
  have wf: "wf_but {} t" using assms(1) by (simp add: wf_table_def)
  note d = wf_but_dest [OF wf]
  let ?cs = "columns (info t)" and ?vs = "row_at (info t) vi"
  have l: "l < max_line (storage t)" by (rule active_bound [OF assms(2)])
  have fits: "list_all2 fits ?cs ?vs" using assms(3) by (simp add: insertable_def)
  have ins: "mm.inside (storage t) (fields_of ?cs ?vs)" by (rule fields_fit [OF d(1-3) order_refl fits])
  have ap: "sorted_wrt mm.apart (fields_of ?cs ?vs)"
    using d(2) fits by (intro fields_apart) (simp_all add: wf_info_def)
  have "put_cell l 0 (enc_bool True) (storage t) = storage t"
    using assms(2) by (intro put_cell_again [of _ _ _ 1]) (simp_all add: active_def bool1.width)
  then have put: "put_all l (row_writes (info t) vi) (storage t) = snd (mm.store_fields l (fields_of ?cs ?vs) (storage t))"
    using store_fields_puts [OF d(1) l ins] by (simp add: row_writes_def)
  have dist: "distinct ?cs" by (rule columns_distinct [OF d(2)])
  have "list_all2 fits_within ?cs ?vs"
    using fits by (rule list_all2_mono) (simp add: fits_def fits_within_def)
  then obtain t2 where t2: "update ?vs ?cs l 0 t = (Inr (), t2)" "wf_table t2" "active (storage t2) = active (storage t)"
    "only_line l (storage t) (storage t2)" "info t2 = info t"
    using update_spec [OF assms(1,2) order_refl dist] by blast
  have "length ?vs = length ?cs" using fits by (simp add: list_all2_lengthD)
  then have "t2 = t'"
    using update_loop_fields [OF d(1) l, of 0 ?cs ?vs] ins t2(1) by (simp add: update_def assms(4) put)
  then show t': "wf_table t'" "active (storage t') = active (storage t)" using t2(2,3) by simp_all
  have val: "column_value t' l (?cs ! j) = Inr (as_read (?vs ! j))" if "j < length ?cs" for j
    using column_value_stored [OF d(1) l ins ap fits that] by (simp add: assms(4) put)
  obtain r where r: "rows t' l = Some r"
    using rows_wf [of "{}" t' l] t' assms(2) by (auto simp: wf_table_def)
  have wf': "wf_but {} t'" and inf: "info t' = info t" using t'(1) by (simp_all add: wf_table_def assms(4))
  have "r = map as_read ?vs"
    using rows_Some(4,5) [OF wf' r] val \<open>length ?vs = length ?cs\<close> unfolding inf
    by (intro nth_equalityI) simp_all
  then show "rows t' = (rows t)(l \<mapsto> map as_read ?vs)"
    using r rows_other_lines [OF wf t2(4) l _ _ inf] \<open>t2 = t'\<close> by (auto simp: fun_eq_iff)
qed

section \<open>The lost row\<close>

text \<open>A thread that has several turns in a row.\<close>

lemma after_info: "(\<And>t. info (snd (m t)) = info t) \<Longrightarrow> info (fst (after m p t)) = info t"
  by (auto simp: after_def split: prod.splits sum.splits) (metis snd_conv)+

lemma insert_move_info: "info (fst (insert_move values cols index p t)) = info t"
  by (cases p) (auto simp: after_info on_storage_def zoom_def split: prod.splits list.splits sum.splits)

lemma run_turns:
  "run_schedule job (replicate k u) (t, pc) =
     (case insert_moves k (fst (job u)) (columns (info t)) (snd (job u)) (t, pc u) of (t', p) \<Rightarrow> (t', pc(u := p)))"
proof (induction k arbitrary: t pc)
  case (Suc k)
  obtain t1 p1 where m: "insert_move (fst (job u)) (columns (info t)) (snd (job u)) (pc u) t = (t1, p1)" by force
  then have inf: "info t1 = info t" using insert_move_info by (metis fst_conv)
  obtain t2 p2 where m2: "insert_moves k (fst (job u)) (columns (info t)) (snd (job u)) (t1, p1) = (t2, p2)" by force
  have "run_schedule job (replicate k u) (t1, pc(u := p1)) = (t2, pc(u := p2))"
    using Suc [of t1 "pc(u := p1)"] m2 by (simp only: inf fun_upd_same prod.case fun_upd_upd)
  then show ?case using m m2 by (simp only: replicate_Suc run_schedule_simps thread_move_def insert_moves.simps fst_conv snd_conv prod.case)
qed simp

text \<open>
  The schedule: both threads find the stack empty and read the counter, then one finishes, then the
  other.
\<close>

definition lossy_schedule :: "nat \<Rightarrow> nat \<Rightarrow> nat \<Rightarrow> nat list" where
  "lossy_schedule n u v = [u, u, v, v] @ replicate (n + 5) u @ replicate (n + 5) v"

lemma lossy_run:
  assumes "wf_table t" and "stack_freeId t = []" and "freeId t < max_line (storage t)"
    and "insertable (info t) (job u)" and "insertable (info t) (job v)" and "u \<noteq> v"
  obtains t1 where "t1 = fresh_row (freeId t) (job u) t"
    and "run_schedule job (lossy_schedule (length (columns (info t))) u v) (t, \<lambda>_. Begins) =
     (fresh_row (freeId t) (job v) t1, (\<lambda>_. Begins)(u := Inserted (freeId t), v := Inserted (freeId t)))"
proof -
  have wf: "wf_but {} t" using assms(1) by (simp add: wf_table_def)
  note d = wf_but_dest [OF wf]
  let ?n = "length (columns (info t))" and ?t1 = "fresh_row (freeId t) (job u) t"
  let ?p = "(\<lambda>_. Begins)(u := Read_counter (freeId t), v := Read_counter (freeId t))"
  have s0: "run_schedule job [u, u, v, v] (t, \<lambda>_. Begins) = (t, ?p)"
    using assms(2,6) by (auto simp: thread_move_def fun_eq_iff)
  have "wf_table ?t1" by (rule fresh_row_wf(1) [OF assms(1-4)])
  then have wf1: "wf_but {} ?t1" by (simp add: wf_table_def)
  note d1 = wf_but_dest [OF wf1]
  have s1: "run_schedule job (replicate (?n + 5) u) (t, ?p) = (?t1, ?p(u := Inserted (freeId t)))"
    using counter_moves [OF d(1-3) assms(3,4)] assms(6) by (simp only: run_turns fun_upd_apply) simp
  have s2: "run_schedule job (replicate (?n + 5) v) (?t1, ?p(u := Inserted (freeId t))) =
      (fresh_row (freeId t) (job v) ?t1, ?p(u := Inserted (freeId t), v := Inserted (freeId t)))"
    using counter_moves [OF d1(1-3), of "freeId t" "job v"] assms(3,5,6) by (simp only: run_turns fun_upd_apply) simp
  have "?p(u := Inserted (freeId t), v := Inserted (freeId t)) =
      (\<lambda>_. Begins)(u := Inserted (freeId t), v := Inserted (freeId t))"
    by (simp add: fun_eq_iff)
  then show ?thesis
    using that [OF refl] s0 s1 s2 unfolding lossy_schedule_def run_schedule_simps(3) by simp
qed

lemma lossy_rows:
  assumes "wf_table t" and "stack_freeId t = []" and "freeId t < max_line (storage t)"
    and "insertable (info t) vi" and "insertable (info t) wi" and "t1 = fresh_row (freeId t) vi t"
  shows "\<exists>t2 a. wf_table t2 \<and> rows t2 = (rows t)(freeId t \<mapsto> map as_read (row_at (info t) wi)) \<and>
     freeId t2 = freeId t + 1 \<and> stack_freeId t2 = [] \<and> freeId t + 1 < a \<and>
     fresh_row (freeId t) wi t1 = t2\<lparr>freeId := freeId t + 2, activePlaces := a\<rparr>"
proof -
  let ?t2 = "t1\<lparr>storage := put_all (freeId t) (row_writes (info t) wi) (storage t1)\<rparr>"
  let ?a = "size_add (size_add (activePlaces t1) 1) 1"
  note fr = fresh_row_wf [OF assms(1-4), folded assms(6)]
  have inf: "info t1 = info t" "stack_freeId t1 = []" using assms(2,6) by simp_all
  have wi: "insertable (info t1) wi" using assms(5) inf(1) by simp
  note ov = overwritten_row [OF fr(1,4) wi refl]
  have wf1: "wf_but {} t1" using fr(1) by (simp add: wf_table_def)
  note d = wf_but_dest [OF wf1]
  have "columns (info t1) \<noteq> []" using d(2) by (simp add: wf_info_def)
  then have c: "hd (columns (info t1)) \<in> set (columns (info t1))" by simp
  have "2 \<le> lineLength (storage t1)"
    using wf_info_column [OF d(2) c] column_size_pos [of "hd (columns (info t1))"] d(3) by linarith
  then have "max_line (storage t1) * 2 \<le> fileSize (storage t1)"
    using fileSize_lines [OF d(1)] by simp
  moreover have "fileSize (storage t1) < 2 ^ 63" using d(1) by (simp add: wf_map_def)
  moreover have act: "active (storage t1) = {..<freeId t1}" using d(5,8) inf(2) by auto
  ultimately have "activePlaces t1 + 2 < SIZE_MOD" "freeId t1 + 1 < SIZE_MOD" using d(6,10) by simp_all
  moreover have "freeId t1 \<le> activePlaces t1" using d(9) act by simp
  ultimately have a: "?a = activePlaces t1 + 2" "freeId t + 1 < ?a" "size_add (freeId t1) 1 = freeId t + 2"
    using fr(3) by (simp_all add: size_add_small)
  have "fresh_row (freeId t) wi t1 = ?t2\<lparr>freeId := freeId t + 2, activePlaces := ?a\<rparr>"
    using a(3) inf(1) by (simp add: fresh_row_def)
  moreover have "wf_table ?t2" "rows ?t2 = (rows t)(freeId t \<mapsto> map as_read (row_at (info t) wi))"
    using ov(1,2) inf(1) fr(2) by simp_all
  ultimately show ?thesis
    using a(2) fr(3) inf(2) by (intro exI [of _ ?t2] exI [of _ ?a]) simp
qed

lemma lossy_result:
  assumes "wf_table t" and "stack_freeId t = []" and "freeId t < max_line (storage t)"
    and "insertable (info t) (job u)" and "insertable (info t) (job v)" and "u \<noteq> v"
  obtains t2 a t' where "wf_table t2" and "rows t2 = (rows t)(freeId t \<mapsto> map as_read (row_at (info t) (job v)))"
    and "freeId t2 = freeId t + 1" and "stack_freeId t2 = []" and "freeId t + 1 < a" and "info t2 = info t"
    and "max_line (storage t2) = max_line (storage t)" and "t' = t2\<lparr>freeId := freeId t + 2, activePlaces := a\<rparr>"
    and "run_schedule job (lossy_schedule (length (columns (info t))) u v) (t, \<lambda>_. Begins) =
     (t', (\<lambda>_. Begins)(u := Inserted (freeId t), v := Inserted (freeId t)))"
proof -
  obtain t1 where t1: "t1 = fresh_row (freeId t) (job u) t"
    "run_schedule job (lossy_schedule (length (columns (info t))) u v) (t, \<lambda>_. Begins) =
     (fresh_row (freeId t) (job v) t1, (\<lambda>_. Begins)(u := Inserted (freeId t), v := Inserted (freeId t)))"
    using lossy_run [where job = job, OF assms] .
  obtain t2 a where t2: "wf_table t2" "rows t2 = (rows t)(freeId t \<mapsto> map as_read (row_at (info t) (job v)))"
    "freeId t2 = freeId t + 1" "stack_freeId t2 = []" "freeId t + 1 < a"
    "fresh_row (freeId t) (job v) t1 = t2\<lparr>freeId := freeId t + 2, activePlaces := a\<rparr>"
    using lossy_rows [OF assms(1-5) t1(1)] by blast
  have "info (fresh_row (freeId t) (job v) t1) = info t"
    "max_line (storage (fresh_row (freeId t) (job v) t1)) = max_line (storage t)" by (simp_all add: t1(1))
  then have "info t2 = info t" "max_line (storage t2) = max_line (storage t)" unfolding t2(6) by simp_all
  then show ?thesis using that [OF t2(1-5) _ _ t2(6)] t1(2) by blast
qed

text \<open>
  (C20) Two insertions at a time into a table without erased rows can both succeed with the same number, and
  only the row of the second is in the table afterwards. The counter has passed a line that nobody
  has written and that the stack does not hold, so the table is not well-formed.
\<close>

theorem racing_insertions_lose_a_row:
  assumes "wf_table t" and "stack_freeId t = []" and "freeId t < max_line (storage t)"
    and "insertable (info t) (job u)" and "insertable (info t) (job v)" and "u \<noteq> v"
  shows "\<exists>sched t' pc. run_schedule job sched (t, \<lambda>_. Begins) = (t', pc) \<and>
     pc u = Inserted (freeId t) \<and> pc v = Inserted (freeId t) \<and>
     rows t' = (rows t)(freeId t \<mapsto> map as_read (row_at (info t) (job v))) \<and>
     freeId t' = freeId t + 2 \<and> \<not> wf_table t'"
proof -
  obtain t2 a t' where t2: "wf_table t2" "rows t2 = (rows t)(freeId t \<mapsto> map as_read (row_at (info t) (job v)))"
    "freeId t2 = freeId t + 1" "stack_freeId t2 = []" "t' = t2\<lparr>freeId := freeId t + 2, activePlaces := a\<rparr>"
    and run: "run_schedule job (lossy_schedule (length (columns (info t))) u v) (t, \<lambda>_. Begins) =
     (t', (\<lambda>_. Begins)(u := Inserted (freeId t), v := Inserted (freeId t)))"
    using lossy_result [where job = job, OF assms] by metis
  have "active (storage t2) \<subseteq> {..<freeId t + 1}" using wf_but_dest(5) [of "{}" t2] t2(1,3) by (simp add: wf_table_def)
  then have "freeId t + 1 \<in> {..<freeId t'} - active (storage t') - {}" by (auto simp: t2(5))
  then have "\<not> wf_table t'" using wf_but_dest(8) [of "{}" t'] t2(4,5) by (auto simp: wf_table_def)
  moreover have "rows t' = rows t2" by (rule rows_cong) (simp_all add: t2(5))
  ultimately show ?thesis
    using run t2(2) assms(6)
    by (intro exI [of _ "lossy_schedule (length (columns (info t))) u v"] exI [of _ t']
        exI [of _ "(\<lambda>_. Begins)(u := Inserted (freeId t), v := Inserted (freeId t))"]) (simp add: t2(5))
qed

section \<open>A counter past the end of the file\<close>

text \<open>What a scan reads of a table depends on the storage and the description only.\<close>

lemma read_column_cong: "storage t' = storage t \<Longrightarrow> read_column t' l c = read_column t l c"
  by (simp add: read_column_def table_readText_def table_readNumber_def)

lemma satisfies_loop_cong:
  "storage t' = storage t \<Longrightarrow> satisfies_loop t' l cols cs acc op1 = satisfies_loop t l cols cs acc op1"
proof (induction cs arbitrary: acc op1)
  case (Cons c cs)
  have "read_column t' l = read_column t l" by (intro ext read_column_cong Cons.prems)
  then show ?case using Cons by simp
qed simp

lemma row_matches_cong:
  assumes "storage t' = storage t" and "info t' = info t"
  shows "row_matches t' cs l = row_matches t cs l"
proof -
  have "satisfiesConditions t' l cs (columns (info t')) = satisfiesConditions t l cs (columns (info t))"
    by (simp add: satisfiesConditions_def assms(2) satisfies_loop_cong [OF assms(1)])
  then show ?thesis by (simp only: row_matches_def assms(1))
qed

lemma readRecord_cong: "storage t' = storage t \<Longrightarrow> readRecord t' l ids cols = readRecord t l ids cols"
proof -
  assume st: "storage t' = storage t"
  have "read_column t' l = read_column t l" by (intro ext read_column_cong st)
  then show ?thesis by (simp add: readRecord_def)
qed

text \<open>A scan that goes one line beyond the end of the file reads through a null pointer there.\<close>

lemma scan_beyond:
  assumes "wf_table t2" and "t' = t2\<lparr>freeId := f, activePlaces := a\<rparr>" and "etable s = t'"
    and "\<forall>j\<in>set ids. j < length (columns (info t2))" and "\<forall>c\<in>set cs. plain (info t2) c"
    and "max_line (storage t2) < cnt" and "length (body (eresult s)) \<le> i" and "i \<le> max_line (storage t2)"
  shows "fst (scan (select_row ids) cs (Suc (max_line (storage t2))) cnt i s) = Inl (Undefined ''memcpy: null pointer'')"
  using assms(3,7,8)
proof (induction "max_line (storage t2) - i" arbitrary: i s)
  case 0
  have wf: "wf_but {} t2" using assms(1) by (simp add: wf_table_def)
  note m = wf_but_dest(1) [OF wf]
  have i: "i = max_line (storage t2)" using 0 by simp
  have "fileSize (storage t2) < SIZE_MOD" using wf_map_size [OF m] by simp
  then have "isActive (storage t') i = Inl (Undefined ''memcpy: null pointer'')"
    using fileSize_lines [OF m] i by (intro isActive_beyond) (simp_all add: assms(2))
  then show ?case using 0 i assms(6) by (subst scan.simps) (simp add: bnd_def row_matches_def)
next
  case (Suc k)
  have wf: "wf_but {} t2" using assms(1) by (simp add: wf_table_def)
  have i: "i < max_line (storage t2)" "k = max_line (storage t2) - Suc i" using Suc(2) by auto
  have st: "storage (etable s) = storage t2" "info (etable s) = info t2" by (simp_all add: Suc(3) assms(2))
  have m: "row_matches (etable s) cs i = Inr (row_passes t2 cs i)"
    using row_matches_cong [OF st] row_matches_wf [OF assms(1) i(1) assms(5)] by simp
  have nl: "i \<noteq> int64_last" by (rule line_not_last [OF wf_but_dest(1) [OF wf] i(1)])
  have b: "length (body (eresult s)) < cnt" using Suc(4) i(1) assms(6) by simp
  show ?case
  proof (cases "row_passes t2 cs i")
    case False
    then show ?thesis using m nl b i Suc(1) [OF i(2) Suc(3)] Suc(4) by (subst scan.simps) (simp add: bnd_def)
  next
    case True
    then obtain r where r: "rows t2 i = Some r" by (auto simp: row_passes_def split: option.splits)
    let ?s = "s\<lparr>eresult := add_rows [VInt64 (of_nat i) # map ((!) r) ids] (eresult s)\<rparr>"
    have "readRecord (etable s) i ids (columns (info (etable s))) = Inr (VInt64 (of_nat i) # map ((!) r) ids)"
      using readRecord_cong [OF st(1)] readRecord_row [OF wf r assms(4)] st(2) by simp
    then have "select_row ids i s = (Inr (), ?s)" by (simp add: select_row_def bnd_def push_body_apply)
    moreover have "fst (scan (select_row ids) cs (Suc (max_line (storage t2))) cnt (Suc i) ?s) =
        Inl (Undefined ''memcpy: null pointer'')"
      using Suc(3,4) i by (intro Suc(1)) (simp_all add: add_rows_def)
    ultimately show ?thesis using True m nl b i(1) by (subst scan.simps) (simp add: bnd_def)
  qed
qed

lemma crashing_select:
  assumes "wf_table t2" and "t' = t2\<lparr>freeId := Suc (max_line (storage t2)), activePlaces := a\<rparr>"
    and "max_line (storage t2) < a" and "table_at d name i t'" and "word_tok name"
  shows "fst (operator_execute (show_select [''*''] name [] None []) d) = Inl (Undefined ''memcpy: null pointer'')"
proof -
  let ?n = "length (columns (info t2))"
  let ?q = "new_SelectQuery\<lparr>tabble_name := name, s_columns_raw := [''*''], raw_conditions := [],
      limit := SIZE_MAX, oder_columns_raw := []\<rparr>"
  let ?q' = "?q\<lparr>table_ptr := Some i, s_columns_optimized := [0..<?n]\<rparr>"
  let ?s = "\<lparr>etable = t', eresult = new_Result\<lparr>isSucces := True\<rparr>\<rparr>"
  let ?s' = "?s\<lparr>eresult := select_header (info t2) [0..<?n] (eresult ?s)\<rparr>"
  have wf: "wf_but {} t2" using assms(1) by (simp add: wf_table_def)
  have inf: "info t' = info t2" by (simp add: assms(2))
  have p: "parse (show_select [''*''] name [] None []) = Inr (QSelect ?q)"
    using assms(5) select_text [of "[''*'']" name "[]" None "[]"] by (simp add: word_tok_def is_space_def)
  have opt: "optimize (info t') i (QSelect ?q) = Inr (QSelect ?q')"
    by (simp add: inf optimize_select_def query_conditions_def optimizeOrdering_def new_query_defs)
  have "max_line (storage t2) \<le> fileSize (storage t2)" by (simp add: max_line_def)
  moreover have "fileSize (storage t2) < 2 ^ 63" using wf_but_dest(1) [OF wf] by (simp add: wf_map_def)
  ultimately have "max_line (storage t2) < SIZE_MAX" by (simp add: SIZE_MAX_def)
  then have cnt: "max_line (storage t2) < scan_count t' (limit ?q')"
    using assms(3) by (simp add: scan_count_def getActivePlaces_def assms(2) new_query_defs)
  have "fst (scan (select_row [0..<?n]) [] (Suc (max_line (storage t2))) (scan_count t' (limit ?q')) 0 ?s') =
      Inl (Undefined ''memcpy: null pointer'')"
    using cnt by (intro scan_beyond [OF assms(1,2)]) (simp_all add: select_header_def new_Result_def)
  then have "fst (executeSelect ?q' ?s) = Inl (Undefined ''memcpy: null pointer'')"
    by (subst executeSelect_scan [of _ _ 0 "Suc (max_line (storage t2))" 0])
      (simp_all add: inf direct_def new_query_defs bnd_fst_Inl assms(2))
  then have "fst (execute (QSelect ?q') \<lparr>etable = t', eresult = new_Result\<rparr>) = Inl (Undefined ''memcpy: null pointer'')"
    by (simp add: bnd_Inr on_result_apply)
  then obtain s where "execute (QSelect ?q') \<lparr>etable = t', eresult = new_Result\<rparr> = (Inl (Undefined ''memcpy: null pointer''), s)"
    by (metis prod.collapse)
  moreover have "optimizing d (QSelect ?q) = Inr (QSelect ?q')"
    using optimizing_at [of d "QSelect ?q" i t'] assms(4) opt by (simp add: new_query_defs)
  ultimately show ?thesis
    using assms(4) p by (simp add: operator_execute_def bnd_Inr execute_query_def table_at_def new_query_defs del: execute.simps)
qed

text \<open>
  (C21) On the last line but one of the file the race ends the server: both insertions succeed, the counter is
  beyond the end of the file, and the next \<^verbatim>\<open>SELECT *\<close> on the table reads the flag of a line
  that does not exist through a null pointer.
\<close>

theorem racing_insertions_end_the_server:
  assumes "table_at d name i t" and "wf_table t" and "stack_freeId t = []" and "max_line (storage t) = freeId t + 1"
    and "insertable (info t) (job u)" and "insertable (info t) (job v)" and "u \<noteq> v" and "word_tok name"
  shows "\<exists>sched t' pc. run_schedule job sched (t, \<lambda>_. Begins) = (t', pc) \<and>
     pc u = Inserted (freeId t) \<and> pc v = Inserted (freeId t) \<and>
     fst (operator_execute (show_select [''*''] name [] None []) (set_table i t' d)) = Inl (Undefined ''memcpy: null pointer'')"
proof -
  have lt: "freeId t < max_line (storage t)" using assms(4) by simp
  obtain t2 a t' where t2: "wf_table t2" "freeId t + 1 < a" "max_line (storage t2) = max_line (storage t)"
    "t' = t2\<lparr>freeId := freeId t + 2, activePlaces := a\<rparr>"
    and run: "run_schedule job (lossy_schedule (length (columns (info t))) u v) (t, \<lambda>_. Begins) =
     (t', (\<lambda>_. Begins)(u := Inserted (freeId t), v := Inserted (freeId t)))"
    using lossy_result [where job = job, OF assms(2,3) lt assms(5-7)] by metis
  have "fst (operator_execute (show_select [''*''] name [] None []) (set_table i t' d)) = Inl (Undefined ''memcpy: null pointer'')"
  proof (rule crashing_select [OF t2(1) _ _ table_at_set_table(1) [OF assms(1)] assms(8)])
    show "t' = t2\<lparr>freeId := Suc (max_line (storage t2)), activePlaces := a\<rparr>" "max_line (storage t2) < a"
      using t2 assms(4) by simp_all
  qed
  then show ?thesis
    using run assms(7)
    by (intro exI [of _ "lossy_schedule (length (columns (info t))) u v"] exI [of _ t']
        exI [of _ "(\<lambda>_. Begins)(u := Inserted (freeId t), v := Inserted (freeId t))"]) simp
qed

section \<open>An erased row that is seen again\<close>

text \<open>
  (C24) An insertion makes its line active before it has written a field: in the first two steps after a
  deletion the table has all its old rows again, the deleted one among them.
\<close>

theorem deleted_row_reappears:
  assumes "wf_table t" and "rows t l = Some r" and "erase l t = (Inr l, t1)"
    and "run_schedule job [u, u] (t1, \<lambda>_. Begins) = (t2, pc)"
  shows "rows t1 l = None \<and> pc u = Writes l 0 \<and> rows t2 = rows t"
proof -
  have wf: "wf_but {} t" using assms(1) by (simp add: wf_table_def)
  note d = wf_but_dest [OF wf]
  have l: "l \<in> active (storage t)" "l < max_line (storage t)" using rows_Some(1,2) [OF wf assms(2)] .
  let ?m = "put_cell l 0 (enc_bool False) (storage t)"
  have t1: "t1 = t\<lparr>storage := ?m, stack_freeId := l # stack_freeId t, activePlaces := activePlaces t - 1\<rparr>"
    using erase_wf [OF assms(1) l(1)] assms(3) by simp
  have one: "0 + length (enc_bool b) \<le> lineLength (storage t)" for b using d(1) by (auto simp: bool1.width wf_map_def)
  have "activate l ?m = (Inr (), put_cell l 0 (enc_bool True) ?m)"
    unfolding activate_def using wf_put_cell [OF d(1) l(2) one] l(2) one [of True]
    by (intro core_write_wf) simp_all
  also have "put_cell l 0 (enc_bool True) ?m = put_cell l 0 (enc_bool True) (storage t)"
    by (rule put_cell_twice [OF d(1) l(2) one]) (simp add: bool1.width)
  also have "\<dots> = storage t"
    using l(1) by (intro put_cell_again [of _ _ _ 1]) (simp_all add: active_def bool1.width)
  finally have act: "activate l ?m = (Inr (), storage t)" .
  have run: "t2 = t\<lparr>activePlaces := activePlaces t - 1\<rparr>" "pc u = Writes l 0"
    using assms(4) by (auto simp: t1 thread_move_def after_def on_storage_def zoom_def act)
  have "rows t2 = rows t" by (rule rows_cong) (simp_all add: run(1))
  moreover have "rows t1 l = None"
    using erase_spec [OF assms(1) l(1)] assms(3) by auto
  ultimately show ?thesis using run(2) by simp
qed

section \<open>The sample table\<close>

lemma sample_almost_full:
  assumes "k \<le> 100"
  shows "\<exists>t. wf_table t \<and> info t = sample_info \<and> stack_freeId t = [] \<and> freeId t = k \<and> max_line (storage t) = 100"
  using assms
proof (induction k)
  case 0
  obtain t where t: "wf_table t" "info t = sample_info" "freeId t = 0" "storage t = blank_map 13 100000 100000"
    using sample_opens by blast
  then have "stack_freeId t = []" using wf_but_dest(8) [of "{}" t] by (simp add: wf_table_def)
  moreover have "max_line (storage t) = 100" by (simp add: t(4) blank_map_def max_line_def)
  ultimately show ?case using t by blast
next
  case (Suc k)
  then obtain t where t: "wf_table t" "info t = sample_info" "stack_freeId t = []" "freeId t = k" "max_line (storage t) = 100"
    by auto
  then show ?case
    using fresh_row_wf [of t "sample_jobs 0"] Suc.prems sample_insertable [of 0]
    by (intro exI [of _ "fresh_row (freeId t) (sample_jobs 0) t"]) simp
qed

theorem racing_insertions_lose_a_row_witness:
  "\<exists>t sched t' pc. wf_table t \<and> freeId t = 98 \<and> run_schedule sample_jobs sched (t, \<lambda>_. Begins) = (t', pc) \<and>
     pc 0 = Inserted 98 \<and> pc 1 = Inserted 98 \<and> rows t' = (rows t)(98 \<mapsto> [VString ''Bob'', VInt32 20])"
proof -
  obtain t where t: "wf_table t" "info t = sample_info" "stack_freeId t = []" "freeId t = 98" "max_line (storage t) = 100"
    using sample_almost_full [of 98] by auto
  have "insertable (info t) (sample_jobs 0)" "insertable (info t) (sample_jobs 1)"
    using sample_insertable t(2) by simp_all
  moreover have "map as_read (row_at sample_info (sample_jobs 1)) = [VString ''Bob'', VInt32 20]"
    by (simp add: row_at_def sample_jobs_def c_str_str_resize numeral_2_eq_2) (simp add: c_str_def)
  ultimately show ?thesis
    using racing_insertions_lose_a_row [OF t(1,3), of sample_jobs 0 1] t
    by (simp del: One_nat_def run_schedule_simps) metis
qed

theorem racing_insertions_end_the_server_witness:
  "\<exists>t sched t' pc. wf_table t \<and> run_schedule sample_jobs sched (t, \<lambda>_. Begins) = (t', pc) \<and>
     pc 0 = Inserted 99 \<and> pc 1 = Inserted 99 \<and>
     fst (operator_execute (show_select [''*''] ''people'' [] None []) (set_table 0 t' (sample_db t))) =
       Inl (Undefined ''memcpy: null pointer'')"
proof -
  obtain t where t: "wf_table t" "info t = sample_info" "stack_freeId t = []" "freeId t = 99" "max_line (storage t) = 100"
    using sample_almost_full [of 99] by auto
  have "insertable (info t) (sample_jobs 0)" "insertable (info t) (sample_jobs 1)"
    using sample_insertable t(2) by simp_all
  then show ?thesis
    using racing_insertions_end_the_server [OF conjunct2 [OF wf_sample_db [OF t(1)]] t(1,3), of sample_jobs 0 1] t
      sample_words(2)
    by (simp del: One_nat_def run_schedule_simps) metis
qed

theorem deleted_row_reappears_witness:
  "\<exists>t t1 t2 pc l. rows t l = Some [VString ''Ann'', VInt32 30] \<and> erase l t = (Inr l, t1) \<and> rows t1 l = None \<and>
     run_schedule sample_jobs [0, 0] (t1, \<lambda>_. Begins) = (t2, pc) \<and> rows t2 = rows t"
proof -
  obtain t i j where t: "wf_table t" "i \<noteq> j" "rows t = [i \<mapsto> [VString ''Ann'', VInt32 30], j \<mapsto> [VString ''Bob'', VInt32 20]]"
    using sample_filled by blast
  have r: "rows t i = Some [VString ''Ann'', VInt32 30]" using t(2,3) by simp
  then have "i \<in> active (storage t)" using rows_Some(1) t(1) by (metis wf_table_def)
  then obtain t1 where e: "erase i t = (Inr i, t1)" using erase_spec [OF t(1)] by blast
  obtain t2 pc where run: "run_schedule sample_jobs [0, 0] (t1, \<lambda>_. Begins) = (t2, pc)" by force
  show ?thesis using deleted_row_reappears [OF t(1) r e run] r e run by blast
qed

end
