(* ===== verification/Racing_Deletions.thy ===== *)
theory Racing_Deletions
  imports Racing_Insertions
begin

text \<open>
  Deletions by several threads. \<^verbatim>\<open>executeDelete\<close> of \<^verbatim>\<open>src/src/data_base/Executor.h\<close> looks
  whether a line is active and then calls \<^verbatim>\<open>Tabble::erase\<close>, which clears the flag, pushes the
  line and counts, all in separate steps.
\<close>

section \<open>The steps of a deletion\<close>

datatype deleting = Looks | Found | Flag_cleared | Pushed | Erased | Absent | Stopped exn

fun delete_move :: "nat \<Rightarrow> deleting \<Rightarrow> table \<Rightarrow> table \<times> deleting" where
  "delete_move l Looks t =
     (case isActive (storage t) l of Inl e \<Rightarrow> (t, Stopped e) | Inr a \<Rightarrow> (t, if a then Found else Absent))"
| "delete_move l Found t =
     (case on_storage (deactivate l) t of (Inl e, t') \<Rightarrow> (t', Stopped e) | (Inr _, t') \<Rightarrow> (t', Flag_cleared))"
| "delete_move l Flag_cleared t = (t\<lparr>stack_freeId := l # stack_freeId t\<rparr>, Pushed)"
| "delete_move l Pushed t = (t\<lparr>activePlaces := size_sub (activePlaces t) 1\<rparr>, Erased)"
| "delete_move l Erased t = (t, Erased)"
| "delete_move l Absent t = (t, Absent)"
| "delete_move l (Stopped e) t = (t, Stopped e)"

fun delete_moves :: "nat \<Rightarrow> nat \<Rightarrow> table \<times> deleting \<Rightarrow> table \<times> deleting" where
  "delete_moves 0 l s = s"
| "delete_moves (Suc k) l s = delete_moves k l (delete_move l (snd s) (fst s))"

text \<open>A thread alone does what the test and \<open>erase\<close> as a whole do.\<close>

lemma steps_make_a_deletion:
  "delete_moves 4 l (t, Looks) =
     (case bnd (reads (\<lambda>t. isActive (storage t) l)) (\<lambda>a. if a then bnd (erase l) (\<lambda>_. ret True) else ret False) t of
        (Inl e, t') \<Rightarrow> (t', Stopped e) | (Inr a, t') \<Rightarrow> (t', if a then Erased else Absent))"
  by (simp add: numeral_eq_Suc bnd_def erase_def pushInStack_def split: sum.splits prod.splits)

text \<open>Several threads on the same line.\<close>

definition delete_turn :: "nat \<Rightarrow> nat \<Rightarrow> table \<times> (nat \<Rightarrow> deleting) \<Rightarrow> table \<times> (nat \<Rightarrow> deleting)" where
  "delete_turn l u s = (case delete_move l (snd s u) (fst s) of (t', p) \<Rightarrow> (t', (snd s)(u := p)))"

definition run_deletions :: "nat \<Rightarrow> nat list \<Rightarrow> table \<times> (nat \<Rightarrow> deleting) \<Rightarrow> table \<times> (nat \<Rightarrow> deleting)" where
  "run_deletions l us s = fold (delete_turn l) us s"

section \<open>A line on the stack twice\<close>

lemma reused_row_wf:
  assumes "wf_table t" and "stack_freeId t = l # st" and "insertable (info t) vi"
    and "t' = t\<lparr>stack_freeId := st, storage := put_all l (row_writes (info t) vi) (storage t),
      activePlaces := size_add (activePlaces t) 1\<rparr>"
  shows "wf_table t'" and "rows t' = (rows t)(l \<mapsto> map as_read (row_at (info t) vi))" and "l \<in> active (storage t')"
proof -
  have wf: "wf_but {} t" using assms(1) by (simp add: wf_table_def)
  have al: "allocated t l (t\<lparr>stack_freeId := st\<rparr>)" by (rule allocate_reused [OF wf assms(2)])
  have "insertable (info (t\<lparr>stack_freeId := st\<rparr>)) vi" using assms(3) by simp
  note fill = filled_line_wf [OF al this, of t']
  show "wf_table t'" "l \<in> active (storage t')" using fill(1,3) by (simp_all add: assms(4))
  show "rows t' = (rows t)(l \<mapsto> map as_read (row_at (info t) vi))"
    using fill(2) al by (simp add: assms(4) allocated_def)
qed

text \<open>What two threads that have both found the row active make of the table.\<close>

lemma both_erase:
  assumes "wf_table t" and "l \<in> active (storage t)" and "u \<noteq> v"
  obtains pc where "run_deletions l ([u, v] @ [u, u, u] @ [v, v, v]) (t, \<lambda>_. Looks) =
     (t\<lparr>storage := put_cell l 0 (enc_bool False) (storage t), stack_freeId := l # l # stack_freeId t,
        activePlaces := size_sub (size_sub (activePlaces t) 1) 1\<rparr>, pc)" and "pc u = Erased" and "pc v = Erased"
proof -
  have wf: "wf_but {} t" using assms(1) by (simp add: wf_table_def)
  note d = wf_but_dest [OF wf]
  have l: "l < max_line (storage t)" by (rule active_bound [OF assms(2)])
  let ?m = "put_cell l 0 (enc_bool False) (storage t)"
  have one: "0 + length (enc_bool b) \<le> lineLength (storage t)" for b using d(1) by (auto simp: bool1.width wf_map_def)
  have a: "isActive (storage t) l = Inr True" using isActive_table [OF wf l] assms(2) by simp
  have c1: "deactivate l (storage t) = (Inr (), ?m)"
    unfolding deactivate_def by (rule core_write_wf(1) [OF d(1) l one])
  have "deactivate l ?m = (Inr (), put_cell l 0 (enc_bool False) ?m)"
    unfolding deactivate_def using wf_put_cell [OF d(1) l one] l one by (intro core_write_wf(1)) simp_all
  then have c2: "deactivate l ?m = (Inr (), ?m)" by (simp add: put_cell_twice [OF d(1) l one])
  have "run_deletions l ([u, v] @ [u, u, u] @ [v, v, v]) (t, \<lambda>_. Looks) =
     (t\<lparr>storage := ?m, stack_freeId := l # l # stack_freeId t, activePlaces := size_sub (size_sub (activePlaces t) 1) 1\<rparr>,
      (\<lambda>_. Looks)(u := Erased, v := Erased))"
    using assms(3) by (auto simp: run_deletions_def delete_turn_def a on_storage_def zoom_def c1 c2 fun_eq_iff)
  then show ?thesis by (rule that [of "(\<lambda>_. Looks)(u := Erased, v := Erased)"]) (use assms(3) in simp_all)
qed

text \<open>
  (C22) Two \<^verbatim>\<open>DELETE\<close> statements that have both found a row active both erase it, and its line is on
  the stack twice. From then on two insertions, made one after the other, get the same number, and the row of
  the second replaces that of the first.
\<close>

theorem row_deleted_twice_is_handed_out_twice:
  assumes "wf_table t" and "rows t l = Some r" and "u \<noteq> v" and "insertable (info t) vi" and "insertable (info t) wi"
  shows "\<exists>sched t1 t2 t3 pc. run_deletions l sched (t, \<lambda>_. Looks) = (t1, pc) \<and> pc u = Erased \<and> pc v = Erased \<and>
     rows t1 = (rows t)(l := None) \<and> insert_at vi t1 = (Inr l, t2) \<and> insert_at wi t2 = (Inr l, t3) \<and>
     rows t2 = (rows t)(l \<mapsto> map as_read (row_at (info t) vi)) \<and>
     rows t3 = (rows t)(l \<mapsto> map as_read (row_at (info t) wi))"
proof -
  have wf: "wf_but {} t" using assms(1) by (simp add: wf_table_def)
  have l: "l \<in> active (storage t)" "l < max_line (storage t)" using rows_Some(1,2) [OF wf assms(2)] .
  let ?m = "put_cell l 0 (enc_bool False) (storage t)"
  let ?t1 = "t\<lparr>storage := ?m, stack_freeId := l # l # stack_freeId t, activePlaces := size_sub (size_sub (activePlaces t) 1) 1\<rparr>"
  obtain pc where run: "run_deletions l ([u, v] @ [u, u, u] @ [v, v, v]) (t, \<lambda>_. Looks) = (?t1, pc)"
    "pc u = Erased" "pc v = Erased"
    using both_erase [OF assms(1) l(1) assms(3)] .
  obtain e where e: "erase l t = (Inr l, e)" "wf_table e" "rows e = (rows t)(l := None)" "info e = info t"
    using erase_spec [OF assms(1) l(1)] by blast
  have est: "storage e = ?m" "stack_freeId e = l # stack_freeId t"
    using erase_wf [OF assms(1) l(1)] e(1) by auto
  have wfe: "wf_but {} e" using e(2) by (simp add: wf_table_def)
  note d = wf_but_dest(1-3) [OF wfe, unfolded est e(4)]
  have r1: "rows ?t1 = rows e" by (rule rows_cong) (simp_all add: est e(4))
  let ?m2 = "put_all l (row_writes (info t) vi) ?m"
  let ?t2 = "?t1\<lparr>stack_freeId := l # stack_freeId t, storage := ?m2, activePlaces := size_add (activePlaces ?t1) 1\<rparr>"
  have i1: "insert_at vi ?t1 = (Inr l, ?t2)"
    using insert_reused [of ?t1 l "l # stack_freeId t" vi] d l(2) assms(4) by simp
  let ?f = "e\<lparr>stack_freeId := stack_freeId t, storage := put_all l (row_writes (info e) vi) (storage e),
      activePlaces := size_add (activePlaces e) 1\<rparr>"
  have ine: "insertable (info e) vi" using assms(4) e(4) by simp
  note f = reused_row_wf [OF e(2) est(2) ine refl]
  have sf: "storage ?f = ?m2" "info ?f = info t" by (simp_all add: est e(4))
  have r2: "rows ?t2 = rows ?f" by (rule rows_cong) (simp_all add: est e(4))
  have wff: "wf_but {} ?f" using f(1) by (simp add: wf_table_def)
  note df = wf_but_dest(1-3) [OF wff, unfolded sf]
  let ?t3 = "?t2\<lparr>stack_freeId := stack_freeId t, storage := put_all l (row_writes (info t) wi) ?m2,
      activePlaces := size_add (activePlaces ?t2) 1\<rparr>"
  have i2: "insert_at wi ?t2 = (Inr l, ?t3)"
    using insert_reused [of ?t2 l "stack_freeId t" wi] df l(2) assms(5) by simp
  have inf: "insertable (info ?f) wi" using assms(5) sf(2) by simp
  let ?g = "?f\<lparr>storage := put_all l (row_writes (info ?f) wi) (storage ?f)\<rparr>"
  note g = overwritten_row(2) [OF f(1,3) inf refl]
  have r3: "rows ?t3 = rows ?g" by (rule rows_cong) (simp_all add: est e(4))
  show ?thesis
    using run i1 i2 r1 r2 r3 f(2) g e(3,4)
    by (intro exI [of _ "[u, v] @ [u, u, u] @ [v, v, v]"] exI [of _ ?t1] exI [of _ ?t2] exI [of _ ?t3] exI [of _ pc]) simp
qed

theorem row_deleted_twice_is_handed_out_twice_witness:
  "\<exists>t l sched t1 t2 t3 pc. rows t l = Some [VString ''Ann'', VInt32 30] \<and>
     run_deletions l sched (t, \<lambda>_. Looks) = (t1, pc) \<and> pc 0 = Erased \<and> pc 1 = Erased \<and>
     insert_at (sample_jobs 0) t1 = (Inr l, t2) \<and> insert_at (sample_jobs 1) t2 = (Inr l, t3) \<and>
     rows t3 = (rows t)(l \<mapsto> map as_read (row_at sample_info (sample_jobs 1)))"
proof -
  obtain t i j where t: "wf_table t" "info t = sample_info" "i \<noteq> j"
    "rows t = [i \<mapsto> [VString ''Ann'', VInt32 30], j \<mapsto> [VString ''Bob'', VInt32 20]]"
    using sample_filled by blast
  have r: "rows t i = Some [VString ''Ann'', VInt32 30]" using t(3,4) by simp
  have "insertable (info t) (sample_jobs 0)" "insertable (info t) (sample_jobs 1)"
    using sample_insertable t(2) by simp_all
  from row_deleted_twice_is_handed_out_twice [OF t(1) r, of 0 1, OF _ this] show ?thesis
    using r t(2) by (metis zero_neq_one)
qed

end
