(* ===== verification/Racing_Updates.thy ===== *)
theory Racing_Updates
  imports Racing_Insertions
begin

text \<open>
  Updates by several threads: \<^verbatim>\<open>Tabble::update\<close> of \<^verbatim>\<open>src/src/files/Tabble.h\<close> writes
  field by field, each under the lock of the stripe, and holds no lock on the row. Threads on different rows do
  not notice each other; threads on one row mix their values.
\<close>

section \<open>The steps of an update\<close>

datatype updating = Field nat | Updated | Broken exn

fun update_move :: "variant_types list \<Rightarrow> Column list \<Rightarrow> nat \<Rightarrow> updating \<Rightarrow> table \<Rightarrow> table \<times> updating" where
  "update_move values cols cur (Field i) t =
     (if i < length cols
      then if i < length values
           then (case on_storage (writeInfo cur (offset (cols ! i)) (values ! i)) t of
                   (Inl e, t') \<Rightarrow> (t', Broken e) | (Inr _, t') \<Rightarrow> (t', Field (Suc i)))
           else (t, Broken (Undefined ''values: index out of range''))
      else (t, Updated))"
| "update_move values cols cur Updated t = (t, Updated)"
| "update_move values cols cur (Broken e) t = (t, Broken e)"

fun update_moves :: "nat \<Rightarrow> variant_types list \<Rightarrow> Column list \<Rightarrow> nat \<Rightarrow> table \<times> updating \<Rightarrow> table \<times> updating" where
  "update_moves 0 values cols cur s = s"
| "update_moves (Suc k) values cols cur s = update_moves k values cols cur (update_move values cols cur (snd s) (fst s))"

lemma update_moves_over: "p = Updated \<or> p = Broken e \<Longrightarrow> update_moves k values cols cur (t, p) = (t, p)"
  by (induction k) auto

text \<open>A thread alone does what \<^verbatim>\<open>update\<close> as a whole does.\<close>

lemma steps_make_an_update:
  assumes "i \<le> length cols" and "length cols - i < k"
  shows "update_moves k values cols cur (t, Field i) =
     (case update_loop values (drop i cols) cur i t of (Inl e, t') \<Rightarrow> (t', Broken e) | (Inr _, t') \<Rightarrow> (t', Updated))"
  using assms
proof (induction k arbitrary: i t)
  case (Suc k)
  show ?case
  proof (cases "i < length cols")
    case False
    then show ?thesis using Suc.prems by (simp add: update_moves_over)
  next
    case True
    then have d: "drop i cols = cols ! i # drop (Suc i) cols" by (simp add: Cons_nth_drop_Suc)
    have IH: "update_moves k values cols cur (t', Field (Suc i)) =
      (case update_loop values (drop (Suc i) cols) cur (Suc i) t' of (Inl e, t') \<Rightarrow> (t', Broken e) | (Inr _, t') \<Rightarrow> (t', Updated))" for t'
      by (rule Suc.IH) (use Suc.prems True in auto)
    show ?thesis
    proof (cases "i < length values")
      case False
      then show ?thesis using True by (simp add: d update_moves_over)
    next
      case iv: True
      obtain r t' where "on_storage (writeInfo cur (offset (cols ! i)) (values ! i)) t = (r, t')" by force
      then show ?thesis
        using True iv IH [of t'] by (cases r) (simp_all add: d update_moves_over bnd_def)
    qed
  qed
qed simp

section \<open>Several threads\<close>

text \<open>Thread \<open>u\<close> writes the row \<open>vals u\<close> into line \<open>ln u\<close>; a schedule lists whose turn it is.\<close>

definition update_turn ::
    "('u \<Rightarrow> variant_types list) \<Rightarrow> ('u \<Rightarrow> nat) \<Rightarrow> 'u \<Rightarrow> table \<times> ('u \<Rightarrow> updating) \<Rightarrow> table \<times> ('u \<Rightarrow> updating)" where
  "update_turn vals ln u s =
     (case update_move (vals u) (columns (info (fst s))) (ln u) (snd s u) (fst s) of (t', p) \<Rightarrow> (t', (snd s)(u := p)))"

definition run_updates ::
    "('u \<Rightarrow> variant_types list) \<Rightarrow> ('u \<Rightarrow> nat) \<Rightarrow> 'u list \<Rightarrow> table \<times> ('u \<Rightarrow> updating) \<Rightarrow> table \<times> ('u \<Rightarrow> updating)" where
  "run_updates vals ln us s = fold (update_turn vals ln) us s"

lemma run_updates_append [simp]: "run_updates vals ln (us @ vs) s = run_updates vals ln vs (run_updates vals ln us s)"
  by (simp add: run_updates_def)

definition field_writes :: "Column list \<Rightarrow> variant_types list \<Rightarrow> (nat \<times> char list) list" where
  "field_writes cs vs = map (\<lambda>(o1, v). (o1, value_bytes v)) (fields_of cs vs)"

lemma nth_field_writes:
  "length vs = length cs \<Longrightarrow> i < length cs \<Longrightarrow> field_writes cs vs ! i = (offset (cs ! i), value_bytes (vs ! i))"
  by (simp add: field_writes_def fields_of_def)

lemma length_field_writes: "length vs = length cs \<Longrightarrow> length (field_writes cs vs) = length cs"
  by (simp add: field_writes_def fields_of_def)

lemma field_turn:
  assumes "wf_map (storage (fst s))" and "ln u < max_line (storage (fst s))" and "snd s u = Field i"
    and "i < length (columns (info (fst s)))" and "i < length (vals u)"
    and "offset (columns (info (fst s)) ! i) + length (value_bytes (vals u ! i)) \<le> lineLength (storage (fst s))"
  shows "update_turn vals ln u s =
     ((fst s)\<lparr>storage := put_cell (ln u) (offset (columns (info (fst s)) ! i)) (value_bytes (vals u ! i)) (storage (fst s))\<rparr>,
      (snd s)(u := Field (Suc i)))"
  using assms writeInfo_wf [OF assms(1,2,6)] by (simp add: update_turn_def on_storage_apply)

section \<open>Threads on different rows\<close>

fun fields_done :: "nat \<Rightarrow> updating \<Rightarrow> nat" where
  "fields_done n (Field i) = i"
| "fields_done n Updated = n + 1"
| "fields_done n (Broken e) = 0"

fun going :: "nat \<Rightarrow> updating \<Rightarrow> bool" where
  "going n (Field i) = (i \<le> n)"
| "going n Updated = True"
| "going n (Broken e) = False"

definition each_so_far :: "('u \<Rightarrow> variant_types list) \<Rightarrow> ('u \<Rightarrow> nat) \<Rightarrow> table \<Rightarrow> 'u list \<Rightarrow> table \<times> ('u \<Rightarrow> updating) \<Rightarrow> bool" where
  "each_so_far vals ln t0 us s \<longleftrightarrow>
     (\<forall>u\<in>set us. going (length (columns (info t0))) (snd s u)) \<and>
     fst s = t0\<lparr>storage := in_lines ln (\<lambda>u. take (fields_done (length (columns (info t0))) (snd s u))
        (field_writes (columns (info t0)) (vals u))) us (storage t0)\<rparr>"

text \<open>The threads of the theorem: each has a line of its own and values that fit the columns.\<close>

definition apart_updates :: "('u \<Rightarrow> variant_types list) \<Rightarrow> ('u \<Rightarrow> nat) \<Rightarrow> table \<Rightarrow> 'u list \<Rightarrow> bool" where
  "apart_updates vals ln t us \<longleftrightarrow> distinct (map ln us) \<and>
     (\<forall>u\<in>set us. rows t (ln u) \<noteq> None \<and> list_all2 fits_within (columns (info t)) (vals u))"

lemma apart_updates_writable:
  assumes "wf_table t" and "apart_updates vals ln t us" and "u \<in> set us"
  shows "ln u < max_line (storage t)" and "within_line (lineLength (storage t)) (field_writes (columns (info t)) (vals u))"
    and "length (vals u) = length (columns (info t))" and "mm.inside (storage t) (fields_of (columns (info t)) (vals u))"
proof -
  have wf: "wf_but {} t" using assms(1) by (simp add: wf_table_def)
  note d = wf_but_dest [OF wf]
  have u: "rows t (ln u) \<noteq> None" "list_all2 fits_within (columns (info t)) (vals u)"
    using assms(2,3) by (auto simp: apart_updates_def)
  show "ln u < max_line (storage t)" using u(1) rows_Some(2) [OF wf] by auto
  show ins: "mm.inside (storage t) (fields_of (columns (info t)) (vals u))"
    by (rule fields_within(1) [OF d(1-3) order_refl columns_distinct [OF d(2)] u(2)])
  then show "within_line (lineLength (storage t)) (field_writes (columns (info t)) (vals u))"
    by (simp add: inside_within field_writes_def)
  show "length (vals u) = length (columns (info t))" using u(2) by (simp add: list_all2_lengthD)
qed

text \<open>What a step finds.\<close>

lemma each_so_far_dest:
  assumes "wf_table t0" and "apart_updates vals ln t0 us" and "each_so_far vals ln t0 us s" and "n = length (columns (info t0))"
  shows "wf_map (storage (fst s))" and "max_line (storage (fst s)) = max_line (storage t0)"
    and "lineLength (storage (fst s)) = lineLength (storage t0)" and "info (fst s) = info t0"
    and "u \<in> set us \<Longrightarrow> going n (snd s u)"
proof -
  have "wf_map (storage t0)" using assms(1) wf_but_dest(1) by (simp add: wf_table_def)
  then show "wf_map (storage (fst s))"
    using assms(3) apart_updates_writable(1,2) [OF assms(1,2)]
    by (auto simp: each_so_far_def writable_def within_line_take intro!: wf_in_lines)
  show "max_line (storage (fst s)) = max_line (storage t0)" "lineLength (storage (fst s)) = lineLength (storage t0)"
    "info (fst s) = info t0" "u \<in> set us \<Longrightarrow> going n (snd s u)"
    using assms(3,4) by (simp_all add: each_so_far_def)
qed

text \<open>A step that writes the next field.\<close>

lemma each_so_far_field:
  assumes "wf_table t0" and "apart_updates vals ln t0 us" and "each_so_far vals ln t0 us s" and "u \<in> set us"
    and "snd s u = Field i" and "i < length (columns (info t0))"
  shows "each_so_far vals ln t0 us (update_turn vals ln u s)"
    and "snd (update_turn vals ln u s) = (snd s)(u := Field (Suc i))"
proof -
  let ?cs = "columns (info t0)" and ?m0 = "storage t0" and ?pc = "(snd s)(u := Field (Suc i))"
  let ?ws = "\<lambda>u. field_writes ?cs (vals u)" and ?x = "(offset (columns (info t0) ! i), value_bytes (vals u ! i))"
  let ?f = "\<lambda>pc u. take (fields_done (length ?cs) (pc u)) (?ws u)"
  note fit = apart_updates_writable [OF assms(1,2)] and fs = each_so_far_dest [OF assms(1-3) refl]
  have wm: "wf_map ?m0" using assms(1) wf_but_dest(1) by (simp add: wf_table_def)
  have wr: "writable ln (?f (snd s)) us ?m0" using fit(1,2) by (simp add: writable_def within_line_take)
  have nth: "?ws u ! i = ?x" using nth_field_writes [OF fit(3) [OF assms(4)] assms(6)] .
  have li: "i < length (?ws u)" using length_field_writes [OF fit(3) [OF assms(4)]] assms(6) by simp
  have "?x \<in> set (?ws u)" using nth li by (metis nth_mem)
  then have x: "within_line (lineLength ?m0) [?x]" using fit(2) [OF assms(4)] by (auto simp: within_line_def)
  have turn: "update_turn vals ln u s = ((fst s)\<lparr>storage := put_all (ln u) [?x] (storage (fst s))\<rparr>, ?pc)"
    using field_turn [of s ln u i vals] fs(1-4) assms(5,6) x fit(1,3) [OF assms(4)] by simp
  have "put_all (ln u) [?x] (in_lines ln (?f (snd s)) us ?m0) = in_lines ln ((?f (snd s))(u := ?f (snd s) u @ [?x])) us ?m0"
    using in_lines_advance [OF wm wr _ assms(4) x] assms(2) by (simp add: apart_updates_def)
  also have "\<dots> = in_lines ln (?f ?pc) us ?m0"
    using assms(5) nth li by (intro in_lines_cong) (simp add: take_Suc_conv_app_nth)
  finally show "each_so_far vals ln t0 us (update_turn vals ln u s)"
    unfolding turn using assms(3,6) by (simp add: each_so_far_def del: put_all_simps)
  show "snd (update_turn vals ln u s) = ?pc" by (simp add: turn)
qed

lemma each_so_far_step:
  assumes "wf_table t0" and "apart_updates vals ln t0 us" and "each_so_far vals ln t0 us s" and "u \<in> set us"
    and "n = length (columns (info t0))"
  obtains p' where "each_so_far vals ln t0 us (update_turn vals ln u s)"
    and "snd (update_turn vals ln u s) = (snd s)(u := p')" and "fields_done n p' = min (Suc (fields_done n (snd s u))) (n + 1)"
proof (cases "snd s u")
  case (Field i)
  note fs = each_so_far_dest [OF assms(1-3,5)]
  show ?thesis
  proof (cases "i < n")
    case True
    then show ?thesis
      using each_so_far_field [OF assms(1-4) Field] assms(5) Field by (intro that [of "Field (Suc i)"]) simp_all
  next
    case False
    then have i: "i = n" using fs(5) [OF assms(4)] Field by simp
    have turn: "update_turn vals ln u s = (fst s, (snd s)(u := Updated))"
      using Field i assms(5) by (simp add: update_turn_def fs(4))
    let ?f = "\<lambda>pc u. take (fields_done n (pc u)) (field_writes (columns (info t0)) (vals u))"
    have "in_lines ln (?f ((snd s)(u := Updated))) us (storage t0) = in_lines ln (?f (snd s)) us (storage t0)"
      using Field i length_field_writes [OF apart_updates_writable(3) [OF assms(1,2,4)]] assms(5)
      by (intro in_lines_cong) simp
    then have "each_so_far vals ln t0 us (update_turn vals ln u s)"
      using assms(3,5) by (simp add: each_so_far_def turn)
    then show ?thesis by (rule that [of Updated]) (use turn Field i in simp_all)
  qed
next
  case Updated
  then have turn: "update_turn vals ln u s = s" by (simp add: update_turn_def fun_upd_idem)
  show ?thesis by (rule that [of Updated]) (use turn assms(3) Updated in \<open>simp_all add: fun_upd_idem\<close>)
next
  case (Broken e)
  then show ?thesis using each_so_far_dest(5) [OF assms(1-3,5,4)] by simp
qed

lemma each_so_far_ever:
  assumes "wf_table t0" and "apart_updates vals ln t0 us" and "each_so_far vals ln t0 us s"
    and "set sched \<subseteq> set us" and "n = length (columns (info t0))"
  shows "each_so_far vals ln t0 us (run_updates vals ln sched s) \<and>
     (\<forall>u\<in>set us. fields_done n (snd (run_updates vals ln sched s) u) = min (fields_done n (snd s u) + count_list sched u) (n + 1))"
  using assms(3,4)
proof (induction sched arbitrary: s)
  case Nil
  have "fields_done n (snd s u) \<le> n + 1" if "u \<in> set us" for u
    using each_so_far_dest(5) [OF assms(1,2) Nil.prems(1) assms(5) that] by (cases "snd s u") simp_all
  then show ?case using Nil.prems(1) by (auto simp: run_updates_def min_def)
next
  case (Cons v sched)
  have v: "v \<in> set us" "set sched \<subseteq> set us" using Cons.prems(2) by auto
  obtain p' where p': "each_so_far vals ln t0 us (update_turn vals ln v s)"
    "snd (update_turn vals ln v s) = (snd s)(v := p')" "fields_done n p' = min (Suc (fields_done n (snd s v))) (n + 1)"
    using each_so_far_step [OF assms(1,2) Cons.prems(1) v(1) assms(5)] .
  have "run_updates vals ln (v # sched) s = run_updates vals ln sched (update_turn vals ln v s)" by (simp add: run_updates_def)
  then show ?case using Cons.IH [OF p'(1) v(2)] p'(2,3) by auto
qed

text \<open>The updates one after the other.\<close>

lemma updates_in_turn:
  assumes "wf_map (storage t)" and "columns (info t) = cs"
    and "\<forall>u\<in>set us. ln u < max_line (storage t) \<and> length (vals u) = length cs \<and> mm.inside (storage t) (fields_of cs (vals u))"
  shows "seq_all (map (\<lambda>u. update (vals u) cs (ln u) 0) us) t =
     (Inr (), t\<lparr>storage := in_lines ln (\<lambda>u. field_writes cs (vals u)) us (storage t)\<rparr>)"
  using assms
proof (induction us arbitrary: t)
  case (Cons u us)
  let ?m = "put_all (ln u) (field_writes cs (vals u)) (storage t)"
  have l: "ln u < max_line (storage t)" "length (vals u) = length cs" "mm.inside (storage t) (fields_of cs (vals u))"
    using Cons.prems(3) by simp_all
  have "update (vals u) cs (ln u) 0 t = (Inr (), t\<lparr>storage := ?m\<rparr>)"
    using update_loop_fields [OF Cons.prems(1) l(1), of 0 cs "vals u"] l(2,3) store_fields_puts [OF Cons.prems(1) l(1,3)]
    by (simp add: update_def field_writes_def)
  moreover have "wf_map ?m"
    using Cons.prems(1) l by (intro wf_put_all) (simp_all add: inside_within [symmetric] field_writes_def)
  moreover have "\<forall>u\<in>set us. mm.inside ?m (fields_of cs (vals u))"
    using Cons.prems(3) by (simp add: inside_within)
  ultimately show ?case using Cons.IH [of "t\<lparr>storage := ?m\<rparr>"] Cons.prems by (simp add: bnd_Inr)
qed simp

text \<open>
  (C12) Updates of different rows by several threads, each getting enough turns: whatever the schedule, all
  succeed, and the table is the one that the updates leave one after the other, in whichever order they
  are listed.
\<close>

theorem updates_of_different_rows_are_serial:
  assumes "wf_table t" and "apart_updates vals ln t us" and "set sched \<subseteq> set us"
    and "\<forall>u\<in>set us. length (columns (info t)) + 1 \<le> count_list sched u"
    and "run_updates vals ln sched (t, \<lambda>_. Field 0) = (t', pc)"
  shows "(\<forall>u\<in>set us. pc u = Updated) \<and>
     seq_all (map (\<lambda>u. update (vals u) (columns (info t)) (ln u) 0) us) t = (Inr (), t')"
proof -
  let ?cs = "columns (info t)" let ?n = "length ?cs"
  note fit = apart_updates_writable [OF assms(1,2)]
  have wm: "wf_map (storage t)" using assms(1) wf_but_dest(1) by (simp add: wf_table_def)
  have "in_lines ln (\<lambda>u. []) us m = m" for m by (induction us) simp_all
  then have "each_so_far vals ln t us (t, \<lambda>_. Field 0)" by (simp add: each_so_far_def)
  then have e: "each_so_far vals ln t us (t', pc)"
    "\<forall>u\<in>set us. fields_done ?n (pc u) = min (count_list sched u) (?n + 1)"
    using each_so_far_ever [OF assms(1,2) _ assms(3) refl, of "(t, \<lambda>_. Field 0)"] assms(5) by auto
  have pc: "pc u = Updated" if "u \<in> set us" for u
  proof -
    have "going ?n (pc u)" using e(1) that by (simp add: each_so_far_def)
    moreover have "fields_done ?n (pc u) = ?n + 1" using e(2) assms(4) that by (metis min.absorb2)
    ultimately show ?thesis by (cases "pc u") simp_all
  qed
  have "in_lines ln (\<lambda>u. take (fields_done ?n (pc u)) (field_writes ?cs (vals u))) us (storage t) =
      in_lines ln (\<lambda>u. field_writes ?cs (vals u)) us (storage t)"
    using pc length_field_writes [OF fit(3)] by (intro in_lines_cong) simp
  then have "t' = t\<lparr>storage := in_lines ln (\<lambda>u. field_writes ?cs (vals u)) us (storage t)\<rparr>"
    using e(1) by (simp add: each_so_far_def)
  then show ?thesis using pc updates_in_turn [OF wm refl, of us ln vals] fit by simp
qed

theorem updates_of_different_rows_are_serial_witness:
  "\<exists>t ln t' pc. wf_table t \<and> inj_on ln {0, 1 :: nat} \<and>
     run_updates (\<lambda>u. [VString ''Eve'', VInt32 40]) ln [0, 1, 1, 0, 1, 0] (t, \<lambda>_. Field 0) = (t', pc) \<and> pc 0 = Updated \<and> pc 1 = Updated \<and>
     seq_all [update [VString ''Eve'', VInt32 40] (columns sample_info) (ln 0) 0,
              update [VString ''Eve'', VInt32 40] (columns sample_info) (ln 1) 0] t = (Inr (), t')"
proof -
  obtain t i j where t: "wf_table t" "info t = sample_info" "i \<noteq> j"
    "rows t = [i \<mapsto> [VString ''Ann'', VInt32 30], j \<mapsto> [VString ''Bob'', VInt32 20]]"
    using sample_filled by blast
  let ?vals = "\<lambda>u :: nat. [VString ''Eve'', VInt32 40]" and ?ln = "\<lambda>u :: nat. if u = 0 then i else j"
  have ap: "apart_updates ?vals ?ln t [0, 1]"
    using t by (simp add: apart_updates_def fits_within_def int32.width)
  have turns: "set [0, 1, 1, 0, 1, 0 :: nat] \<subseteq> set [0, 1]"
    "\<forall>u\<in>set [0, 1 :: nat]. length (columns (info t)) + 1 \<le> count_list [0, 1, 1, 0, 1, 0] u"
    by (simp_all add: t(2))
  obtain t' pc where run: "run_updates ?vals ?ln [0, 1, 1, 0, 1, 0] (t, \<lambda>_. Field 0) = (t', pc)" by force
  have "inj_on ?ln {0, 1}" using t(3) by (simp add: inj_on_def)
  then show ?thesis
    using updates_of_different_rows_are_serial [OF t(1) ap turns run] run t(1,2)
    by (intro exI [of _ t] exI [of _ ?ln] exI [of _ t'] exI [of _ pc]) simp
qed

section \<open>Two threads on one row\<close>

text \<open>Thread \<open>True\<close> and thread \<open>False\<close> write a row each. The row whose field \<open>i\<close> comes from thread \<open>who i\<close>.\<close>

definition mixed_row :: "(bool \<Rightarrow> variant_types list) \<Rightarrow> (nat \<Rightarrow> bool) \<Rightarrow> nat \<Rightarrow> variant_types list" where
  "mixed_row vals who n = map (\<lambda>i. vals (who i) ! i) [0..<n]"

text \<open>For every field, first the other thread and then the one whose value is to stay.\<close>

definition mixing_schedule :: "(nat \<Rightarrow> bool) \<Rightarrow> nat \<Rightarrow> bool list" where
  "mixing_schedule who n = concat (map (\<lambda>i. [\<not> who i, who i]) [0..<n])"

lemma mixing_run:
  assumes "wf_map (storage t)" and "l < max_line (storage t)" and "k \<le> length (columns (info t))"
    and "\<forall>u. list_all2 fits (columns (info t)) (vals u)"
    and "\<forall>c\<in>set (columns (info t)). offset c + col_size c \<le> lineLength (storage t)"
  shows "run_updates vals (\<lambda>_. l) (mixing_schedule who k) (t, \<lambda>_. Field 0) =
     (t\<lparr>storage := put_all l (field_writes (take k (columns (info t))) (mixed_row vals who k)) (storage t)\<rparr>, \<lambda>_. Field k)"
  using assms(3)
proof (induction k)
  case 0
  then show ?case by (simp add: run_updates_def mixing_schedule_def field_writes_def fields_of_def)
next
  case (Suc k)
  let ?cs = "columns (info t)" and ?w = "who k"
  let ?ws = "field_writes (take k ?cs) (mixed_row vals who k)" and ?c = "?cs ! k"
  let ?m = "put_all l ?ws (storage t)" and ?b = "\<lambda>u. value_bytes (vals u ! k)"
  have k: "k < length ?cs" using Suc.prems by simp
  have len: "length (vals u) = length ?cs" and sz: "length (?b u) = col_size ?c" for u
    using assms(4) k list_all2_lengthD [of fits ?cs "vals u"] list_all2_nthD [of fits ?cs "vals u" k] by (auto simp: fits_def)
  have o: "offset ?c + length (?b u) \<le> lineLength (storage t)" for u using assms(5) k sz by simp
  have "off + length bs \<le> lineLength (storage t)" if mem: "(off, bs) \<in> set ?ws" for off bs
  proof -
    obtain o1 v where v: "(o1, v) \<in> set (fields_of (take k ?cs) (mixed_row vals who k))" "off = o1" "bs = value_bytes v"
      using mem by (auto simp: field_writes_def)
    then obtain j where j: "j < k" "o1 = offset (?cs ! j)" "v = vals (who j) ! j"
      using k by (auto elim!: fields_of_member simp: mixed_row_def)
    then have "fits (?cs ! j) v" using assms(4) k by (simp add: list_all2_nthD)
    then show ?thesis using assms(5) j k v by (simp add: fits_def)
  qed
  then have w: "within_line (lineLength (storage t)) ?ws" by (auto simp: within_line_def)
  have m: "wf_map ?m" "l < max_line ?m" using wf_put_all [OF assms(1,2) w] assms(2) by simp_all
  let ?t = "t\<lparr>storage := ?m\<rparr>" let ?m1 = "put_cell l (offset ?c) (?b (\<not> ?w)) ?m"
  have s1: "update_turn vals (\<lambda>_. l) (\<not> ?w) (?t, \<lambda>_. Field k) = (?t\<lparr>storage := ?m1\<rparr>, (\<lambda>_. Field k)(\<not> ?w := Field (Suc k)))"
    using field_turn [of "(?t, \<lambda>_. Field k)" "\<lambda>_. l" "\<not> ?w" k vals] m k len o by simp
  have m1: "wf_map ?m1" using m o by (intro wf_put_cell) simp_all
  have "update_turn vals (\<lambda>_. l) ?w (?t\<lparr>storage := ?m1\<rparr>, (\<lambda>_. Field k)(\<not> ?w := Field (Suc k))) =
      (?t\<lparr>storage := put_cell l (offset ?c) (?b ?w) ?m1\<rparr>, ((\<lambda>_. Field k)(\<not> ?w := Field (Suc k)))(?w := Field (Suc k)))"
    using field_turn [of "(?t\<lparr>storage := ?m1\<rparr>, (\<lambda>_. Field k)(\<not> ?w := Field (Suc k)))" "\<lambda>_. l" ?w k vals] m m1 k len o by simp
  moreover have "put_cell l (offset ?c) (?b ?w) ?m1 = put_cell l (offset ?c) (?b ?w) ?m"
    using m o sz by (intro put_cell_twice) simp_all
  moreover have "((\<lambda>_. Field k)(\<not> ?w := Field (Suc k)))(?w := Field (Suc k)) = (\<lambda>_. Field (Suc k))"
    by (auto simp: fun_eq_iff)
  moreover have "field_writes (take (Suc k) ?cs) (mixed_row vals who (Suc k)) = ?ws @ [(offset ?c, ?b ?w)]"
    using k by (simp add: field_writes_def fields_of_def mixed_row_def take_Suc_conv_app_nth)
  ultimately show ?case
    using Suc s1 by (simp add: mixing_schedule_def) (simp add: run_updates_def)
qed

text \<open>
  (C23) Two \<^verbatim>\<open>UPDATE\<close>s of all columns of a row, run at the same time, can leave any mixture of their
  values: for every choice of a thread for every column there is a schedule after which both have
  finished and the row has the value of the chosen thread in each column.
\<close>

theorem updates_of_a_row_mix:
  assumes "wf_table t" and "rows t l = Some r" and "\<forall>u. list_all2 fits (columns (info t)) (vals u)"
  shows "\<exists>sched t' pc. run_updates vals (\<lambda>_. l) sched (t, \<lambda>_. Field 0) = (t', pc) \<and> (\<forall>u. pc u = Updated) \<and> wf_table t' \<and>
     rows t' = (rows t)(l \<mapsto> map as_read (mixed_row vals who (length (columns (info t)))))"
proof -
  let ?cs = "columns (info t)" let ?n = "length ?cs" let ?vs = "mixed_row vals who ?n"
  have wf: "wf_but {} t" using assms(1) by (simp add: wf_table_def)
  note d = wf_but_dest [OF wf]
  have l: "l \<in> active (storage t)" "l < max_line (storage t)" using rows_Some(1,2) [OF wf assms(2)] .
  have cols: "\<forall>c\<in>set ?cs. offset c + col_size c \<le> lineLength (storage t)"
    using wf_info_column [OF d(2)] d(3) by simp
  let ?t = "t\<lparr>storage := put_all l (field_writes ?cs ?vs) (storage t)\<rparr>"
  have run: "run_updates vals (\<lambda>_. l) (mixing_schedule who ?n) (t, \<lambda>_. Field 0) = (?t, \<lambda>_. Field ?n)"
    using mixing_run [OF d(1) l(2) order_refl assms(3) cols] by simp
  have "run_updates vals (\<lambda>_. l) [True, False] (?t, \<lambda>_. Field ?n) = (?t, \<lambda>_. Updated)"
    by (auto simp: run_updates_def update_turn_def fun_eq_iff)
  then have fin: "run_updates vals (\<lambda>_. l) (mixing_schedule who ?n @ [True, False]) (t, \<lambda>_. Field 0) = (?t, \<lambda>_. Updated)"
    by (simp only: run_updates_append run)
  have "list_all2 fits ?cs ?vs"
    using assms(3) by (auto simp: list_all2_conv_all_nth mixed_row_def)
  then have ins: "insertable (info t) (?vs, 0)" by (simp add: insertable_def row_at_def mixed_row_def)
  have "row_at (info t) (?vs, 0) = ?vs" by (simp add: row_at_def mixed_row_def)
  then have rw: "row_writes (info t) (?vs, 0) = (0, enc_bool True) # field_writes ?cs ?vs"
    by (simp add: row_writes_def field_writes_def)
  have "put_cell l 0 (enc_bool True) (storage t) = storage t"
    using l(1) by (intro put_cell_again [of _ _ _ 1]) (simp_all add: active_def bool1.width)
  then have "?t = t\<lparr>storage := put_all l (row_writes (info t) (?vs, 0)) (storage t)\<rparr>" by (simp add: rw)
  from overwritten_row(1,2) [OF assms(1) l(1) ins this] \<open>row_at (info t) (?vs, 0) = ?vs\<close>
  have "wf_table ?t" "rows ?t = (rows t)(l \<mapsto> map as_read ?vs)" by simp_all
  then show ?thesis using fin by blast
qed

text \<open>Ann's name with Bob's age.\<close>

theorem updates_of_a_row_mix_witness:
  "\<exists>t l sched t' pc. rows t l = Some [VString ''Bob'', VInt32 20] \<and>
     run_updates (\<lambda>u. if u then [VString (str_resize 8 ''Ann''), VInt32 30] else [VString (str_resize 8 ''Eve''), VInt32 40]) (\<lambda>_. l)
       sched (t, \<lambda>_. Field 0) = (t', pc) \<and> (\<forall>u. pc u = Updated) \<and>
     rows t' l = Some [VString ''Ann'', VInt32 40]"
proof -
  let ?vals = "\<lambda>u. if u then [VString (str_resize 8 ''Ann''), VInt32 30] else [VString (str_resize 8 ''Eve''), VInt32 40]"
  obtain t i j where t: "wf_table t" "info t = sample_info"
    "rows t = [i \<mapsto> [VString ''Ann'', VInt32 30], j \<mapsto> [VString ''Bob'', VInt32 20]]"
    using sample_filled by blast
  have r: "rows t j = Some [VString ''Bob'', VInt32 20]" using t(3) by simp
  have f: "\<forall>u. list_all2 fits (columns (info t)) (?vals u)" by (simp add: t(2) fits_def int32.width)
  have "map as_read (mixed_row ?vals (\<lambda>k. k = 0) (length (columns (info t)))) = [VString ''Ann'', VInt32 40]"
    by (simp add: t(2) mixed_row_def numeral_2_eq_2 c_str_str_resize) (simp add: c_str_def)
  then show ?thesis
    using updates_of_a_row_mix [OF t(1) r f, of "\<lambda>k. k = 0"] r by (metis fun_upd_same)
qed

end
