(* ===== verification/Shutdown.thy ===== *)
theory Shutdown
  imports Server_Guarantees
begin

text \<open>
  \<^verbatim>\<open>shutdownAll\<close> of \<^verbatim>\<open>src/src/clients/SyncServer.h\<close> comes to an end when no thread is still
  before its first look at the map of clients. The locale \<open>draining\<close> is the argument, for any
  step relation with a weight that goes down; it is interpreted on the server. The other case is
  \<open>shutdown_deadlocks\<close> of theory \<open>Server_Guarantees\<close>.
\<close>

section \<open>Runs that end\<close>

locale draining =
  fixes step :: "'s \<Rightarrow> 's \<Rightarrow> bool" and busy :: "'s \<Rightarrow> bool" and final :: "'s \<Rightarrow> bool" and weight :: "'s \<Rightarrow> nat"
  assumes drains: "busy s \<Longrightarrow> step s s' \<Longrightarrow> final s' \<or> busy s' \<and> weight s' < weight s"
    and stays_final: "final s \<Longrightarrow> step s s' \<Longrightarrow> final s'"
    and goes_on: "busy s \<Longrightarrow> \<exists>s'. step s s'"
begin

lemma run_bounded: "(step ^^ k) s s' \<Longrightarrow> busy s \<Longrightarrow> final s' \<or> busy s' \<and> k + weight s' \<le> weight s"
proof (induction k arbitrary: s')
  case (Suc k)
  then obtain s1 where s1: "(step ^^ k) s s1" "step s1 s'" by auto
  then have "final s1 \<or> busy s1 \<and> k + weight s1 \<le> weight s" using Suc by simp
  then show ?case using drains [of s1 s'] stays_final [of s1 s'] s1(2) by auto
qed simp

text \<open>A run from a busy state is short, or has come to a final state; and it can always get there.\<close>

lemma run_ends: "(step ^^ k) s s' \<Longrightarrow> busy s \<Longrightarrow> weight s < k \<Longrightarrow> final s'"
  using run_bounded by fastforce

lemma never_stuck: "step\<^sup>*\<^sup>* s s' \<Longrightarrow> busy s \<Longrightarrow> final s' \<or> (\<exists>s''. step s' s'')"
  using run_bounded goes_on by (metis rtranclp_imp_relpowp)

end

section \<open>The phases of the server\<close>

fun phase_number :: "phase \<Rightarrow> nat" where
  "phase_number Open = 0"
| "phase_number Stopping = 1"
| "phase_number Cleared = 2"
| "phase_number Down = 3"

instantiation phase :: linorder
begin

definition less_eq_phase :: "phase \<Rightarrow> phase \<Rightarrow> bool" where
  "less_eq_phase a b \<longleftrightarrow> phase_number a \<le> phase_number b"

definition less_phase :: "phase \<Rightarrow> phase \<Rightarrow> bool" where
  "less_phase a b \<longleftrightarrow> phase_number a < phase_number b"

instance
proof
  fix a b c :: phase
  show "a \<le> a" "(a < b) = (a \<le> b \<and> \<not> b \<le> a)" "a \<le> b \<or> b \<le> a" "a \<le> b \<Longrightarrow> b \<le> c \<Longrightarrow> a \<le> c"
    unfolding less_eq_phase_def less_phase_def by linarith+
  show "a \<le> b \<Longrightarrow> b \<le> a \<Longrightarrow> a = b"
    unfolding less_eq_phase_def by (cases a; cases b) simp_all
qed

end

lemma phase_goes_forward: "server_step s s' \<Longrightarrow> at_phase s \<le> at_phase s'"
  by (induction rule: server_step.induct) (auto simp: less_eq_phase_def server_defs)

section \<open>Closing down\<close>

fun rounds_left :: "thread_at \<Rightarrow> nat" where
  "rounds_left Starting = 3"
| "rounds_left Serving = 2"
| "rounds_left AtLoop = 1"
| "rounds_left Ended = 0"

definition thread_weight :: "server \<Rightarrow> nat \<Rightarrow> nat" where
  "thread_weight s i = (case threads s i of None \<Rightarrow> 0 | Some (a, _) \<Rightarrow> rounds_left a)"

definition work_left :: "server \<Rightarrow> nat" where
  "work_left s = (\<Sum>i\<in>dom (threads s). thread_weight s i) + (if acceptor s = Accepting then 1 else 0) +
     (3 - phase_number (at_phase s))"

text \<open>Every thread has been asked to stop, and none waits for the mutex that the shutdown holds.\<close>

definition closing :: "server \<Rightarrow> bool" where
  "closing s \<longleftrightarrow> finite (dom (threads s)) \<and> fate s = None \<and> add_mtx_held s \<and> accept_stop s \<and>
     (\<forall>i a stop. threads s i = Some (a, stop) \<longrightarrow> stop \<and> a \<noteq> Starting)"

definition shut :: "server \<Rightarrow> bool" where
  "shut s \<longleftrightarrow> at_phase s = Down \<or> fate s \<noteq> None"

lemma work_left_thread:
  assumes "threads s i = Some (a, stop)" and "finite (dom (threads s))" and "rounds_left b < rounds_left a"
  shows "work_left (set_thread i b stop' s) < work_left s"
proof -
  have d: "dom (threads (set_thread i b stop' s)) = dom (threads s)" using assms(1) by (auto simp: set_thread_def)
  have "(\<Sum>j\<in>dom (threads s). thread_weight (set_thread i b stop' s) j) < (\<Sum>j\<in>dom (threads s). thread_weight s j)"
    using assms by (intro sum_strict_mono_ex1) (auto simp: thread_weight_def set_thread_def intro!: bexI [of _ i])
  then show ?thesis unfolding work_left_def d by (simp add: set_thread_def)
qed

lemma work_left_cong:
  "threads s' = threads s \<Longrightarrow> acceptor s' = acceptor s \<Longrightarrow> at_phase s' = at_phase s \<Longrightarrow> work_left s' = work_left s"
  by (simp add: work_left_def thread_weight_def)

lemma closing_thread:
  assumes "closing s" and "threads s i = Some (a, stop)" and "b \<noteq> Starting" and "rounds_left b < rounds_left a"
  shows "closing (set_thread i b stop s) \<and> work_left (set_thread i b stop s) < work_left s"
  using assms work_left_thread [OF assms(2) _ assms(4), of stop]
  by (auto simp: closing_def set_thread_def add_mtx_held_def)

lemma closing_step:
  assumes "server_step s s'" and "closing s"
  shows "shut s' \<or> closing s' \<and> work_left s' < work_left s"
  using assms
proof (induction rule: server_step.induct)
  case (accept_ends s)
  then show ?case by (auto simp: closing_def work_left_def thread_weight_def add_mtx_held_def)
next
  case (answers s i stop cl q r goes_on cl' sy)
  let ?s = "s\<lparr>oper := sy, clients := (clients s)(i \<mapsto> cl')\<rparr>"
  have "closing ?s = closing s" by (simp add: closing_def add_mtx_held_def)
  then have "closing ?s" "threads ?s i = Some (Serving, stop)" using answers by simp_all
  moreover have "work_left ?s = work_left s" by (rule work_left_cong) simp_all
  ultimately show ?case using closing_thread [of ?s i Serving stop] by simp
next
  case (breaks s i stop)
  then show ?case using closing_thread [of s i Serving stop Ended] by simp
next
  case (stops s i)
  then show ?case using closing_thread [of s i AtLoop True Ended] by simp
next
  case (clears s)
  then show ?case by (auto simp: closing_def work_left_def thread_weight_def server_defs)
qed (auto simp: closing_def shut_def server_defs)

lemma closing_moves:
  assumes "closing s"
  shows "\<exists>s'. server_step s s'"
proof (cases "at_phase s = Stopping")
  case True
  then show ?thesis using assms server_step.clears by (auto simp: closing_def)
next
  case False
  then have cl: "at_phase s = Cleared" and f: "fate s = None" using assms by (auto simp: closing_def add_mtx_held_def)
  show ?thesis
  proof (cases "\<forall>i a stop. threads s i = Some (a, stop) \<longrightarrow> a = Ended")
    case True
    then show ?thesis using server_step.joins [OF f cl] by blast
  next
    case False
    then obtain i a stop where i: "threads s i = Some (a, stop)" "a \<noteq> Ended" by blast
    then have "stop" "a \<noteq> Starting" using assms unfolding closing_def by blast+
    then show ?thesis
      using i f server_step.stops [of s i] server_step.breaks [of s i] by (cases a) auto
  qed
qed

lemma shut_stays: "shut s \<Longrightarrow> server_step s s' \<Longrightarrow> shut s'"
  unfolding shut_def
  by (erule server_stepE) (auto simp: server_defs)

interpretation sd: draining server_step closing shut work_left
  by unfold_locales (use closing_step shut_stays closing_moves in blast)+

section \<open>The end of the server\<close>

lemma finite_threads_step: "server_step s s' \<Longrightarrow> finite (dom (threads s)) \<Longrightarrow> finite (dom (threads s'))"
proof (induction rule: server_step.induct)
  case (shuts s)
  have "dom (threads (shutdownAll_stop s)) = dom (threads s)" by (auto simp: server_defs)
  then show ?case using shuts by simp
qed (auto simp: server_defs)

lemma finite_threads: "server_step\<^sup>*\<^sup>* (new_SyncServer sy) s \<Longrightarrow> finite (dom (threads s))"
  by (induction rule: rtranclp_induct) (auto simp: new_SyncServer_def intro: finite_threads_step)

lemma stop_closes:
  assumes "finite (dom (threads s))" and "fate s = None" and "\<forall>i stop. threads s i \<noteq> Some (Starting, stop)"
  shows "closing (shutdownAll_stop s)" and "work_left (shutdownAll_stop s) \<le> 2 * card (dom (threads s)) + 3"
proof -
  have d: "dom (threads (shutdownAll_stop s)) = dom (threads s)" by (auto simp: server_defs)
  then show "closing (shutdownAll_stop s)"
    unfolding closing_def d using assms by (auto simp: server_defs)
  have "(\<Sum>i\<in>dom (threads s). thread_weight (shutdownAll_stop s) i) \<le> (\<Sum>i\<in>dom (threads s). 2)"
  proof (rule sum_mono)
    fix i
    assume "i \<in> dom (threads s)"
    then obtain a stop where "threads s i = Some (a, stop)" by auto
    then show "thread_weight (shutdownAll_stop s) i \<le> 2"
      using assms(3) by (cases a) (auto simp: thread_weight_def server_defs)
  qed
  then show "work_left (shutdownAll_stop s) \<le> 2 * card (dom (threads s)) + 3"
    unfolding work_left_def d by (simp add: server_defs)
qed



end
