(* ===== verification/Client_Connection.thy ===== *)
theory Client_Connection
  imports Client_Library
begin

text \<open>
  The class \<^verbatim>\<open>Client\<close> of \<^verbatim>\<open>src/src/clients/Client.h\<close>, repeated in
  \<^verbatim>\<open>src/include/SQLid_API.h\<close>, and the construction of \<^verbatim>\<open>SQLid_API\<close>: the life of the
  socket whose traffic is the subject of theory \<open>Client_Library\<close>. Resolving a name and connecting
  to a list of endpoints are calls of Boost.Asio and are arguments. A socket that is not open refuses
  every transfer, as the documentation of Boost.Asio says.
\<close>

section \<open>Client\<close>

datatype tcp_socket = Shut | Open connection

record Client =
  client_name :: string
  client_service :: string
  client_socket :: tcp_socket

definition new_Client :: "string \<Rightarrow> string \<Rightarrow> Client" where
  "new_Client name service = \<lparr>client_name = name, client_service = service, client_socket = Shut\<rparr>"

definition client_connect ::
    "(string \<Rightarrow> string \<Rightarrow> failure + 'e list) \<Rightarrow> ('e list \<Rightarrow> tcp_socket \<Rightarrow> (failure + unit) \<times> tcp_socket) \<Rightarrow>
     Client \<Rightarrow> (failure + unit) \<times> Client" where
  "client_connect resolve asio_connect k =
     (case resolve (client_name k) (client_service k) of
        Inl f \<Rightarrow> (Inl f, k)
      | Inr endpoints \<Rightarrow>
          (case asio_connect endpoints (client_socket k) of (r, s) \<Rightarrow> (r, k\<lparr>client_socket := s\<rparr>)))"

text \<open>
  \<^verbatim>\<open>establishCommunucation\<close> does the same in a \<^verbatim>\<open>try\<close> block, prints the failure and throws it
  on; what is printed is the last component.
\<close>

definition establishCommunucation ::
    "(failure \<Rightarrow> string) \<Rightarrow> (string \<Rightarrow> string \<Rightarrow> failure + 'e list) \<Rightarrow>
     ('e list \<Rightarrow> tcp_socket \<Rightarrow> (failure + unit) \<times> tcp_socket) \<Rightarrow> Client \<Rightarrow> (failure + unit) \<times> Client \<times> string list" where
  "establishCommunucation what_of resolve asio_connect k =
     (case resolve (client_name k) (client_service k) of
        Inl f \<Rightarrow> (Inl f, k, [''Connection failed: '' @ what_of f])
      | Inr endpoints \<Rightarrow>
          (case asio_connect endpoints (client_socket k) of
             (Inl f, s) \<Rightarrow> (Inl f, k\<lparr>client_socket := s\<rparr>, [''Connection failed: '' @ what_of f])
           | (Inr _, s) \<Rightarrow> (Inr (), k\<lparr>client_socket := s\<rparr>, [])))"

definition is_connected :: "Client \<Rightarrow> bool" where
  "is_connected k = (case client_socket k of Shut \<Rightarrow> False | Open c \<Rightarrow> True)"

definition disconnect :: "Client \<Rightarrow> Client" where
  "disconnect k = k\<lparr>client_socket := Shut\<rparr>"

text \<open>A function of the library that uses \<^verbatim>\<open>getConnection()\<close>; all of them begin with a transfer.\<close>

definition over_connection :: "(connection \<Rightarrow> (failure + 'a) \<times> connection) \<Rightarrow> Client \<Rightarrow> (failure + 'a) \<times> Client" where
  "over_connection f k =
     (case client_socket k of
        Shut \<Rightarrow> (Inl (SystemError BadDescriptor), k)
      | Open c \<Rightarrow> (case f c of (r, c') \<Rightarrow> (r, k\<lparr>client_socket := Open c'\<rparr>)))"

text \<open>\<^verbatim>\<open>establishCommunucation\<close> is \<^verbatim>\<open>connect\<close> that also prints its failure.\<close>

lemma establish_connects:
  "establishCommunucation what_of resolve asio_connect k =
     (case client_connect resolve asio_connect k of
        (Inl f, k') \<Rightarrow> (Inl f, k', [''Connection failed: '' @ what_of f]) | (Inr _, k') \<Rightarrow> (Inr (), k', []))"
  by (simp add: establishCommunucation_def client_connect_def split: sum.splits prod.splits)

text \<open>
  A client that is disconnected and connects again talks over the new connection only: nothing that
  was left to read of the old one is seen.
\<close>

theorem reconnected_client_starts_afresh:
  assumes "resolve (client_name k) (client_service k) = Inr endpoints"
    and "asio_connect endpoints Shut = (Inr (), Open c)"
    and "client_connect resolve asio_connect (disconnect k) = (r, k')"
  shows "is_connected k' \<and> fst (over_connection f k') = fst (f c) \<and>
     fst (over_connection f (disconnect k)) = Inl (SystemError BadDescriptor)"
  using assms by (auto simp: client_connect_def disconnect_def is_connected_def over_connection_def split: prod.splits)

theorem reconnected_client_starts_afresh_witness:
  "\<exists>k'. client_connect (\<lambda>_ _. Inr [7 :: nat]) (\<lambda>es s. (Inr (), Open \<lparr>incoming = [], outgoing = [], budget = 100, window = 8\<rparr>))
       (disconnect (new_Client ''localhost'' ''12345'')) = (Inr (), k') \<and>
     is_connected k' \<and> fst (over_connection (api_sendText ''LEAVE'') k') = Inr ()"
proof -
  let ?c = "\<lparr>incoming = [], outgoing = [], budget = 100, window = 8\<rparr>"
  let ?r = "\<lambda>_ _. Inr [7 :: nat]" and ?a = "\<lambda>es s. (Inr (), Open ?c)"
  let ?k = "new_Client ''localhost'' ''12345''"
  obtain r k' where k': "client_connect ?r ?a (disconnect ?k) = (r, k')" by force
  then have "r = Inr ()" by (simp add: client_connect_def)
  moreover have "fst (api_sendText ''LEAVE'' ?c) = Inr ()"
    by (subst api_sendText_ok) (simp_all add: frame_def del: le_bytes.simps)
  ultimately show ?thesis
    using reconnected_client_starts_afresh [of ?r ?k "[7]" ?a ?c r k' "api_sendText ''LEAVE''"] k' by auto
qed

section \<open>The constructor of SQLid API\<close>

text \<open>
  The members of a class are initialised in the order of their declarations, whatever the order in which the
  constructor lists the initialisers. A member that has not been initialised has no value.
\<close>

datatype member_value = Text string | Client_object Client

type_synonym members = "string \<rightharpoonup> member_value"

fun construct :: "string list \<Rightarrow> (string \<times> (members \<Rightarrow> exn + member_value)) list \<Rightarrow> members \<Rightarrow> exn + members" where
  "construct [] inits m = Inr m"
| "construct (n # ns) inits m =
     (case map_of inits n of
        None \<Rightarrow> construct ns inits m
      | Some init \<Rightarrow> bindE (init m) (\<lambda>v. construct ns inits (m(n \<mapsto> v))))"

definition api_members :: "string list" where
  "api_members = [''client'', ''ip'', ''service'']"

text \<open>The initialiser of \<^verbatim>\<open>client\<close> is given the member \<^verbatim>\<open>ip\<close>, not the parameter \<^verbatim>\<open>ip_\<close>.\<close>

definition api_initialisers :: "string \<Rightarrow> string \<Rightarrow> (string \<times> (members \<Rightarrow> exn + member_value)) list" where
  "api_initialisers ip_arg service_arg =
     [(''ip'', \<lambda>m. Inr (Text ip_arg)),
      (''service'', \<lambda>m. Inr (Text service_arg)),
      (''client'', \<lambda>m. case m ''ip'' of
         Some (Text ip) \<Rightarrow> Inr (Client_object (new_Client ip service_arg))
       | _ \<Rightarrow> Inl (Undefined ''ip is used before it is initialised''))]"

definition new_SQLid_API :: "string \<Rightarrow> string \<Rightarrow> exn + members" where
  "new_SQLid_API ip_arg service_arg = construct api_members (api_initialisers ip_arg service_arg) Map.empty"

text \<open>
  Every construction of \<^verbatim>\<open>SQLid_API\<close> reads the string \<^verbatim>\<open>ip\<close> before it exists: the member
  \<^verbatim>\<open>client\<close> is declared first, so it is initialised first. In the order in which the
  initialisers are written it would be given the address and the service.
\<close>

theorem library_constructor_is_undefined:
  "new_SQLid_API ip_arg service_arg = Inl (Undefined ''ip is used before it is initialised'') \<and>
   (\<exists>m. construct (map fst (api_initialisers ip_arg service_arg)) (api_initialisers ip_arg service_arg) Map.empty = Inr m \<and>
      m ''client'' = Some (Client_object (new_Client ip_arg service_arg)))"
  by (simp add: new_SQLid_API_def api_members_def api_initialisers_def)

end
