(* ===== verification/Entry_Point.thy ===== *)
theory Entry_Point
  imports Server
begin

text \<open>
  The function \<^verbatim>\<open>main\<close> of \<^verbatim>\<open>src/src/SQLid.cpp\<close>: the port and the path, from the arguments or
  from the standard input, the start of the server, and the loop that waits for a 0 to turn it off. The rest
  of the file is commented out. What is printed is left out, and binding the port is a call of the library.
\<close>

section \<open>Arguments\<close>

text \<open>
  \<^verbatim>\<open>std::cin >> n\<close> for an \<^verbatim>\<open>int\<close>: without a digit the target becomes 0, beyond the range the nearest
  value; with nothing but white space left it keeps its value. The stream fails in all three cases.
\<close>

definition read_int :: "istr \<Rightarrow> int \<Rightarrow> int \<times> istr" where
  "read_int s n =
     (if \<not> stream_good s then (n, s)
      else let r = dropWhile is_space (remaining s) in
        if r = [] then (n, \<lparr>remaining = [], stream_good = False\<rparr>)
        else let (neg, r') = read_sign r;
                 ds = takeWhile (is_digit 10) r';
                 r'' = dropWhile (is_digit 10) r';
                 v = signed_value (neg, digits_value 10 0 ds)
             in if ds = [] then (0, \<lparr>remaining = r'', stream_good = False\<rparr>)
                else if v < - (2 ^ 31) then (- (2 ^ 31), \<lparr>remaining = r'', stream_good = False\<rparr>)
                else if 2 ^ 31 \<le> v then (2 ^ 31 - 1, \<lparr>remaining = r'', stream_good = False\<rparr>)
                else (v, istr_of r''))"

text \<open>The arguments, the program's name first; \<open>None\<close> is the exit with code 1.\<close>

definition main_arguments :: "string list \<Rightarrow> istr \<Rightarrow> (int \<times> string) option \<times> istr" where
  "main_arguments argv cin =
     (let (pp, cin) =
        (if length argv = 3 then
           (case stoi (argv ! 1) of Inl _ \<Rightarrow> (None, cin) | Inr w \<Rightarrow> (Some (sint w, argv ! 2), cin))
         else if length argv = 1 then
           (let (port, cin) = read_int cin 0; (_, path, cin) = read_str cin [] in (Some (port, path), cin))
         else (None, cin))
      in (case pp of None \<Rightarrow> None
          | Some (port, path) \<Rightarrow> if port \<le> 0 \<or> 65535 < port then None else Some (port, path), cin))"

section \<open>Waiting\<close>

text \<open>The loop \<^verbatim>\<open>for (int w = 1; w != 0;)\<close>, for a number of rounds: whether it has ended.\<close>

fun wait_for_zero :: "nat \<Rightarrow> int \<Rightarrow> istr \<Rightarrow> bool \<times> istr" where
  "wait_for_zero 0 w cin = (w = 0, cin)"
| "wait_for_zero (Suc n) w cin =
     (if w = 0 then (True, cin) else (let (w, cin) = read_int cin w in wait_for_zero n w cin))"

text \<open>
  The whole program: the exit code 1, an exception of the constructor of the system, or a server that runs and
  is shut down once the loop has ended. What clients do to the server meanwhile is the step relation of theory
  \<open>Server\<close>; here there are none.
\<close>

datatype outcome = ExitCode nat | Terminated exn | Serving_at int server | Shut_down server

definition main_program :: "nat \<Rightarrow> string list \<Rightarrow> (string \<Rightarrow> path) \<Rightarrow> volume \<Rightarrow> istr \<Rightarrow> outcome" where
  "main_program n argv locate v cin =
     (case main_arguments argv cin of
        (None, cin) \<Rightarrow> ExitCode 1
      | (Some (port, path), cin) \<Rightarrow>
          (case new_System (locate path) v of
             Inl e \<Rightarrow> Terminated e
           | Inr sy \<Rightarrow>
               if fst (wait_for_zero n 1 cin)
               then Shut_down (shutdownAll (new_SyncServer sy))
               else Serving_at port (new_SyncServer sy)))"

section \<open>What input turns the server off\<close>

lemma read_int_digits:
  assumes "n < 2 ^ 31" and "ends_word r"
  shows "read_int (istr_of (CHR '' '' # to_string n @ r)) m = (int n, istr_of r)"
proof -
  have d: "\<forall>c\<in>set (to_string n). is_digit 10 c" using to_string_digits by blast
  have "takeWhile (is_digit 10) (to_string n @ r) = to_string n" "dropWhile (is_digit 10) (to_string n @ r) = r"
    using d While_ends_word [OF assms(2)] by simp_all
  then show ?thesis
    using assms(1) unfolding read_int_def
    by (simp add: istr_of_def Let_def dropWhile_space_word read_sign_digits d signed_value_def)
qed

lemma read_int_end: "read_int (istr_of []) m = (m, \<lparr>remaining = [], stream_good = False\<rparr>)"
  by (simp add: read_int_def istr_of_def)

lemma wait_bad: "\<not> stream_good cin \<Longrightarrow> w \<noteq> 0 \<Longrightarrow> \<not> fst (wait_for_zero n w cin)"
  by (induction n) (simp_all add: read_int_def)

text \<open>
  Without a 0 on the standard input the server is never turned off: after the numbers that were typed the
  input ends, the last one stays in the variable, and the loop spins for ever.
\<close>

theorem closed_input_never_stops:
  assumes "\<forall>m\<in>set ms. 0 < m \<and> m < 2 ^ 31" and "w \<noteq> 0"
  shows "\<not> fst (wait_for_zero n w (istr_of (blanks (map to_string ms))))"
  using assms
proof (induction ms arbitrary: w n)
  case Nil
  then show ?case using wait_bad [of "\<lparr>remaining = [], stream_good = False\<rparr>" w] by (cases n) (simp_all add: read_int_end)
next
  case (Cons m ms)
  have "read_int (istr_of (blanks (map to_string (m # ms)))) w = (int m, istr_of (blanks (map to_string ms)))"
    using read_int_digits [of m "blanks (map to_string ms)" w] Cons.prems(1) by simp
  then show ?case using Cons.IH [of "int m"] Cons.prems by (cases n) simp_all
qed

theorem closed_input_never_stops_witness: "\<forall>n. \<not> fst (wait_for_zero n 1 (istr_of (blanks (map to_string [5, 12]))))"
  using closed_input_never_stops [of "[5, 12]" 1] by simp

lemma zero_stops: "fst (wait_for_zero (Suc (Suc n)) 1 (istr_of (blanks [to_string 0])))"
  using read_int_digits [of 0 "[]" 1] by (simp add: ends_word_def)

lemma word_stops: "fst (wait_for_zero (Suc (Suc n)) 1 (istr_of (''quit'')))"
  by (simp add: read_int_def istr_of_def is_space_def is_digit_def digit_value_def)

text \<open>A server that starts has a port in range.\<close>

lemma port_in_range: "main_arguments argv cin = (Some (port, path), cin') \<Longrightarrow> 0 < port \<and> port \<le> 65535"
  by (auto simp: main_arguments_def Let_def split: if_splits sum.splits prod.splits option.splits)

end
